(* ===== verification/Prelude.thy ===== *)
theory Prelude
  imports Main "HOL-Library.Word"
begin

unbundle bit_operations_syntax

text \<open>
  What every component shares: the machine types, the result type of fallible Rust code
  (with a panic as a third outcome, so that \<open>assert!\<close>, \<open>unwrap\<close> and checked
  arithmetic are branches of the model), big-endian byte strings as \<open>bytes::Buf\<close> reads
  and writes them, the codec interface, and lemmas on lists and words.
\<close>

section \<open>Machine types\<close>

type_synonym u8 = "8 word"
type_synonym u16 = "16 word"
type_synonym u32 = "32 word"
type_synonym u64 = "64 word"

lemma unat_u8_bound: "unat (b :: u8) < 256"
proof -
  have "unat b < 2 ^ LENGTH(8)" by (rule unsigned_less)
  then show ?thesis by simp
qed

text \<open>A buffer is the list of the bytes that are still to be read.\<close>

type_synonym bytes = "u8 list"

named_theorems res_simps \<open>rewrite rules for results and their combinators\<close>
named_theorems be_simps \<open>big-endian byte strings\<close>

section \<open>Results\<close>

text \<open>
  \<open>Result<T, E>\<close> with a third outcome for a panic (a failed \<open>assert!\<close>,
  \<open>unwrap\<close>, \<open>unreachable!\<close>, index out of range or arithmetic overflow with
  overflow checks on).
\<close>

datatype ('e, 'a) result = Ok 'a | Err 'e | Panic

text \<open>A function without error type, whose only failure is a panic.\<close>

type_synonym 'a may_panic = "(unit, 'a) result"

text \<open>The operator \<open>?\<close>: continue with the value, return every other outcome.\<close>

fun and_then :: "('e, 'a) result \<Rightarrow> ('a \<Rightarrow> ('e, 'b) result) \<Rightarrow> ('e, 'b) result" where
  "and_then (Ok x) f = f x"
| "and_then (Err e) f = Err e"
| "and_then Panic f = Panic"

text \<open>The conversion of the error that \<open>?\<close> inserts, or an explicit \<open>map_err\<close>.\<close>

fun map_err :: "('e \<Rightarrow> 'f) \<Rightarrow> ('e, 'a) result \<Rightarrow> ('f, 'a) result" where
  "map_err f (Ok x) = Ok x"
| "map_err f (Err e) = Err (f e)"
| "map_err f Panic = Panic"

fun map_ok :: "('a \<Rightarrow> 'b) \<Rightarrow> ('e, 'a) result \<Rightarrow> ('e, 'b) result" where
  "map_ok f (Ok x) = Ok (f x)"
| "map_ok f (Err e) = Err e"
| "map_ok f Panic = Panic"

definition assert_then :: "bool \<Rightarrow> ('e, 'a) result \<Rightarrow> ('e, 'a) result" where
  "assert_then b r = (if b then r else Panic)"

lemma and_then_eq_Ok [res_simps]: "and_then r f = Ok y \<longleftrightarrow> (\<exists>x. r = Ok x \<and> f x = Ok y)"
  by (cases r) auto

lemma and_then_eq_Err [res_simps]:
  "and_then r f = Err e \<longleftrightarrow> r = Err e \<or> (\<exists>x. r = Ok x \<and> f x = Err e)"
  by (cases r) auto

lemma and_then_eq_Panic [res_simps]:
  "and_then r f = Panic \<longleftrightarrow> r = Panic \<or> (\<exists>x. r = Ok x \<and> f x = Panic)"
  by (cases r) auto

lemma map_err_eq_Ok [res_simps, simp]: "map_err f r = Ok y \<longleftrightarrow> r = Ok y"
  by (cases r) auto

lemma map_err_eq_Err [res_simps]: "map_err f r = Err e \<longleftrightarrow> (\<exists>e'. r = Err e' \<and> e = f e')"
  by (cases r) auto

lemma map_err_eq_Panic [res_simps, simp]: "map_err f r = Panic \<longleftrightarrow> r = Panic"
  by (cases r) auto

lemma map_ok_eq_Ok [res_simps]: "map_ok f r = Ok y \<longleftrightarrow> (\<exists>x. r = Ok x \<and> y = f x)"
  by (cases r) auto

lemma map_ok_eq_Err [res_simps, simp]: "map_ok f r = Err e \<longleftrightarrow> r = Err e"
  by (cases r) auto

lemma map_ok_eq_Panic [res_simps, simp]: "map_ok f r = Panic \<longleftrightarrow> r = Panic"
  by (cases r) auto

lemma assert_then_simps [res_simps]:
  "assert_then b r = Ok x \<longleftrightarrow> b \<and> r = Ok x"
  "assert_then b r = Err e \<longleftrightarrow> b \<and> r = Err e"
  "assert_then b r = Panic \<longleftrightarrow> (b \<longrightarrow> r = Panic)"
  by (auto simp: assert_then_def)

lemma and_then_assoc: "and_then (and_then r f) g = and_then r (\<lambda>x. and_then (f x) g)"
  by (cases r) auto

text \<open>\<open>unwrap\<close> and \<open>expect\<close>: an error is a panic.\<close>

fun unwrap :: "('e, 'a) result \<Rightarrow> ('f, 'a) result" where
  "unwrap (Ok x) = Ok x"
| "unwrap (Err e) = Panic"
| "unwrap Panic = Panic"

text \<open>
  A method on \<open>&mut self\<close> returns its result beside the state, which is kept on every
  outcome; \<open>st_then\<close> is \<open>?\<close> for such methods.
\<close>

fun st_then :: "('e, 'a) result \<times> 's \<Rightarrow> ('a \<Rightarrow> 's \<Rightarrow> ('e, 'b) result \<times> 's) \<Rightarrow>
    ('e, 'b) result \<times> 's" where
  "st_then (Ok x, s) f = f x s"
| "st_then (Err e, s) f = (Err e, s)"
| "st_then (Panic, s) f = (Panic, s)"

section \<open>Checked arithmetic on 64-bit unsigned integers\<close>

text \<open>
  \<open>usize\<close> and the \<open>u64\<close> values of the QPACK code are natural numbers below
  \<open>2 ^ 64\<close> (a 64-bit target); addition and subtraction panic where Rust's overflow
  check does.
\<close>

definition usize_max :: nat where
  "usize_max = 2 ^ 64 - 1"

definition uadd :: "nat \<Rightarrow> nat \<Rightarrow> ('e, nat) result" where
  "uadd a b = (if a + b \<le> usize_max then Ok (a + b) else Panic)"

definition usub :: "nat \<Rightarrow> nat \<Rightarrow> ('e, nat) result" where
  "usub a b = (if b \<le> a then Ok (a - b) else Panic)"

lemma uadd_simps [res_simps]:
  "uadd a b = Ok c \<longleftrightarrow> c = a + b \<and> a + b \<le> usize_max"
  "uadd a b = Err e \<longleftrightarrow> False"
  "uadd a b = Panic \<longleftrightarrow> \<not> a + b \<le> usize_max"
  by (auto simp: uadd_def)

lemma usub_simps [res_simps]:
  "usub a b = Ok c \<longleftrightarrow> c = a - b \<and> b \<le> a"
  "usub a b = Err e \<longleftrightarrow> False"
  "usub a b = Panic \<longleftrightarrow> \<not> b \<le> a"
  by (auto simp: usub_def)

lemma usub_Ok [simp]: "b \<le> a \<Longrightarrow> usub a b = Ok (a - b)"
  by (simp add: usub_def)

lemma uadd_Ok [simp]: "a + b \<le> usize_max \<Longrightarrow> uadd a b = Ok (a + b)"
  by (simp add: uadd_def)

section \<open>Big-endian byte strings\<close>

fun be_bytes :: "nat \<Rightarrow> nat \<Rightarrow> bytes" where
  "be_bytes 0 x = []"
| "be_bytes (Suc n) x = be_bytes n (x div 256) @ [word_of_nat (x mod 256)]"

definition be_val :: "bytes \<Rightarrow> nat" where
  "be_val bs = foldl (\<lambda>a b. a * 256 + unat b) 0 bs"

lemma length_be_bytes [simp, be_simps]: "length (be_bytes n x) = n"
  by (induction n arbitrary: x) auto

lemma be_val_Nil [simp, be_simps]: "be_val [] = 0"
  by (simp add: be_val_def)

lemma be_val_snoc [be_simps]: "be_val (bs @ [b]) = be_val bs * 256 + unat b"
  by (simp add: be_val_def)

lemma be_val_be_bytes [be_simps]: "be_val (be_bytes n x) = x mod 256 ^ n"
proof (induction n arbitrary: x)
  case 0
  then show ?case by simp
next
  case (Suc n)
  have "unat (word_of_nat (x mod 256) :: u8) = x mod 256"
    by (simp add: unat_of_nat)
  then show ?case
    by (simp add: be_val_snoc Suc.IH mod_mult2_eq mult.commute)
qed

lemma be_bytes_Cons:
  "be_bytes (Suc n) x = word_of_nat (x div 256 ^ n mod 256) # be_bytes n x"
proof (induction n arbitrary: x)
  case 0
  then show ?case by simp
next
  case (Suc n)
  have "be_bytes (Suc (Suc n)) x = be_bytes (Suc n) (x div 256) @ [word_of_nat (x mod 256)]"
    by simp
  also have "\<dots> = word_of_nat (x div 256 div 256 ^ n mod 256) # be_bytes n (x div 256)
      @ [word_of_nat (x mod 256)]"
    by (simp only: Suc.IH append_Cons)
  also have "\<dots> = word_of_nat (x div 256 ^ Suc n mod 256) # be_bytes (Suc n) x"
    by (simp add: div_mult2_eq)
  finally show ?case .
qed

lemma be_val_Cons: "be_val (b # bs) = unat b * 256 ^ length bs + be_val bs"
proof (induction bs rule: rev_induct)
  case Nil
  then show ?case by (simp add: be_val_def)
next
  case (snoc c cs)
  have "be_val (b # cs @ [c]) = be_val (b # cs) * 256 + unat c"
    using be_val_snoc [of "b # cs" c] by simp
  with snoc show ?case by (simp add: be_val_snoc algebra_simps)
qed

lemma mult_add_less:
  fixes a v k p :: nat
  assumes "a < k" and "v < p"
  shows "a * p + v < k * p"
proof -
  have "a * p + v < Suc a * p" using assms(2) by simp
  also have "\<dots> \<le> k * p" using assms(1) by (intro mult_right_mono) simp_all
  finally show ?thesis .
qed

lemma be_val_bound: "be_val bs < 256 ^ length bs"
  by (induction bs) (simp_all add: be_val_Cons mult_add_less unat_u8_bound)

section \<open>Words\<close>

lemma unat_of_nat_le: "unat (word_of_nat n :: 'a::len word) \<le> n"
  by (simp add: unat_of_nat)

lemma unat_u8_of_nat [simp]: "n < 256 \<Longrightarrow> unat (word_of_nat n :: u8) = n"
  by (simp add: unat_of_nat)

lemma unat_u64_of_nat [simp]: "n < 2 ^ 64 \<Longrightarrow> unat (word_of_nat n :: u64) = n"
  by (simp add: unat_of_nat)

lemma unat_or_disjoint:
  fixes a b :: "'a::len word"
  assumes "a AND b = 0"
  shows "unat (a OR b) = unat a + unat b"
proof -
  have "unat a AND unat b = unat (a AND b)"
    by (simp add: unsigned_and_eq)
  with assms have "unat a AND unat b = 0" by simp
  then have "unat a OR unat b = unat a + unat b"
    by (simp add: disjunctive_add_eq_or)
  then show ?thesis
    by (simp add: unsigned_or_eq)
qed

lemma unat_drop_bit_div: "unat (drop_bit n (w :: 'a::len word)) = unat w div 2 ^ n"
  unfolding unsigned_drop_bit_eq by (simp add: drop_bit_eq_div [where ?'a = nat] take_bit_nat_eq_self)

lemma unat_and_mask: "unat (w AND mask n :: 'a::len word) = unat w mod 2 ^ n"
  unfolding take_bit_eq_mask [symmetric] unsigned_take_bit_eq by (simp add: take_bit_eq_mod [where ?'a = nat])

lemma word_eq_iff_unat: "a = b \<longleftrightarrow> unat a = unat (b :: 'a::len word)"
  by (simp add: word_unat_eq_iff)

section \<open>Codecs\<close>

text \<open>
  The interface of every encodable type of the wire formats: what is encoded is decoded
  again, and the decoder leaves the bytes that follow untouched.
\<close>

locale codec =
  fixes enc :: "'a \<Rightarrow> bytes"
    and dec :: "bytes \<Rightarrow> ('e, 'a \<times> bytes) result"
    and valid :: "'a \<Rightarrow> bool"
  assumes dec_enc: "valid x \<Longrightarrow> dec (enc x @ rest) = Ok (x, rest)"
begin

lemma enc_prefix_free:
  assumes "valid x" and "valid y" and "enc x @ r = enc y @ s"
  shows "x = y \<and> r = s"
proof -
  have "Ok (x, r) = dec (enc y @ s)"
    using dec_enc [OF assms(1), of r] assms(3) by simp
  also have "\<dots> = Ok (y, s)"
    by (rule dec_enc [OF assms(2)])
  finally show ?thesis by simp
qed

lemma enc_inject: "valid x \<Longrightarrow> valid y \<Longrightarrow> enc x = enc y \<longleftrightarrow> x = y"
  using enc_prefix_free [of x y "[]" "[]"] by auto

end

text \<open>A codec whose decoder always consumes input: sequences of values can be decoded.\<close>

locale progress_codec = codec +
  assumes enc_nonempty: "valid x \<Longrightarrow> enc x \<noteq> []"
begin

lemma enc_list_inject:
  assumes "\<forall>x \<in> set xs. valid x" and "\<forall>y \<in> set ys. valid y"
    and "concat (map enc xs) = concat (map enc ys)"
  shows "xs = ys"
  using assms
proof (induction xs arbitrary: ys)
  case Nil
  then show ?case by (cases ys) (auto dest: enc_nonempty)
next
  case (Cons x xs)
  then obtain y zs where ys: "ys = y # zs"
    by (cases ys) (auto dest: enc_nonempty)
  with Cons.prems have "enc x @ concat (map enc xs) = enc y @ concat (map enc zs)"
    by simp
  moreover have "valid x" and "valid y"
    using Cons.prems ys by auto
  ultimately have *: "x = y \<and> concat (map enc xs) = concat (map enc zs)"
    using enc_prefix_free by blast
  moreover have "xs = zs"
    using Cons.prems(1,2) ys * by (intro Cons.IH) simp_all
  ultimately show ?case using ys by simp
qed

end

end
