(* ===== verification/Varint.thy ===== *)
theory Varint
  imports Prelude
begin

text \<open>
  The QUIC variable-length integers of \<open>h3/src/proto/varint.rs\<close> and the basic coding
  helpers of \<open>h3/src/proto/coding.rs\<close>. A \<open>VarInt\<close> is its \<open>u64\<close>. Reading from a
  buffer returns the value and the bytes that are left; what a failed read leaves behind is
  not observed by any caller and is not modelled. The lemmas show the round trip, the
  length and minimality of the encoding, the bounds of what is decoded and that decoding
  never panics.
\<close>

section \<open>Model\<close>

datatype unexpected_end = UnexpectedEnd nat

definition u8_decode :: "bytes \<Rightarrow> (unexpected_end, u8 \<times> bytes) result" where
  "u8_decode buf = (case buf of [] \<Rightarrow> Err (UnexpectedEnd 1) | b # rest \<Rightarrow> Ok (b, rest))"

definition varint_max :: u64 where
  "varint_max = push_bit 62 1 - 1"

definition varint_max_size :: nat where
  "varint_max_size = 8"

datatype varint_bounds_exceeded = VarIntBoundsExceeded u64

definition varint_from_u64 :: "u64 \<Rightarrow> (varint_bounds_exceeded, u64) result" where
  "varint_from_u64 x = (if x < 2 ^ 62 then Ok x else Err (VarIntBoundsExceeded x))"

definition varint_size :: "u64 \<Rightarrow> nat may_panic" where
  "varint_size x =
     (if x < 2 ^ 6 then Ok 1
      else if x < 2 ^ 14 then Ok 2
      else if x < 2 ^ 30 then Ok 4
      else if x < 2 ^ 62 then Ok 8
      else Panic)"

definition varint_encoded_size :: "u8 \<Rightarrow> nat" where
  "varint_encoded_size first = 2 ^ unat (drop_bit 6 first)"

text \<open>
  \<open>copy_to_slice\<close> moves \<open>n - 1\<close> further bytes behind the first one, whose two tag bits
  have been cleared, and \<open>from_be_bytes\<close> reads the \<open>n\<close> bytes.
\<close>

definition varint_decode :: "bytes \<Rightarrow> (unexpected_end, u64 \<times> bytes) result" where
  "varint_decode r =
     (case r of
        [] \<Rightarrow> Err (UnexpectedEnd 0)
      | b # r1 \<Rightarrow>
          let tag = drop_bit 6 b; b0 = b AND 0x3F in
          if tag = 0 then Ok (ucast b0, r1)
          else if tag = 1 then
            (if length r1 < 1 then Err (UnexpectedEnd 1)
             else Ok (word_of_nat (be_val (b0 # take 1 r1)), drop 1 r1))
          else if tag = 2 then
            (if length r1 < 3 then Err (UnexpectedEnd 2)
             else Ok (word_of_nat (be_val (b0 # take 3 r1)), drop 3 r1))
          else if tag = 3 then
            (if length r1 < 7 then Err (UnexpectedEnd 3)
             else Ok (word_of_nat (be_val (b0 # take 7 r1)), drop 7 r1))
          else Panic)"

text \<open>The bytes that \<open>put_u8\<close>, \<open>put_u16\<close>, \<open>put_u32\<close> and \<open>put_u64\<close> append.\<close>

definition varint_encode :: "u64 \<Rightarrow> bytes may_panic" where
  "varint_encode x =
     (if x < 2 ^ 6 then Ok [ucast x]
      else if x < 2 ^ 14 then Ok (be_bytes 2 (unat (push_bit 14 1 OR ucast x :: u16)))
      else if x < 2 ^ 30 then Ok (be_bytes 4 (unat (push_bit 30 2 OR ucast x :: u32)))
      else if x < 2 ^ 62 then Ok (be_bytes 8 (unat (push_bit 62 3 OR x)))
      else Panic)"

text \<open>\<open>get_var\<close> of \<open>BufExt\<close>, and \<open>write_var\<close> of \<open>BufMutExt\<close> with its \<open>unwrap\<close>.\<close>

definition get_var :: "bytes \<Rightarrow> (unexpected_end, u64 \<times> bytes) result" where
  "get_var buf = varint_decode buf"

definition write_var :: "u64 \<Rightarrow> bytes may_panic" where
  "write_var x = (case varint_from_u64 x of Ok v \<Rightarrow> varint_encode v | _ \<Rightarrow> Panic)"

section \<open>Lemmas\<close>

definition varint_ok :: "u64 \<Rightarrow> bool" where
  "varint_ok x \<longleftrightarrow> x < 2 ^ 62"

lemma varint_ok_iff: "varint_ok x \<longleftrightarrow> unat x < 2 ^ 62"
  by (simp add: varint_ok_def word_less_nat_alt)

text \<open>A length that fits a variable-length integer.\<close>

definition length_ok :: "nat \<Rightarrow> bool" where
  "length_ok n \<longleftrightarrow> n < 2 ^ 62"

lemma varint_ok_of_nat: "length_ok n \<Longrightarrow> varint_ok (word_of_nat n)"
  by (simp add: varint_ok_iff length_ok_def)

lemma unat_of_length_ok [simp]: "length_ok n \<Longrightarrow> unat (word_of_nat n :: u64) = n"
  by (simp add: length_ok_def)

lemma length_ok_mono: "length_ok n \<Longrightarrow> m \<le> n \<Longrightarrow> length_ok m"
  by (simp add: length_ok_def)

lemma varint_from_u64_Ok [simp]: "varint_ok x \<Longrightarrow> varint_from_u64 x = Ok x"
  by (simp add: varint_from_u64_def varint_ok_def)

lemma varint_max_iff: "x \<le> varint_max \<longleftrightarrow> varint_ok x"
  by (auto simp: varint_ok_def varint_max_def word_le_nat_alt word_less_nat_alt)

lemma varint_from_u64_simps [simp]:
  "varint_from_u64 x = Ok v \<longleftrightarrow> varint_ok x \<and> v = x"
  "varint_from_u64 x = Err e \<longleftrightarrow> \<not> varint_ok x \<and> e = VarIntBoundsExceeded x"
  "varint_from_u64 x \<noteq> Panic"
  by (auto simp: varint_from_u64_def varint_ok_def)

lemma write_var_eq: "write_var x = varint_encode x"
  by (auto simp: write_var_def varint_from_u64_def varint_encode_def word_less_nat_alt)

text \<open>
  The encoding in arithmetic: \<open>n\<close> big-endian bytes of the value plus the tag in the two
  top bits.
\<close>

definition tag_of :: "nat \<Rightarrow> nat" where
  "tag_of n = (if n = 1 then 0 else if n = 2 then 1 else if n = 4 then 2 else 3)"

lemma push_bit_or_eq:
  assumes "unat x < 2 ^ k" and "k < LENGTH('a)" and "t * 2 ^ k < 2 ^ LENGTH('a)"
  shows "unat (push_bit k (word_of_nat t) OR x :: 'a::len word) = t * 2 ^ k + unat x"
proof -
  have x: "take_bit k x = x"
    using assms(1) by (simp add: word_eq_iff_unat unsigned_take_bit_eq take_bit_nat_eq_self)
  have "push_bit k (word_of_nat t) AND take_bit k x = (0 :: 'a word)"
    by (rule bit_eqI) (auto simp: bit_simps)
  with x have "push_bit k (word_of_nat t) AND x = (0 :: 'a word)" by simp
  then have "unat (push_bit k (word_of_nat t) OR x) = unat (push_bit k (word_of_nat t) :: 'a word) + unat x"
    by (rule unat_or_disjoint)
  moreover have "push_bit k (word_of_nat t) = (word_of_nat (t * 2 ^ k) :: 'a word)"
    by (simp add: push_bit_eq_mult)
  moreover have "unat (word_of_nat (t * 2 ^ k) :: 'a word) = t * 2 ^ k"
    using assms(3) by (simp only: unat_of_nat mod_less)
  ultimately show ?thesis by simp
qed

lemma unat_ucast_small:
  "unat x < 2 ^ LENGTH('b) \<Longrightarrow> unat (ucast x :: 'b::len word) = unat (x :: 'a::len word)"
  by (simp add: unsigned_ucast_eq take_bit_nat_eq_self)

lemma varint_encode_arith:
  assumes "varint_size x = Ok n"
  shows "varint_encode x = Ok (be_bytes n (tag_of n * 2 ^ (8 * n - 2) + unat x))"
proof -
  have le: "unat x < 2 ^ (8 * n - 2)" and n: "n = 1 \<or> n = 2 \<or> n = 4 \<or> n = 8"
    using assms by (auto simp: varint_size_def word_less_nat_alt split: if_splits)
  consider "n = 1" | "n = 2" | "n = 4" | "n = 8" using n by blast
  then show ?thesis
  proof cases
    case 1
    with assms have "x < 2 ^ 6" by (auto simp: varint_size_def split: if_splits)
    moreover have "ucast x = (word_of_nat (unat x mod 256) :: u8)"
      using le 1 by (simp add: word_eq_iff_unat unat_ucast_small)
    ultimately show ?thesis using 1 by (simp add: varint_encode_def tag_of_def)
  next
    case 2
    then have "\<not> x < 2 ^ 6" "x < 2 ^ 14"
      using assms by (auto simp: varint_size_def split: if_splits)
    moreover have "unat (push_bit 14 (word_of_nat 1) OR ucast x :: u16) = 1 * 2 ^ 14 + unat (ucast x :: u16)"
      using le 2 by (intro push_bit_or_eq) (simp_all add: unat_ucast_small)
    ultimately show ?thesis
      using le 2 by (simp add: varint_encode_def tag_of_def unat_ucast_small)
  next
    case 3
    then have "\<not> x < 2 ^ 6" "\<not> x < 2 ^ 14" "x < 2 ^ 30"
      using assms by (auto simp: varint_size_def split: if_splits)
    moreover have "unat (push_bit 30 (word_of_nat 2) OR ucast x :: u32) = 2 * 2 ^ 30 + unat (ucast x :: u32)"
      using le 3 by (intro push_bit_or_eq) (simp_all add: unat_ucast_small)
    ultimately show ?thesis
      using le 3 by (simp add: varint_encode_def tag_of_def unat_ucast_small)
  next
    case 4
    then have "\<not> x < 2 ^ 6" "\<not> x < 2 ^ 14" "\<not> x < 2 ^ 30" "x < 2 ^ 62"
      using assms by (auto simp: varint_size_def split: if_splits)
    moreover have "unat (push_bit 62 (word_of_nat 3) OR x) = 3 * 2 ^ 62 + unat x"
      using le 4 by (intro push_bit_or_eq) simp_all
    ultimately show ?thesis
      using 4 by (simp add: varint_encode_def tag_of_def)
  qed
qed

lemma varint_size_bounds:
  assumes "varint_size x = Ok n"
  shows "n \<in> {1, 2, 4, 8}" and "unat x < 2 ^ (8 * n - 2)"
  using assms by (auto simp: varint_size_def word_less_nat_alt split: if_splits)

lemma varint_size_total: "varint_ok x \<Longrightarrow> \<exists>n. varint_size x = Ok n"
  by (auto simp: varint_ok_def varint_size_def)

text \<open>Decoding in the same terms: tag and low six bits of the first byte.\<close>

lemma first_byte_split:
  assumes "t < 4" and "q < 64"
  shows "drop_bit 6 (word_of_nat (t * 64 + q) :: u8) = word_of_nat t"
    and "(word_of_nat (t * 64 + q) :: u8) AND 0x3F = word_of_nat q"
proof -
  have u: "unat (word_of_nat (t * 64 + q) :: u8) = t * 64 + q"
    using assms by (intro unat_u8_of_nat) simp
  show "drop_bit 6 (word_of_nat (t * 64 + q) :: u8) = word_of_nat t"
    using assms by (simp only: word_eq_iff_unat unat_drop_bit_div u) simp
  have "(0x3F :: u8) = mask 6" by (simp add: mask_eq_exp_minus_1)
  then show "(word_of_nat (t * 64 + q) :: u8) AND 0x3F = word_of_nat q"
    using assms by (simp only: unat_and_mask u word_eq_iff_unat [where b = "word_of_nat q"]) simp
qed

lemma varint_decode_tagged:
  assumes "n \<in> {1, 2, 4, 8}" and "v < 2 ^ (8 * n - 2)"
  shows "varint_decode (be_bytes n (tag_of n * 2 ^ (8 * n - 2) + v) @ rest) = Ok (word_of_nat v, rest)"
proof -
  define t m where "t = tag_of n" and "m = n - 1"
  define q where "q = v div 256 ^ m"
  have n: "n = Suc m" and m: "m \<in> {0, 1, 3, 7}" and t4: "t < 4" and m7: "m < 8"
    using assms(1) by (auto simp: m_def t_def tag_of_def)
  have pow: "2 ^ (8 * n - 2) = 64 * (256 :: nat) ^ m"
  proof -
    have "(256 :: nat) ^ m = 2 ^ (8 * m)" by (simp add: power_mult)
    moreover have "8 * n - 2 = 6 + 8 * m" using n by simp
    ultimately show ?thesis by (simp add: power_add)
  qed
  have q: "q < 64"
    using assms(2) pow by (simp add: q_def less_mult_imp_div_less)
  have split: "t * 2 ^ (8 * n - 2) + v = v + 256 ^ m * (t * 64)" by (simp add: pow)
  have hi: "(t * 2 ^ (8 * n - 2) + v) div 256 ^ m = t * 64 + q"
    by (simp only: q_def split) simp
  have lt: "t * 64 + q < 256" using t4 q by simp
  have enc: "be_bytes n (t * 2 ^ (8 * n - 2) + v)
      = word_of_nat (t * 64 + q) # be_bytes m (t * 2 ^ (8 * n - 2) + v)"
    unfolding n using hi [unfolded n] lt by (simp only: be_bytes_Cons mod_less)
  have low: "be_val (be_bytes m (t * 2 ^ (8 * n - 2) + v)) = v mod 256 ^ m"
    by (simp only: be_val_be_bytes split) simp
  have val: "be_val (word_of_nat q # be_bytes m (t * 2 ^ (8 * n - 2) + v)) = v"
    using q by (simp add: be_val_Cons low q_def div_mult_mod_eq)
  have "varint_decode ((word_of_nat (t * 64 + q) # be_bytes m (t * 2 ^ (8 * n - 2) + v)) @ rest)
      = Ok (word_of_nat v, rest)"
  proof (cases "m = 0")
    case True
    then have "t = 0" "v = q" using n pow q_def by (auto simp: t_def tag_of_def)
    with True q show ?thesis
      using first_byte_split [of 0 q]
      by (simp add: varint_decode_def Let_def word_eq_iff_unat unat_ucast_small)
  next
    case False
    with m t4 n have "(m = 1 \<and> t = 1) \<or> (m = 3 \<and> t = 2) \<or> (m = 7 \<and> t = 3)"
      by (auto simp: t_def tag_of_def)
    with first_byte_split [OF t4 q] val show ?thesis
      by (auto simp: varint_decode_def Let_def)
  qed
  then show ?thesis
    by (simp add: enc flip: t_def)
qed

lemma varint_encode_OkD: "varint_encode x = Ok bs \<Longrightarrow> varint_ok x"
  by (auto simp: varint_ok_def varint_encode_def word_less_nat_alt split: if_splits)

lemma varint_decode_encode:
  assumes "varint_encode x = Ok bs"
  shows "varint_decode (bs @ rest) = Ok (x, rest)"
proof -
  have "varint_ok x"
    using assms by (rule varint_encode_OkD)
  then obtain n where n: "varint_size x = Ok n"
    using varint_size_total by blast
  show ?thesis
    using varint_encode_arith [OF n] assms varint_decode_tagged [of n "unat x" rest]
      varint_size_bounds [OF n]
    by simp
qed

lemma varint_encode_Ok: "varint_ok x \<Longrightarrow> \<exists>bs n. varint_encode x = Ok bs \<and> varint_size x = Ok n \<and> length bs = n"
  using varint_size_total varint_encode_arith by fastforce

lemma varint_encode_not_Err [simp]: "varint_encode x \<noteq> Err e"
  by (simp add: varint_encode_def)

text \<open>The bytes of a valid value, for use in specifications.\<close>

definition varint_bytes :: "u64 \<Rightarrow> bytes" where
  "varint_bytes x = (case varint_encode x of Ok bs \<Rightarrow> bs | _ \<Rightarrow> [])"

lemma varint_encode_bytes: "varint_ok x \<Longrightarrow> varint_encode x = Ok (varint_bytes x)"
  by (simp add: varint_ok_def varint_bytes_def varint_encode_def)

interpretation varint: progress_codec varint_bytes varint_decode varint_ok
proof
  fix x :: u64 and rest
  assume ok: "varint_ok x"
  show "varint_decode (varint_bytes x @ rest) = Ok (x, rest)"
    using varint_decode_encode [OF varint_encode_bytes [OF ok]] .
  have "varint_encode x = Ok (varint_bytes x)"
    using ok by (rule varint_encode_bytes)
  then show "varint_bytes x \<noteq> []"
    using varint_decode_encode [of x "varint_bytes x" "[]"] by (auto simp: varint_decode_def)
qed

section \<open>What a decoder accepts\<close>

lemma tag_cases:
  obtains "drop_bit 6 (b :: u8) = 0" | "drop_bit 6 b = 1" | "drop_bit 6 b = 2" | "drop_bit 6 b = 3"
proof -
  have "unat (drop_bit 6 b) < 4"
    unfolding unat_drop_bit_div using unat_u8_bound [of b] by simp
  then have "unat (drop_bit 6 b) \<in> {0, 1, 2, 3}" by auto
  with that show ?thesis by (auto simp: word_eq_iff_unat)
qed

lemma low_bits_bound: "unat (b AND 0x3F :: u8) < 64"
proof -
  have "(0x3F :: u8) = mask 6" by (simp add: mask_eq_exp_minus_1)
  then show ?thesis by (simp only: unat_and_mask) simp
qed

lemma be_val_first_bound:
  assumes "length bs = m"
  shows "be_val ((b AND 0x3F) # bs) < 2 ^ (8 * m + 6)"
proof -
  have "be_val ((b AND 0x3F) # bs) < 64 * 256 ^ m"
    using mult_add_less [OF low_bits_bound [of b] be_val_bound [of bs]] assms by (simp add: be_val_Cons)
  also have "64 * (256 :: nat) ^ m = 2 ^ (8 * m + 6)"
    by (simp add: power_mult power_add)
  finally show ?thesis .
qed

lemma varint_decode_total:
  "case r of
     [] \<Rightarrow> varint_decode r = Err (UnexpectedEnd 0)
   | b # r1 \<Rightarrow>
       if length r < varint_encoded_size b
       then varint_decode r = Err (UnexpectedEnd (unat (drop_bit 6 b)))
       else \<exists>x. x < 2 ^ 62 \<and> varint_decode r = Ok (x, drop (varint_encoded_size b) r)"
proof (cases r)
  case Nil
  then show ?thesis by (simp add: varint_decode_def)
next
  case (Cons b r1)
  have u: "word_of_nat v < (2 ^ 62 :: u64)" if "v < 2 ^ 62" for v
    using that by (simp add: word_less_nat_alt)
  have v: "be_val ((b AND 0x3F) # take m r1) < 2 ^ 62" if "m \<le> length r1" "m \<le> 7" for m
  proof -
    have "be_val ((b AND 0x3F) # take m r1) < 2 ^ (8 * m + 6)"
      using that(1) by (intro be_val_first_bound) simp
    also have "\<dots> \<le> (2 :: nat) ^ 62"
      using that(2) by (intro power_increasing) simp_all
    finally show ?thesis .
  qed
  have uv: "word_of_nat (be_val ((b AND 0x3F) # take m r1)) < (2 ^ 62 :: u64)"
    if "m \<le> length r1" "m \<le> 7" for m
    using u [OF v [OF that]] .
  have w: "ucast (b AND 0x3F) < (2 ^ 62 :: u64)"
    using low_bits_bound [of b] by (simp add: word_less_nat_alt unat_ucast_small)
  show ?thesis
    by (cases b rule: tag_cases)
      (use Cons w uv [of 1] uv [of 3] uv [of 7] in
        \<open>auto simp: varint_decode_def varint_encoded_size_def Let_def Suc_le_eq\<close>)
qed

text \<open>
  C35: decoding is total and exact. On an empty buffer it fails with \<open>UnexpectedEnd(0)\<close>,
  on a buffer shorter than \<open>encoded_size\<close> of its first byte with the tag as the hint, and
  on every other buffer it returns a value below \<open>2 ^ 62\<close> and has consumed exactly
  \<open>encoded_size\<close> bytes; it never panics.
\<close>

theorem varint_decode_spec:
  "case r of
     [] \<Rightarrow> varint_decode r = Err (UnexpectedEnd 0)
   | b # r1 \<Rightarrow>
       if length r < varint_encoded_size b
       then varint_decode r = Err (UnexpectedEnd (unat (drop_bit 6 b)))
       else \<exists>x. x < 2 ^ 62 \<and> varint_decode r = Ok (x, drop (varint_encoded_size b) r)"
  by (rule varint_decode_total)

text \<open>
  C34: round trip. Every value below \<open>2 ^ 62\<close> encodes without panic, into as many bytes as
  \<open>size\<close> says, and decoding these bytes in front of any others returns the value and
  leaves the others; every other value makes the encoder panic.
\<close>

theorem varint_roundtrip:
  "if x < 2 ^ 62
   then \<exists>bs. varint_encode x = Ok bs \<and> varint_size x = Ok (length bs)
          \<and> (\<forall>rest. varint_decode (bs @ rest) = Ok (x, rest))
   else varint_encode x = Panic \<and> varint_size x = Panic"
proof (cases "x < 2 ^ 62")
  case True
  then obtain bs where "varint_encode x = Ok bs" "varint_size x = Ok (length bs)"
    using varint_encode_Ok [of x] by (auto simp: varint_ok_def)
  with True show ?thesis by (auto simp: varint_decode_encode)
next
  case False
  then show ?thesis
    by (auto simp: varint_encode_def varint_size_def word_less_nat_alt)
qed

lemma varint_decode_OkD:
  assumes "varint_decode r = Ok (x, rest)"
  obtains b r1 where "r = b # r1" and "varint_encoded_size b \<le> length r"
    and "rest = drop (varint_encoded_size b) r" and "varint_ok x"
  using assms varint_decode_total [of r] that unfolding varint_ok_def by (cases r) (auto split: if_splits)

lemma varint_decode_value_bound:
  assumes "varint_decode (b # r1) = Ok (x, rest)"
  shows "unat x < 2 ^ (8 * varint_encoded_size b - 2)"
proof -
  have w: "unat (word_of_nat (be_val ((b AND 0x3F) # take m r1)) :: u64) < 2 ^ (8 * m + 6)"
    if "m \<le> length r1" "m \<le> 7" for m
  proof -
    have "be_val ((b AND 0x3F) # take m r1) < 2 ^ (8 * m + 6)"
      using that(1) by (intro be_val_first_bound) simp
    then show ?thesis
      by (rule le_less_trans [OF unat_of_nat_le])
  qed
  have z: "unat (ucast (b AND 0x3F) :: u64) < 2 ^ 6"
    using low_bits_bound [of b] by (simp add: unat_ucast_small)
  show ?thesis
    by (cases b rule: tag_cases)
      (use assms z w [of 1] w [of 3] w [of 7] in
        \<open>auto simp: varint_decode_def varint_encoded_size_def Let_def Suc_le_eq split: if_splits\<close>)
qed

text \<open>
  The encoder is minimal. Whatever bytes decode to \<open>x\<close> and nothing else, the bytes the
  encoder writes for \<open>x\<close> are no longer.
\<close>

theorem varint_encode_minimal:
  assumes "varint_decode bs = Ok (x, [])" and "varint_encode x = Ok cs"
  shows "length cs \<le> length bs"
proof -
  obtain b r1 where bs: "bs = b # r1" and len: "length bs \<le> varint_encoded_size b"
    using assms(1) by (elim varint_decode_OkD) auto
  have x: "unat x < 2 ^ (8 * varint_encoded_size b - 2)" and "varint_encoded_size b \<le> length bs"
    using assms(1) bs by (auto simp: varint_decode_value_bound elim: varint_decode_OkD)
  with len have lb: "varint_encoded_size b = length bs" by simp
  obtain n where n: "varint_size x = Ok n" "length cs = n"
    using assms(2) varint_encode_Ok [OF varint_encode_OkD [OF assms(2)]] by auto
  show ?thesis
    by (cases b rule: tag_cases)
      (use x n lb in \<open>auto simp: varint_size_def varint_encoded_size_def word_less_nat_alt
        split: if_splits\<close>)
qed

theorem varint_encode_minimal_witness:
  "varint_decode [0x40, 0x05] = Ok (5, []) \<and> varint_encode 5 = Ok [0x05]
   \<and> length [0x05 :: u8] \<le> length [0x40, 0x05 :: u8]"
proof -
  have d: "varint_decode [0x40, 0x05] = Ok (5, [])"
    by (simp add: varint_decode_def be_val_def)
  have e: "varint_encode 5 = Ok [0x05]"
    by (simp add: varint_encode_def)
  show ?thesis using d e varint_encode_minimal [OF d e] by simp
qed

section \<open>Reading from a buffer that grows\<close>

lemma varint_decode_append:
  "varint_decode r = Ok (x, rest) \<Longrightarrow> varint_decode (r @ later) = Ok (x, rest @ later)"
  by (cases r; cases "tl r") (auto simp: varint_decode_def Let_def split: if_splits)

lemma get_var_append: "get_var r = Ok (x, rest) \<Longrightarrow> get_var (r @ later) = Ok (x, rest @ later)"
  by (simp add: get_var_def varint_decode_append)

lemma varint_decode_no_Panic [simp]: "varint_decode r \<noteq> Panic"
  using varint_decode_total [of r] by (cases r) (auto split: if_splits)

lemma get_var_no_Panic [simp]: "get_var r \<noteq> Panic"
  by (simp add: get_var_def)

lemma get_var_ok: "get_var r = Ok (x, rest) \<Longrightarrow> varint_ok x"
  by (auto simp: get_var_def elim: varint_decode_OkD)

lemma get_var_hint: "varint_decode r = Err (UnexpectedEnd n) \<Longrightarrow> varint_decode (r @ later) = Ok y \<Longrightarrow> n \<le> length (r @ later)"
  using varint_decode_total [of r] varint_decode_total [of "r @ later"]
  by (cases r; cases "hd r" rule: tag_cases)
    (auto simp: varint_encoded_size_def split: if_splits)

lemma get_var_shorter: "get_var buf = Ok (v, rest) \<Longrightarrow> length rest < length buf"
proof -
  assume "get_var buf = Ok (v, rest)"
  then obtain b r1 where "buf = b # r1" "rest = drop (varint_encoded_size b) buf"
    by (auto simp: get_var_def elim: varint_decode_OkD)
  moreover have "0 < varint_encoded_size b" by (simp add: varint_encoded_size_def)
  ultimately show "length rest < length buf" by auto
qed

end
