(* ===== verification/Ids.thy ===== *)
theory Ids
  imports Varint
begin

text \<open>
  Stream types and stream identifiers of \<open>h3/src/proto/stream.rs\<close>, push identifiers of
  \<open>h3/src/proto/push.rs\<close> and WebTransport session identifiers of
  \<open>h3/src/webtransport/session_id.rs\<close>. The lemmas show that a stream identifier is exactly
  its index, direction and initiator, that the addition saturates inside the range of a
  variable-length integer, and what the conversion from a stream to a session identifier
  really computes. The random grease identifiers take the random number as an argument.
\<close>

section \<open>Stream types\<close>

datatype stream_type = StreamType u64

definition CONTROL :: stream_type where "CONTROL = StreamType 0x00"
definition PUSH :: stream_type where "PUSH = StreamType 0x01"
definition ENCODER :: stream_type where "ENCODER = StreamType 0x02"
definition DECODER :: stream_type where "DECODER = StreamType 0x03"
definition WEBTRANSPORT_BIDI :: stream_type where "WEBTRANSPORT_BIDI = StreamType 0x41"
definition WEBTRANSPORT_UNI :: stream_type where "WEBTRANSPORT_UNI = StreamType 0x54"

lemmas stream_type_defs =
  CONTROL_def PUSH_def ENCODER_def DECODER_def WEBTRANSPORT_BIDI_def WEBTRANSPORT_UNI_def

fun stream_type_value :: "stream_type \<Rightarrow> u64" where
  "stream_type_value (StreamType v) = v"

text \<open>\<open>fastrand::u64(0..0x210842108421083)\<close> is the argument \<open>r\<close>.\<close>

definition grease_bound :: u64 where
  "grease_bound = 0x210842108421083"

definition grease_value :: "u64 \<Rightarrow> u64" where
  "grease_value r = r * 0x1f + 0x21"

definition stream_type_grease :: "u64 \<Rightarrow> stream_type" where
  "stream_type_grease r = StreamType (grease_value r)"

definition stream_type_decode :: "bytes \<Rightarrow> (unexpected_end, stream_type \<times> bytes) result" where
  "stream_type_decode buf = and_then (get_var buf) (\<lambda>(v, rest). Ok (StreamType v, rest))"

definition stream_type_encode :: "stream_type \<Rightarrow> bytes may_panic" where
  "stream_type_encode ty = write_var (stream_type_value ty)"

section \<open>Stream identifiers\<close>

datatype stream_id = StreamId u64

datatype side = Client | Server

datatype dir = Bi | Uni

fun side_as_u64 :: "side \<Rightarrow> u64" where
  "side_as_u64 Client = 0"
| "side_as_u64 Server = 1"

fun dir_as_u64 :: "dir \<Rightarrow> u64" where
  "dir_as_u64 Bi = 0"
| "dir_as_u64 Uni = 1"

definition stream_id_new :: "u64 \<Rightarrow> dir \<Rightarrow> side \<Rightarrow> stream_id" where
  "stream_id_new index d s =
     StreamId (push_bit 2 index OR push_bit 1 (dir_as_u64 d) OR side_as_u64 s)"

fun stream_id_initiator :: "stream_id \<Rightarrow> side" where
  "stream_id_initiator (StreamId v) = (if v AND 0x1 = 0 then Client else Server)"

fun stream_id_dir :: "stream_id \<Rightarrow> dir" where
  "stream_id_dir (StreamId v) = (if v AND 0x2 = 0 then Bi else Uni)"

fun stream_id_index :: "stream_id \<Rightarrow> u64" where
  "stream_id_index (StreamId v) = drop_bit 2 v"

fun stream_id_into_inner :: "stream_id \<Rightarrow> u64" where
  "stream_id_into_inner (StreamId v) = v"

definition is_request :: "stream_id \<Rightarrow> bool" where
  "is_request i \<longleftrightarrow> stream_id_dir i = Bi \<and> stream_id_initiator i = Client"

definition is_push :: "stream_id \<Rightarrow> bool" where
  "is_push i \<longleftrightarrow> stream_id_dir i = Uni \<and> stream_id_initiator i = Server"

definition FIRST_REQUEST :: stream_id where
  "FIRST_REQUEST = stream_id_new 0 Bi Client"

datatype invalid_stream_id = InvalidStreamId u64

definition stream_id_try_from :: "u64 \<Rightarrow> (invalid_stream_id, stream_id) result" where
  "stream_id_try_from v = (if v > varint_max then Err (InvalidStreamId v) else Ok (StreamId v))"

definition stream_id_encode :: "stream_id \<Rightarrow> bytes may_panic" where
  "stream_id_encode i = write_var (stream_id_into_inner i)"

definition u64_saturating_add :: "u64 \<Rightarrow> u64 \<Rightarrow> u64" where
  "u64_saturating_add a b = (if unat a + unat b < 2 ^ 64 then a + b else - 1)"

definition stream_id_add :: "stream_id \<Rightarrow> u64 \<Rightarrow> stream_id" where
  "stream_id_add i rhs =
     (let index = min (u64_saturating_add (stream_id_index i) rhs) (drop_bit 2 varint_max)
      in stream_id_new index (stream_id_dir i) (stream_id_initiator i))"

section \<open>Push identifiers\<close>

datatype push_id = PushId u64

datatype invalid_push_id = InvalidPushId u64

definition push_id_try_from :: "u64 \<Rightarrow> (invalid_push_id, push_id) result" where
  "push_id_try_from v =
     (case varint_from_u64 v of
        Ok x \<Rightarrow> Ok (PushId x)
      | Err _ \<Rightarrow> Err (InvalidPushId v)
      | Panic \<Rightarrow> Panic)"

fun push_id_into_varint :: "push_id \<Rightarrow> u64" where
  "push_id_into_varint (PushId v) = v"

section \<open>Session identifiers\<close>

datatype session_id = SessionId u64

definition session_id_from_varint :: "u64 \<Rightarrow> session_id" where
  "session_id_from_varint x = SessionId x"

fun session_id_into_inner :: "session_id \<Rightarrow> u64" where
  "session_id_into_inner (SessionId v) = v"

definition session_id_try_from :: "u64 \<Rightarrow> (invalid_stream_id, session_id) result" where
  "session_id_try_from v = (if v > varint_max then Err (InvalidStreamId v) else Ok (SessionId v))"

definition session_id_encode :: "session_id \<Rightarrow> bytes may_panic" where
  "session_id_encode i = write_var (session_id_into_inner i)"

definition session_id_decode :: "bytes \<Rightarrow> (unexpected_end, session_id \<times> bytes) result" where
  "session_id_decode buf = and_then (varint_decode buf) (\<lambda>(v, rest). Ok (SessionId v, rest))"

definition session_id_from_stream_id :: "stream_id \<Rightarrow> session_id" where
  "session_id_from_stream_id i = SessionId (stream_id_index i)"

definition stream_id_from_session_id :: "session_id \<Rightarrow> stream_id" where
  "stream_id_from_session_id i = StreamId (session_id_into_inner i)"

section \<open>Lemmas\<close>

lemma side_as_u64_of_bool: "side_as_u64 s = of_bool (s = Server)"
  by (cases s) simp_all

lemma dir_as_u64_of_bool: "dir_as_u64 d = of_bool (d = Uni)"
  by (cases d) simp_all

lemma stream_id_bits:
  "bit (stream_id_into_inner (stream_id_new i d s)) n \<longleftrightarrow>
     (if n = 0 then s = Server else if n = 1 then d = Uni else n < 64 \<and> bit i (n - 2))"
  unfolding stream_id_new_def side_as_u64_of_bool dir_as_u64_of_bool
    stream_id_into_inner.simps bit_or_iff bit_push_bit_iff bit_of_bool_iff
  by auto

lemma and_1_eq_0_iff: "v AND 1 = (0 :: u64) \<longleftrightarrow> \<not> bit v 0"
  using and_exp_eq_0_iff_not_bit [of v 0] by simp

lemma and_2_eq_0_iff: "v AND 2 = (0 :: u64) \<longleftrightarrow> \<not> bit v 1"
  using and_exp_eq_0_iff_not_bit [of v 1] by simp

lemma stream_id_new_fields:
  "stream_id_initiator (stream_id_new i d s) = s"
  "stream_id_dir (stream_id_new i d s) = d"
  "stream_id_index (stream_id_new i d s) = take_bit 62 i"
proof -
  obtain v where v: "stream_id_new i d s = StreamId v" by (cases "stream_id_new i d s")
  have b: "bit v n \<longleftrightarrow> (if n = 0 then s = Server else if n = 1 then d = Uni else n < 64 \<and> bit i (n - 2))" for n
    using stream_id_bits [of i d s n] v by simp
  show "stream_id_initiator (stream_id_new i d s) = s"
    unfolding v using b [of 0] by (cases s) (simp_all add: and_1_eq_0_iff)
  show "stream_id_dir (stream_id_new i d s) = d"
    unfolding v using b [of 1] by (cases d) (simp_all add: and_2_eq_0_iff)
  have "drop_bit 2 v = take_bit 62 i"
    by (intro bit_eqI) (auto simp: bit_simps b)
  then show "stream_id_index (stream_id_new i d s) = take_bit 62 i"
    by (simp add: v)
qed

lemma stream_id_new_eta:
  "stream_id_new (stream_id_index i) (stream_id_dir i) (stream_id_initiator i) = i"
proof (cases i)
  case (StreamId v)
  define w where "w = stream_id_into_inner (stream_id_new (stream_id_index i) (stream_id_dir i) (stream_id_initiator i))"
  have "bit w n \<longleftrightarrow> bit v n" if "n < 64" for n
  proof -
    consider "n = 0" | "n = 1" | k where "n = k + 2"
      using le_Suc_ex [of 2 n] by (metis One_nat_def add.commute less_2_cases not_less)
    then show ?thesis
      unfolding w_def stream_id_bits using that StreamId
      by cases (auto simp: and_1_eq_0_iff and_2_eq_0_iff bit_drop_bit_eq split: if_splits)
  qed
  then have "w = v" by (intro bit_word_eqI) simp
  then show ?thesis
    by (cases "stream_id_new (stream_id_index i) (stream_id_dir i) (stream_id_initiator i)")
      (simp add: w_def StreamId)
qed

lemma low_two_bits: "unat (v :: u64) mod 4 = of_bool (bit v 0) + 2 * of_bool (bit v 1)"
proof -
  have "(n :: nat) mod 4 = of_bool (odd n) + 2 * of_bool (odd (n div 2))" for n
    unfolding of_bool_def by presburger
  moreover have "bit v n \<longleftrightarrow> odd (unat v div 2 ^ n)" for n
  proof -
    have "bit v n = bit (unat v) n" by (simp add: bit_unsigned_iff)
    then show ?thesis by (simp add: bit_iff_odd)
  qed
  ultimately show ?thesis by simp
qed

lemma stream_id_class:
  "is_request (StreamId v) \<longleftrightarrow> unat v mod 4 = 0"
  "is_push (StreamId v) \<longleftrightarrow> unat v mod 4 = 3"
  unfolding is_request_def is_push_def low_two_bits
  by (auto simp: and_1_eq_0_iff and_2_eq_0_iff split: if_splits)

lemma unat_all_ones: "unat (- 1 :: u64) = 2 ^ 64 - 1"
  by (simp add: unsigned_minus_1_eq_mask mask_eq_exp_minus_1)

lemma stream_id_new_bound:
  assumes "unat i < 2 ^ 60"
  shows "stream_id_into_inner (stream_id_new i d s) \<le> varint_max"
proof -
  define v where "v = stream_id_into_inner (stream_id_new i d s)"
  have "take_bit 60 i = i"
    using assms by (simp add: word_eq_iff_unat unsigned_take_bit_eq take_bit_nat_eq_self)
  then have i: "bit i n \<Longrightarrow> n < 60" for n
    by (metis bit_take_bit_iff)
  have "bit v n \<Longrightarrow> n < 62" for n
    using i [of "n - 2"] by (auto simp: v_def stream_id_bits split: if_splits)
  then have "take_bit 62 v = v"
    by (intro bit_eqI) (auto simp: bit_take_bit_iff)
  then have "unat v = take_bit 62 (unat v)"
    by (metis unsigned_take_bit_eq)
  then have "unat v < 2 ^ 62"
    by (metis take_bit_nat_less_exp)
  then show ?thesis by (simp add: varint_max_iff varint_ok_iff flip: v_def)
qed

text \<open>
  A stream identifier is exactly its index, direction and initiator: building one from
  these parts and taking them apart are inverse to each other, the client's bidirectional
  (request) streams are those divisible by four, and the push streams those with remainder
  three.
\<close>

theorem stream_id_components:
  "stream_id_new (stream_id_index i) (stream_id_dir i) (stream_id_initiator i) = i
   \<and> (is_request i \<longleftrightarrow> unat (stream_id_into_inner i) mod 4 = 0)
   \<and> (is_push i \<longleftrightarrow> unat (stream_id_into_inner i) mod 4 = 3)
   \<and> stream_id_index (stream_id_new n d s) = take_bit 62 n
   \<and> stream_id_dir (stream_id_new n d s) = d
   \<and> stream_id_initiator (stream_id_new n d s) = s"
  by (cases i) (simp only: stream_id_new_eta stream_id_class stream_id_new_fields
      stream_id_into_inner.simps simp_thms)

text \<open>
  Adding to a stream identifier keeps direction and initiator, never leaves the range of
  a variable-length integer, and saturates the index at \<open>2 ^ 60 - 1\<close>.
\<close>

theorem stream_id_add_saturates:
  "unat (stream_id_index (stream_id_add i rhs))
     = min (unat (stream_id_index i) + unat rhs) (2 ^ 60 - 1)
   \<and> stream_id_dir (stream_id_add i rhs) = stream_id_dir i
   \<and> stream_id_initiator (stream_id_add i rhs) = stream_id_initiator i
   \<and> stream_id_into_inner (stream_id_add i rhs) \<le> varint_max"
proof -
  define m where "m = min (u64_saturating_add (stream_id_index i) rhs) (drop_bit 2 varint_max)"
  have cap: "unat (drop_bit 2 varint_max) = 2 ^ 60 - 1"
    by (simp add: unat_drop_bit_div varint_max_def)
  have sat: "unat (u64_saturating_add a b) = min (unat a + unat b) (2 ^ 64 - 1)" for a b
    by (auto simp: u64_saturating_add_def unat_word_ariths unat_all_ones min_def)
  have m: "unat m = min (unat (stream_id_index i) + unat rhs) (2 ^ 60 - 1)"
  proof -
    have "unat (min a b) = min (unat a) (unat b)" for a b :: u64
      by (auto simp: min_def word_le_nat_alt)
    then have "unat m = min (min (unat (stream_id_index i) + unat rhs) (2 ^ 64 - 1)) (2 ^ 60 - 1)"
      unfolding m_def by (simp only: sat cap)
    then show ?thesis by (simp add: min.assoc)
  qed
  then have m60: "unat m < 2 ^ 60" by auto
  then have "take_bit 62 m = m"
    by (simp add: word_eq_iff_unat unsigned_take_bit_eq take_bit_nat_eq_self)
  then show ?thesis
    using stream_id_new_bound [OF m60] stream_id_new_fields m
    by (simp add: stream_id_add_def Let_def flip: m_def)
qed

text \<open>
  The conversion of a stream identifier to a WebTransport session identifier keeps the
  stream's index, not the identifier: converting back gives the stream one started from for
  stream 0 only.
\<close>

theorem session_id_of_stream_id_roundtrip_iff:
  "stream_id_from_session_id (session_id_from_stream_id i) = i \<longleftrightarrow> stream_id_into_inner i = 0"
proof (cases i)
  case (StreamId v)
  have "drop_bit 2 v = v \<longleftrightarrow> v = 0"
    by (auto simp: word_eq_iff_unat unat_drop_bit_div)
  then show ?thesis
    by (simp add: StreamId stream_id_from_session_id_def session_id_from_stream_id_def)
qed

end
