(* ===== verification/Frames.thy ===== *)
theory Frames
  imports Ids
begin

text \<open>
  The HTTP/3 frames of \<open>h3/src/proto/frame.rs\<close>: frame types, settings, the decoder of one
  frame and the encoder. The payload of a frame being sent is a byte string, that of a
  received DATA frame only its length, as in the source. \<open>Frame::decode\<close> is given with the
  buffer it leaves: the caller advances its own buffer by what was consumed after a frame
  and after an unknown frame; what the other errors leave behind is never looked at, and the
  model returns the buffer before the read that failed.
\<close>

section \<open>Frame types and errors\<close>

type_synonym frame_type = u64

definition DATA :: frame_type where "DATA = 0x0"
definition HEADERS :: frame_type where "HEADERS = 0x1"
definition H2_PRIORITY :: frame_type where "H2_PRIORITY = 0x2"
definition CANCEL_PUSH :: frame_type where "CANCEL_PUSH = 0x3"
definition SETTINGS :: frame_type where "SETTINGS = 0x4"
definition PUSH_PROMISE :: frame_type where "PUSH_PROMISE = 0x5"
definition H2_PING :: frame_type where "H2_PING = 0x6"
definition GOAWAY :: frame_type where "GOAWAY = 0x7"
definition H2_WINDOW_UPDATE :: frame_type where "H2_WINDOW_UPDATE = 0x8"
definition H2_CONTINUATION :: frame_type where "H2_CONTINUATION = 0x9"
definition MAX_PUSH_ID :: frame_type where "MAX_PUSH_ID = 0xD"
definition WEBTRANSPORT_BI_STREAM :: frame_type where "WEBTRANSPORT_BI_STREAM = 0x41"

lemmas frame_type_defs = DATA_def HEADERS_def H2_PRIORITY_def CANCEL_PUSH_def SETTINGS_def
  PUSH_PROMISE_def H2_PING_def GOAWAY_def H2_WINDOW_UPDATE_def H2_CONTINUATION_def
  MAX_PUSH_ID_def WEBTRANSPORT_BI_STREAM_def

definition frame_type_decode :: "bytes \<Rightarrow> (unexpected_end, frame_type \<times> bytes) result" where
  "frame_type_decode buf = get_var buf"

definition frame_type_encode :: "frame_type \<Rightarrow> bytes may_panic" where
  "frame_type_encode ty = write_var ty"

definition frame_type_grease :: "u64 \<Rightarrow> frame_type" where
  "frame_type_grease r = grease_value r"

datatype setting_id = SettingId u64

fun setting_id_value :: "setting_id \<Rightarrow> u64" where
  "setting_id_value (SettingId v) = v"

datatype settings_error =
    SExceeded
  | SMalformed
  | SRepeated setting_id
  | SInvalidSettingId u64
  | SInvalidSettingValue setting_id u64

datatype frame_error =
    FMalformed
  | FUnsupportedFrame u64
  | FUnknownFrame u64
  | FInvalidFrameValue
  | FIncomplete nat
  | FSettings settings_error
  | FInvalidStreamId invalid_stream_id
  | FInvalidPushId invalid_push_id

text \<open>The conversions behind \<open>?\<close>.\<close>

fun frame_error_from_unexpected_end :: "unexpected_end \<Rightarrow> frame_error" where
  "frame_error_from_unexpected_end (UnexpectedEnd n) = FIncomplete n"

section \<open>Settings\<close>

definition NONE :: setting_id where "NONE = SettingId 0"
definition QPACK_MAX_TABLE_CAPACITY :: setting_id where "QPACK_MAX_TABLE_CAPACITY = SettingId 0x1"
definition QPACK_MAX_BLOCKED_STREAMS :: setting_id where "QPACK_MAX_BLOCKED_STREAMS = SettingId 0x7"
definition MAX_HEADER_LIST_SIZE :: setting_id where "MAX_HEADER_LIST_SIZE = SettingId 0x6"
definition ENABLE_CONNECT_PROTOCOL :: setting_id where "ENABLE_CONNECT_PROTOCOL = SettingId 0x8"
definition H3_DATAGRAM :: setting_id where "H3_DATAGRAM = SettingId 0x33"
definition ENABLE_WEBTRANSPORT :: setting_id where "ENABLE_WEBTRANSPORT = SettingId 0x2B603742"
definition H3_SETTING_ENABLE_DATAGRAM_CHROME_SPECIFIC :: setting_id where
  "H3_SETTING_ENABLE_DATAGRAM_CHROME_SPECIFIC = SettingId 0xFFD277"
definition WEBTRANSPORT_MAX_SESSIONS :: setting_id where "WEBTRANSPORT_MAX_SESSIONS = SettingId 0x2b603743"

lemmas setting_id_defs = NONE_def QPACK_MAX_TABLE_CAPACITY_def QPACK_MAX_BLOCKED_STREAMS_def
  MAX_HEADER_LIST_SIZE_def ENABLE_CONNECT_PROTOCOL_def H3_DATAGRAM_def ENABLE_WEBTRANSPORT_def
  H3_SETTING_ENABLE_DATAGRAM_CHROME_SPECIFIC_def WEBTRANSPORT_MAX_SESSIONS_def

definition is_supported :: "setting_id \<Rightarrow> bool" where
  "is_supported i \<longleftrightarrow> i \<in> {MAX_HEADER_LIST_SIZE, QPACK_MAX_TABLE_CAPACITY,
     QPACK_MAX_BLOCKED_STREAMS, ENABLE_CONNECT_PROTOCOL, ENABLE_WEBTRANSPORT,
     WEBTRANSPORT_MAX_SESSIONS, H3_DATAGRAM}"

definition is_forbidden :: "setting_id \<Rightarrow> bool" where
  "is_forbidden i \<longleftrightarrow> i \<in> {SettingId 0x00, SettingId 0x02, SettingId 0x03, SettingId 0x04, SettingId 0x05}"

definition setting_id_grease :: "u64 \<Rightarrow> setting_id" where
  "setting_id_grease r = SettingId (grease_value r)"

definition setting_id_decode :: "bytes \<Rightarrow> (unexpected_end, setting_id \<times> bytes) result" where
  "setting_id_decode buf = and_then (get_var buf) (\<lambda>(v, rest). Ok (SettingId v, rest))"

definition setting_id_encode :: "setting_id \<Rightarrow> bytes may_panic" where
  "setting_id_encode i = write_var (setting_id_value i)"

definition SETTINGS_LEN :: nat where
  "SETTINGS_LEN = 8"

text \<open>A fixed array of eight entries, of which the first \<open>len\<close> are in use.\<close>

record settings =
  entries :: "(setting_id \<times> u64) list"
  len :: nat

definition settings_default :: settings where
  "settings_default = \<lparr>entries = replicate SETTINGS_LEN (NONE, 0), len = 0\<rparr>"

definition used :: "settings \<Rightarrow> (setting_id \<times> u64) list" where
  "used s = take (len s) (entries s)"

definition settings_insert :: "settings \<Rightarrow> setting_id \<Rightarrow> u64 \<Rightarrow> (settings_error, settings) result" where
  "settings_insert s i value =
     (if len s \<ge> length (entries s) then Err SExceeded
      else if list_ex (\<lambda>(j, _). j = i) (used s) then Err (SRepeated i)
      else Ok (s\<lparr>entries := (entries s)[len s := (i, value)], len := len s + 1\<rparr>))"

text \<open>\<open>get\<close> walks over all eight entries of the array, used or not.\<close>

definition settings_get :: "settings \<Rightarrow> setting_id \<Rightarrow> u64 option" where
  "settings_get s i = map_of (entries s) i"

text \<open>Writes to a buffer one after the other; a panic in one stops them all.\<close>

fun emit :: "bytes may_panic list \<Rightarrow> bytes may_panic" where
  "emit [] = Ok []"
| "emit (w # ws) = and_then w (\<lambda>b. map_ok (\<lambda>bs. b @ bs) (emit ws))"

fun settings_len_loop :: "(setting_id \<times> u64) list \<Rightarrow> nat \<Rightarrow> nat may_panic" where
  "settings_len_loop [] n = Ok n"
| "settings_len_loop ((i, v) # es) n =
     (case varint_from_u64 (setting_id_value i) of
        Ok i' \<Rightarrow>
          (case varint_from_u64 v of
             Ok v' \<Rightarrow>
               and_then (varint_size i') (\<lambda>k. and_then (varint_size v') (\<lambda>l.
                 settings_len_loop es (n + k + l)))
           | _ \<Rightarrow> Panic)
      | _ \<Rightarrow> Panic)"

definition settings_len :: "settings \<Rightarrow> nat may_panic" where
  "settings_len s = settings_len_loop (used s) 0"

definition settings_encode_header :: "settings \<Rightarrow> bytes may_panic" where
  "settings_encode_header s =
     emit [frame_type_encode SETTINGS,
           and_then (settings_len s) (\<lambda>n. write_var (word_of_nat n))]"

definition settings_encode :: "settings \<Rightarrow> bytes may_panic" where
  "settings_encode s =
     emit (settings_encode_header s
           # concat (map (\<lambda>(i, v). [setting_id_encode i, write_var v]) (used s)))"

text \<open>
  The loop of \<open>Settings::decode\<close>: every round reads an identifier and a value, so the
  buffer shrinks. The length check is the code's; a read that fails is a malformed frame.
\<close>

function settings_decode_loop :: "settings \<Rightarrow> bytes \<Rightarrow> (settings_error, settings) result" where
  "settings_decode_loop s buf =
     (if buf = [] then Ok s
      else if length buf < 2 then Err SMalformed
      else
        (case setting_id_decode buf of
           Err _ \<Rightarrow> Err SMalformed
         | Panic \<Rightarrow> Panic
         | Ok (identifier, buf1) \<Rightarrow>
             (case get_var buf1 of
                Err _ \<Rightarrow> Err SMalformed
              | Panic \<Rightarrow> Panic
              | Ok (value, buf2) \<Rightarrow>
                  if is_forbidden identifier
                  then Err (SInvalidSettingId (setting_id_value identifier))
                  else if is_supported identifier then
                    (case settings_insert s identifier value of
                       Ok s' \<Rightarrow> settings_decode_loop s' buf2
                     | Err e \<Rightarrow> Err e
                     | Panic \<Rightarrow> Panic)
                  else settings_decode_loop s buf2)))"
  by pat_completeness auto

lemma setting_id_decode_shorter: "setting_id_decode buf = Ok (i, rest) \<Longrightarrow> length rest < length buf"
  by (auto simp: setting_id_decode_def res_simps dest: get_var_shorter)

lemma setting_id_decode_no_Panic [simp]: "setting_id_decode r \<noteq> Panic"
  by (auto simp: setting_id_decode_def res_simps)

termination settings_decode_loop
  by (relation "measure (\<lambda>(s, buf). length buf)")
    (auto dest!: get_var_shorter setting_id_decode_shorter)

declare settings_decode_loop.simps [simp del]

definition settings_decode :: "bytes \<Rightarrow> (settings_error, settings) result" where
  "settings_decode buf = settings_decode_loop settings_default buf"

section \<open>Frames\<close>

record push_promise =
  pp_id :: u64
  pp_encoded :: bytes

definition push_promise_len :: "push_promise \<Rightarrow> nat may_panic" where
  "push_promise_len p =
     (case varint_from_u64 (pp_id p) of
        Ok v \<Rightarrow> and_then (varint_size v) (\<lambda>n. Ok (n + length (pp_encoded p)))
      | _ \<Rightarrow> Panic)"

definition push_promise_encode_header :: "push_promise \<Rightarrow> bytes may_panic" where
  "push_promise_encode_header p =
     emit [frame_type_encode PUSH_PROMISE,
           and_then (push_promise_len p) (\<lambda>n. write_var (word_of_nat n)),
           write_var (pp_id p)]"

definition push_promise_encode :: "push_promise \<Rightarrow> bytes may_panic" where
  "push_promise_encode p = emit [push_promise_encode_header p, Ok (pp_encoded p)]"

definition push_promise_decode :: "bytes \<Rightarrow> (unexpected_end, push_promise \<times> bytes) result" where
  "push_promise_decode buf =
     and_then (get_var buf) (\<lambda>(v, rest). Ok (\<lparr>pp_id = v, pp_encoded = rest\<rparr>, []))"

datatype 'b frame =
    Data 'b
  | Headers bytes
  | CancelPush push_id
  | Settings settings
  | PushPromise push_promise
  | Goaway u64
  | MaxPushId push_id
  | WebTransportStream session_id
  | Grease

text \<open>\<open>payload.get_var()?.try_into()?\<close>.\<close>

definition decode_push_id :: "bytes \<Rightarrow> (frame_error, push_id \<times> bytes) result" where
  "decode_push_id payload =
     and_then (map_err frame_error_from_unexpected_end (get_var payload)) (\<lambda>(v, rest).
       and_then (map_err FInvalidPushId (push_id_try_from v)) (\<lambda>i. Ok (i, rest)))"

text \<open>
  The frames with a length: what is read from \<open>payload = buf.take(len)\<close> is taken from
  \<open>buf\<close>, what is not read of it stays there.
\<close>

definition leaving :: "bytes \<Rightarrow> (frame_error, 'a) result \<Rightarrow> (frame_error \<times> bytes, 'a) result" where
  "leaving buf = map_err (\<lambda>e. (e, buf))"

definition frame_decode_payload ::
    "frame_type \<Rightarrow> bytes \<Rightarrow> bytes \<Rightarrow> (frame_error \<times> bytes, nat frame \<times> bytes) result" where
  "frame_decode_payload ty payload after =
     (if ty = HEADERS then Ok (Headers payload, after)
      else if ty = SETTINGS then
        and_then (leaving (payload @ after) (map_err FSettings (settings_decode payload))) (\<lambda>s. Ok (Settings s, after))
      else if ty = CANCEL_PUSH then
        and_then (leaving (payload @ after) (decode_push_id payload)) (\<lambda>(i, rest). Ok (CancelPush i, rest @ after))
      else if ty = PUSH_PROMISE then
        and_then (leaving (payload @ after) (map_err frame_error_from_unexpected_end (push_promise_decode payload)))
          (\<lambda>(p, rest). Ok (PushPromise p, rest @ after))
      else if ty = GOAWAY then
        and_then (leaving (payload @ after) (map_err frame_error_from_unexpected_end (varint_decode payload)))
          (\<lambda>(v, rest). Ok (Goaway v, rest @ after))
      else if ty = MAX_PUSH_ID then
        and_then (leaving (payload @ after) (decode_push_id payload)) (\<lambda>(i, rest). Ok (MaxPushId i, rest @ after))
      else if ty = H2_PRIORITY \<or> ty = H2_PING \<or> ty = H2_WINDOW_UPDATE \<or> ty = H2_CONTINUATION then
        Err (FUnsupportedFrame ty, payload @ after)
      else if ty = WEBTRANSPORT_BI_STREAM \<or> ty = DATA then Panic
      else Err (FUnknownFrame ty, after))"

definition frame_decode :: "bytes \<Rightarrow> (frame_error \<times> bytes, nat frame \<times> bytes) result" where
  "frame_decode buf =
     (let remaining = length buf in
      case frame_type_decode buf of
        Err _ \<Rightarrow> Err (FIncomplete (remaining + 1), buf)
      | Panic \<Rightarrow> Panic
      | Ok (ty, buf1) \<Rightarrow>
          if ty = WEBTRANSPORT_BI_STREAM then
            and_then (leaving buf1 (map_err frame_error_from_unexpected_end (session_id_decode buf1)))
              (\<lambda>(i, buf2). Ok (WebTransportStream i, buf2))
          else
            (case get_var buf1 of
               Err _ \<Rightarrow> Err (FIncomplete (remaining + 1), buf1)
             | Panic \<Rightarrow> Panic
             | Ok (len64, buf2) \<Rightarrow>
                 let len = unat len64 in
                 if ty = DATA then Ok (Data len, buf2)
                 else if length buf2 < len then Err (FIncomplete (2 + len), buf2)
                 else frame_decode_payload ty (take len buf2) (drop len buf2)))"

definition simple_frame_encode :: "frame_type \<Rightarrow> u64 \<Rightarrow> bytes may_panic" where
  "simple_frame_encode ty i =
     emit [frame_type_encode ty,
           and_then (varint_size i) (\<lambda>n. write_var (word_of_nat n)),
           varint_encode i]"

text \<open>
  \<open>Frame::encode\<close> writes everything but the payload of DATA and HEADERS frames; \<open>r\<close> is the
  random number of a grease frame.
\<close>

definition frame_encode :: "u64 \<Rightarrow> bytes frame \<Rightarrow> bytes may_panic" where
  "frame_encode r f =
     (case f of
        Data b \<Rightarrow> emit [frame_type_encode DATA, write_var (word_of_nat (length b))]
      | Headers h \<Rightarrow> emit [frame_type_encode HEADERS, write_var (word_of_nat (length h))]
      | Settings s \<Rightarrow> settings_encode s
      | PushPromise p \<Rightarrow> push_promise_encode p
      | CancelPush i \<Rightarrow> simple_frame_encode CANCEL_PUSH (push_id_into_varint i)
      | Goaway i \<Rightarrow> simple_frame_encode GOAWAY i
      | MaxPushId i \<Rightarrow> simple_frame_encode MAX_PUSH_ID (push_id_into_varint i)
      | Grease \<Rightarrow>
          emit [frame_type_encode (frame_type_grease r), write_var 6,
                Ok (map of_char ''grease'')]
      | WebTransportStream i \<Rightarrow>
          emit [frame_type_encode WEBTRANSPORT_BI_STREAM, session_id_encode i])"

definition frame_payload :: "bytes frame \<Rightarrow> bytes option" where
  "frame_payload f =
     (case f of
        Data b \<Rightarrow> Some b
      | Headers h \<Rightarrow> Some h
      | PushPromise p \<Rightarrow> Some (pp_encoded p)
      | _ \<Rightarrow> None)"

section \<open>Settings: invariant\<close>

definition settings_inv :: "settings \<Rightarrow> bool" where
  "settings_inv s \<longleftrightarrow>
     length (entries s) = SETTINGS_LEN \<and> len s \<le> SETTINGS_LEN
     \<and> distinct (map fst (used s)) \<and> drop (len s) (entries s) = replicate (SETTINGS_LEN - len s) (NONE, 0)"

lemma settings_inv_default [simp]: "settings_inv settings_default"
  by (simp add: settings_inv_def settings_default_def used_def)

lemma used_default [simp]: "used settings_default = []"
  by (simp add: used_def settings_default_def)

lemma settings_insert_OkD:
  assumes "settings_inv s" and "settings_insert s i v = Ok s'"
  shows "settings_inv s'" and "used s' = used s @ [(i, v)]" and "i \<notin> fst ` set (used s)"
    and "len s' = len s + 1" and "len s < SETTINGS_LEN"
proof -
  have l: "len s < length (entries s)" and s': "s' = s\<lparr>entries := (entries s)[len s := (i, v)], len := len s + 1\<rparr>"
    and fresh: "i \<notin> fst ` set (used s)"
    using assms(2) by (auto simp: settings_insert_def list_ex_iff split: if_splits)
  show u: "used s' = used s @ [(i, v)]"
    using l by (simp add: s' used_def take_Suc_conv_app_nth)
  have "drop (Suc (len s)) (entries s) = replicate (SETTINGS_LEN - Suc (len s)) (NONE, 0)"
    using assms(1) drop_drop [of 1 "len s" "entries s"] by (simp add: settings_inv_def)
  then show "settings_inv s'"
    using assms(1) l u fresh by (auto simp: settings_inv_def s')
  show "i \<notin> fst ` set (used s)" by (rule fresh)
  show "len s' = len s + 1" by (simp add: s')
  show "len s < SETTINGS_LEN" using l assms(1) by (simp add: settings_inv_def)
qed

lemma settings_insert_fresh:
  assumes "settings_inv s" and "len s < SETTINGS_LEN" and "i \<notin> fst ` set (used s)"
  shows "\<exists>s'. settings_insert s i v = Ok s'"
  using assms by (force simp: settings_insert_def settings_inv_def list_ex_iff)

lemma settings_insert_not_Panic [simp]: "settings_insert s i v \<noteq> Panic"
  by (simp add: settings_insert_def)

lemma settings_get_used:
  assumes "settings_inv s" and "i \<noteq> NONE"
  shows "settings_get s i = map_of (used s) i"
proof -
  have "entries s = used s @ replicate (SETTINGS_LEN - len s) (NONE, 0)"
    using assms(1) append_take_drop_id [of "len s" "entries s"] by (simp add: settings_inv_def used_def)
  moreover have "map_of (replicate n (NONE, 0 :: u64)) i = None" for n
    using assms(2) by (induction n) auto
  ultimately show ?thesis
    by (simp add: settings_get_def map_add_def split: option.splits)
qed

lemma settings_inv_ext:
  assumes "settings_inv s" and "settings_inv t" and "used s = used t"
  shows "s = t"
proof -
  have l: "len s = len t"
    using assms by (metis length_take min.absorb2 settings_inv_def used_def)
  have "entries s = used s @ drop (len s) (entries s)" by (simp add: used_def)
  also have "\<dots> = entries t"
    using assms l by (metis append_take_drop_id settings_inv_def used_def)
  finally show ?thesis using l by simp
qed

section \<open>The wire form\<close>

lemma emit_Ok: "emit (map Ok bss) = Ok (concat bss)"
  by (induction bss) auto

lemma emit_append_Ok: "emit ws = Ok bs \<Longrightarrow> emit (Ok b # ws) = Ok (b @ bs)"
  by simp

lemma write_var_Ok: "varint_ok x \<Longrightarrow> write_var x = Ok (varint_bytes x)"
  by (simp add: write_var_eq varint_encode_bytes)

lemma varint_size_bytes: "varint_ok x \<Longrightarrow> varint_size x = Ok (length (varint_bytes x))"
  using varint_encode_Ok [of x] varint_encode_bytes [of x] by auto

lemma get_var_bytes [simp]: "varint_ok x \<Longrightarrow> get_var (varint_bytes x @ rest) = Ok (x, rest)"
  by (simp add: get_var_def varint.dec_enc)

lemma length_varint_bytes_pos: "varint_ok x \<Longrightarrow> 0 < length (varint_bytes x)"
  by (simp add: varint.enc_nonempty)

lemma length_varint_bytes_le: "length (varint_bytes x) \<le> 8"
proof (cases "varint_ok x")
  case True
  then show ?thesis using varint_size_bounds(1) [OF varint_size_bytes [OF True]] by auto
next
  case False
  then show ?thesis
    by (auto simp: varint_bytes_def varint_encode_def word_less_nat_alt)
qed

definition entry_ok :: "setting_id \<times> u64 \<Rightarrow> bool" where
  "entry_ok e \<longleftrightarrow> varint_ok (setting_id_value (fst e)) \<and> varint_ok (snd e)"

definition entry_bytes :: "setting_id \<times> u64 \<Rightarrow> bytes" where
  "entry_bytes e = varint_bytes (setting_id_value (fst e)) @ varint_bytes (snd e)"

definition entries_bytes :: "(setting_id \<times> u64) list \<Rightarrow> bytes" where
  "entries_bytes es = concat (map entry_bytes es)"

lemma entries_bytes_simps [simp]:
  "entries_bytes [] = []"
  "entries_bytes (e # es) = entry_bytes e @ entries_bytes es"
  by (simp_all add: entries_bytes_def)

lemma settings_len_loop_eq:
  "\<forall>e \<in> set es. entry_ok e \<Longrightarrow> settings_len_loop es n = Ok (n + length (entries_bytes es))"
proof (induction es arbitrary: n)
  case Nil
  then show ?case by simp
next
  case (Cons e es)
  then show ?case
    by (cases e) (simp add: entry_ok_def entry_bytes_def varint_size_bytes add.assoc)
qed

lemma emit_entries:
  "\<forall>e \<in> set es. entry_ok e \<Longrightarrow>
   emit (concat (map (\<lambda>(i, v). [setting_id_encode i, write_var v]) es)) = Ok (entries_bytes es)"
proof (induction es)
  case Nil
  then show ?case by simp
next
  case (Cons e es)
  then show ?case
    by (cases e) (simp add: entry_ok_def entry_bytes_def setting_id_encode_def write_var_Ok)
qed

lemma length_entries_bytes_le: "length (entries_bytes es) \<le> 16 * length es"
proof (induction es)
  case Nil
  then show ?case by simp
next
  case (Cons e es)
  then show ?case
    using length_varint_bytes_le [of "setting_id_value (fst e)"] length_varint_bytes_le [of "snd e"]
    by (simp add: entry_bytes_def)
qed

definition settings_ok :: "settings \<Rightarrow> bool" where
  "settings_ok s \<longleftrightarrow> settings_inv s \<and> (\<forall>e \<in> set (used s). entry_ok e)"

lemma length_used: "settings_inv s \<Longrightarrow> length (used s) = len s"
  by (simp add: settings_inv_def used_def)

lemma settings_encode_eq:
  assumes "settings_ok s"
  shows "settings_encode s = Ok (varint_bytes SETTINGS
    @ varint_bytes (word_of_nat (length (entries_bytes (used s)))) @ entries_bytes (used s))"
proof -
  have e: "\<forall>e \<in> set (used s). entry_ok e" and l: "length (used s) \<le> 8"
    using assms by (auto simp: settings_ok_def length_used) (simp add: settings_inv_def SETTINGS_LEN_def)
  have "length_ok (length (entries_bytes (used s)))"
    using length_entries_bytes_le [of "used s"] l by (simp add: length_ok_def)
  then have "write_var (word_of_nat (length (entries_bytes (used s))))
      = Ok (varint_bytes (word_of_nat (length (entries_bytes (used s)))))"
    by (intro write_var_Ok varint_ok_of_nat)
  then show ?thesis
    using e by (simp add: settings_encode_def settings_encode_header_def settings_len_def
      settings_len_loop_eq emit_entries frame_type_encode_def write_var_Ok varint_ok_of_nat
      SETTINGS_def varint_ok_iff)
qed

text \<open>Decoding a list of entries inserts the supported ones in order.\<close>

lemma not_forbidden_supported: "is_supported i \<Longrightarrow> \<not> is_forbidden i"
  by (auto simp: is_supported_def is_forbidden_def setting_id_defs)

text \<open>The entries of a payload, inserted one after the other without any bytes.\<close>

fun insert_all :: "settings \<Rightarrow> (setting_id \<times> u64) list \<Rightarrow> (settings_error, settings) result" where
  "insert_all s [] = Ok s"
| "insert_all s ((i, v) # es) =
     (if is_forbidden i then Err (SInvalidSettingId (setting_id_value i))
      else if is_supported i then and_then (settings_insert s i v) (\<lambda>s'. insert_all s' es)
      else insert_all s es)"

abbreviation supported_of :: "(setting_id \<times> u64) list \<Rightarrow> (setting_id \<times> u64) list" where
  "supported_of es \<equiv> filter (\<lambda>e. is_supported (fst e)) es"

lemma settings_decode_loop_entries:
  "\<forall>e \<in> set es. entry_ok e \<Longrightarrow> settings_decode_loop s (entries_bytes es) = insert_all s es"
proof (induction es arbitrary: s)
  case Nil
  then show ?case by (simp add: settings_decode_loop.simps [of s "[]"])
next
  case (Cons e es)
  obtain i v where e: "e = (i, v)" by (cases e)
  define buf where "buf = entry_bytes e @ entries_bytes es"
  have ok: "varint_ok (setting_id_value i)" "varint_ok v"
    using Cons.prems by (auto simp: e entry_ok_def)
  then have "2 \<le> length buf"
    using length_varint_bytes_pos [of v] length_varint_bytes_pos [of "setting_id_value i"]
    by (simp add: buf_def entry_bytes_def e del: length_greater_0_conv)
  moreover have "setting_id_decode buf = Ok (i, varint_bytes v @ entries_bytes es)"
    using ok by (cases i) (simp add: buf_def entry_bytes_def e setting_id_decode_def)
  ultimately show ?case
    using ok Cons.IH Cons.prems
    by (subst settings_decode_loop.simps) (auto simp: e buf_def [symmetric, unfolded e] split: result.splits)
qed

lemma insert_all_distinct:
  assumes "settings_inv s" and "\<forall>e \<in> set es. \<not> is_forbidden (fst e)"
    and "distinct (map fst (used s @ supported_of es))"
    and "length (used s @ supported_of es) \<le> SETTINGS_LEN"
  shows "\<exists>s'. insert_all s es = Ok s'"
  using assms
proof (induction es arbitrary: s)
  case (Cons e es)
  obtain i v where e: "e = (i, v)" by (cases e)
  show ?case
  proof (cases "is_supported i")
    case True
    then obtain s' where s': "settings_insert s i v = Ok s'"
      using settings_insert_fresh [of s i v] Cons.prems length_used [of s] by (auto simp: e)
    note facts = settings_insert_OkD [OF Cons.prems(1) s']
    show ?thesis
      using Cons.IH [of s'] Cons.prems True facts s' by (simp add: e)
  qed (use Cons in \<open>simp add: e\<close>)
qed simp

lemma insert_all_OkD:
  assumes "settings_inv s" and "insert_all s es = Ok s'"
  shows "settings_inv s'" and "used s' = used s @ supported_of es"
    and "\<forall>e \<in> set es. \<not> is_forbidden (fst e)"
proof -
  have "settings_inv s' \<and> used s' = used s @ supported_of es \<and> (\<forall>e \<in> set es. \<not> is_forbidden (fst e))"
    using assms
  proof (induction es arbitrary: s)
    case (Cons e es)
    obtain i v where e: "e = (i, v)" by (cases e)
    show ?case
    proof (cases "is_supported i")
      case True
      then obtain t where t: "settings_insert s i v = Ok t" "insert_all t es = Ok s'"
        using Cons.prems by (auto simp: e res_simps split: if_splits)
      then show ?thesis
        using Cons.IH [OF settings_insert_OkD(1) [OF Cons.prems(1) t(1)] t(2)]
          settings_insert_OkD(2) [OF Cons.prems(1) t(1)] True not_forbidden_supported [OF True]
        by (simp add: e)
    qed (use Cons in \<open>simp add: e split: if_splits\<close>)
  qed simp
  then show "settings_inv s'" and "used s' = used s @ supported_of es"
    and "\<forall>e \<in> set es. \<not> is_forbidden (fst e)" by simp_all
qed

lemma settings_decode_entries:
  assumes "settings_inv s" and "\<forall>e \<in> set es. entry_ok e \<and> \<not> is_forbidden (fst e)"
    and "distinct (map fst (used s @ supported_of es))"
    and "length (used s @ supported_of es) \<le> SETTINGS_LEN"
  shows "\<exists>s'. settings_decode_loop s (entries_bytes es) = Ok s' \<and> settings_inv s'
    \<and> used s' = used s @ supported_of es"
  using insert_all_distinct [of s es] insert_all_OkD [of s es] settings_decode_loop_entries [of es s] assms
  by auto

text \<open>There are seven supported settings, so eight entries are always enough.\<close>

lemma supported_distinct_length:
  assumes "distinct (map fst es)" and "\<forall>e \<in> set es. is_supported (fst e)"
  shows "length es \<le> 7"
proof -
  have "set (map fst es) \<subseteq> set [MAX_HEADER_LIST_SIZE, QPACK_MAX_TABLE_CAPACITY,
     QPACK_MAX_BLOCKED_STREAMS, ENABLE_CONNECT_PROTOCOL, ENABLE_WEBTRANSPORT,
     WEBTRANSPORT_MAX_SESSIONS, H3_DATAGRAM]"
    using assms(2) by (auto simp: is_supported_def)
  then have "card (set (map fst es)) \<le> length [MAX_HEADER_LIST_SIZE, QPACK_MAX_TABLE_CAPACITY,
     QPACK_MAX_BLOCKED_STREAMS, ENABLE_CONNECT_PROTOCOL, ENABLE_WEBTRANSPORT,
     WEBTRANSPORT_MAX_SESSIONS, H3_DATAGRAM]"
    by (meson card_length card_mono finite_set le_trans)
  then show ?thesis using distinct_card [OF assms(1)] by simp
qed

lemma settings_insert_has_room:
  assumes "settings_inv s" and "\<forall>e \<in> set (used s). is_supported (fst e)"
  shows "settings_insert s i v \<noteq> Err SExceeded"
  using assms supported_distinct_length [of "used s"] length_used [of s]
  by (auto simp: settings_insert_def settings_inv_def SETTINGS_LEN_def)

lemma settings_decode_loop_inv:
  assumes "settings_inv s" and "\<forall>e \<in> set (used s). is_supported (fst e)"
  shows "case settings_decode_loop s buf of
     Ok s' \<Rightarrow> settings_inv s' \<and> (\<forall>e \<in> set (used s'). is_supported (fst e))
   | Err e \<Rightarrow> e \<noteq> SExceeded
   | Panic \<Rightarrow> False"
  using assms
proof (induction s buf rule: settings_decode_loop.induct)
  case (1 s buf)
  show ?case
  proof (cases "buf = [] \<or> length buf < 2")
    case True
    then show ?thesis using 1 by (subst settings_decode_loop.simps) auto
  next
    case False
    show ?thesis
    proof (cases "setting_id_decode buf")
      case (Ok p)
      obtain i buf1 where p: "p = (i, buf1)" by (cases p)
      show ?thesis
      proof (cases "get_var buf1")
        case (Ok q)
        obtain v buf2 where q: "q = (v, buf2)" by (cases q)
        have step: "settings_decode_loop s buf =
          (if is_forbidden i then Err (SInvalidSettingId (setting_id_value i))
           else if is_supported i then
             (case settings_insert s i v of
                Ok s' \<Rightarrow> settings_decode_loop s' buf2 | Err e \<Rightarrow> Err e | Panic \<Rightarrow> Panic)
           else settings_decode_loop s buf2)"
          using False \<open>setting_id_decode buf = Ok p\<close> p Ok q by (subst settings_decode_loop.simps) simp
        show ?thesis
        proof (cases "is_supported i")
          case True
          show ?thesis
          proof (cases "settings_insert s i v")
            case (Ok s')
            note ins = settings_insert_OkD [OF 1(3) Ok]
            have "\<forall>e \<in> set (used s'). is_supported (fst e)" using 1(4) ins(2) True by simp
            then show ?thesis
              using 1(1) [OF _ _ \<open>setting_id_decode buf = Ok p\<close> p [symmetric] \<open>get_var buf1 = Ok q\<close> q [symmetric] _ True Ok ins(1)]
                False not_forbidden_supported [OF True] by (simp add: step True Ok)
          next
            case (Err e)
            then show ?thesis
              using settings_insert_has_room [OF 1(3,4), of i v] not_forbidden_supported [OF True]
              by (auto simp: step True)
          qed simp
        next
          case False
          then show ?thesis
            using 1(2) [OF _ _ \<open>setting_id_decode buf = Ok p\<close> p [symmetric] \<open>get_var buf1 = Ok q\<close> q [symmetric] _ _ 1(3,4)]
              \<open>\<not> (buf = [] \<or> length buf < 2)\<close> by (auto simp: step)
        qed
      qed (use False \<open>setting_id_decode buf = Ok p\<close> p in \<open>subst settings_decode_loop.simps, auto\<close>)+
    qed (use False in \<open>subst settings_decode_loop.simps, auto\<close>)+
  qed
qed

section \<open>Decoding one frame\<close>

lemma frame_decode_framed:
  assumes "varint_ok ty" and "ty \<noteq> WEBTRANSPORT_BI_STREAM" and "ty \<noteq> DATA"
    and "length_ok (length payload)"
  shows "frame_decode (varint_bytes ty @ varint_bytes (word_of_nat (length payload)) @ payload @ rest)
    = frame_decode_payload ty payload rest"
proof -
  have len: "get_var (varint_bytes (word_of_nat (length payload)) @ payload @ rest)
      = Ok (word_of_nat (length payload), payload @ rest)"
    using assms(4) by (intro get_var_bytes varint_ok_of_nat)
  have "unat (word_of_nat (length payload) :: u64) = length payload"
    using assms(4) by simp
  then show ?thesis
    using assms by (simp add: frame_decode_def frame_type_decode_def Let_def len)
qed

lemma decode_push_id_bytes [simp]:
  "varint_ok v \<Longrightarrow> decode_push_id (varint_bytes v @ rest) = Ok (PushId v, rest)"
  by (simp add: decode_push_id_def push_id_try_from_def)

text \<open>A frame that can be encoded, and how the receiver sees it.\<close>

definition frame_ok :: "u64 \<Rightarrow> bytes frame \<Rightarrow> bool" where
  "frame_ok r f =
     (case f of
        Data b \<Rightarrow> length_ok (length b)
      | Headers h \<Rightarrow> length_ok (length h)
      | Settings s \<Rightarrow> settings_ok s \<and> (\<forall>e \<in> set (used s). is_supported (fst e))
      | PushPromise p \<Rightarrow> varint_ok (pp_id p) \<and> length_ok (8 + length (pp_encoded p))
      | CancelPush i \<Rightarrow> varint_ok (push_id_into_varint i)
      | Goaway i \<Rightarrow> varint_ok i
      | MaxPushId i \<Rightarrow> varint_ok (push_id_into_varint i)
      | WebTransportStream i \<Rightarrow> varint_ok (session_id_into_inner i)
      | Grease \<Rightarrow> r < grease_bound)"

fun received :: "bytes frame \<Rightarrow> nat frame" where
  "received (Data b) = Data (length b)"
| "received (Headers h) = Headers h"
| "received (CancelPush i) = CancelPush i"
| "received (Settings s) = Settings s"
| "received (PushPromise p) = PushPromise p"
| "received (Goaway i) = Goaway i"
| "received (MaxPushId i) = MaxPushId i"
| "received (WebTransportStream i) = WebTransportStream i"
| "received Grease = Grease"

text \<open>What the transport sends after the encoded header.\<close>

definition trailing_payload :: "bytes frame \<Rightarrow> bytes" where
  "trailing_payload f = (case f of Data b \<Rightarrow> b | Headers h \<Rightarrow> h | _ \<Rightarrow> [])"

lemma length_small [simp]: "length_ok (length (varint_bytes x))"
  using length_varint_bytes_le [of x] by (simp add: length_ok_def)

lemma frame_types_ok [simp]:
  "varint_ok DATA" "varint_ok HEADERS" "varint_ok CANCEL_PUSH" "varint_ok SETTINGS"
  "varint_ok PUSH_PROMISE" "varint_ok GOAWAY" "varint_ok MAX_PUSH_ID" "varint_ok WEBTRANSPORT_BI_STREAM"
  by (simp_all add: frame_type_defs varint_ok_iff)

lemma simple_frame_encode_eq:
  assumes "varint_ok ty" and "varint_ok i"
  shows "simple_frame_encode ty i =
    Ok (varint_bytes ty @ varint_bytes (word_of_nat (length (varint_bytes i))) @ varint_bytes i)"
proof -
  have "varint_ok (word_of_nat (length (varint_bytes i)))"
    by (intro varint_ok_of_nat length_small)
  with assms show ?thesis
    by (simp add: simple_frame_encode_def frame_type_encode_def write_var_Ok varint_size_bytes
      varint_encode_bytes)
qed

lemma grease_value_unat:
  assumes "r < grease_bound"
  shows "unat (grease_value r) = unat r * 31 + 33" and "varint_ok (grease_value r)"
proof -
  have r: "unat r < 148764065110560899"
    using assms by (simp add: grease_bound_def word_less_nat_alt)
  then show u: "unat (grease_value r) = unat r * 31 + 33"
    by (simp add: grease_value_def unat_word_ariths)
  show "varint_ok (grease_value r)"
    using r by (simp add: varint_ok_iff u)
qed

lemma grease_value_unknown:
  assumes "r < grease_bound"
  shows "grease_value r \<notin> {DATA, HEADERS, H2_PRIORITY, CANCEL_PUSH, SETTINGS, PUSH_PROMISE,
    H2_PING, GOAWAY, H2_WINDOW_UPDATE, H2_CONTINUATION, MAX_PUSH_ID, WEBTRANSPORT_BI_STREAM}"
proof -
  have "unat r * 31 + 33 \<noteq> 65" by presburger
  then show ?thesis
    using grease_value_unat(1) [OF assms] by (auto simp: frame_type_defs dest!: arg_cong [where f = unat])
qed

lemma settings_decode_used:
  assumes "settings_ok s" and "\<forall>e \<in> set (used s). is_supported (fst e)"
  shows "settings_decode (entries_bytes (used s)) = Ok s"
proof -
  have f: "filter (\<lambda>e. is_supported (fst e)) (used s) = used s"
    using assms(2) by (simp add: filter_id_conv)
  have inv: "settings_inv s" using assms(1) by (simp add: settings_ok_def)
  then obtain s' where "settings_decode (entries_bytes (used s)) = Ok s'" "settings_inv s'"
    "used s' = used s"
    using settings_decode_entries [of settings_default "used s"] assms f
    by (auto simp: settings_decode_def settings_ok_def not_forbidden_supported length_used)
      (auto simp: settings_inv_def)
  with inv show ?thesis using settings_inv_ext by blast
qed

lemma frame_types_distinct [simp]:
  "DATA \<noteq> WEBTRANSPORT_BI_STREAM" "HEADERS \<noteq> WEBTRANSPORT_BI_STREAM" "HEADERS \<noteq> DATA"
  "SETTINGS \<noteq> WEBTRANSPORT_BI_STREAM" "SETTINGS \<noteq> DATA" "SETTINGS \<noteq> HEADERS"
  "CANCEL_PUSH \<noteq> WEBTRANSPORT_BI_STREAM" "CANCEL_PUSH \<noteq> DATA" "CANCEL_PUSH \<noteq> HEADERS"
  "CANCEL_PUSH \<noteq> SETTINGS" "PUSH_PROMISE \<noteq> WEBTRANSPORT_BI_STREAM" "PUSH_PROMISE \<noteq> DATA"
  "PUSH_PROMISE \<noteq> HEADERS" "PUSH_PROMISE \<noteq> SETTINGS" "PUSH_PROMISE \<noteq> CANCEL_PUSH"
  "GOAWAY \<noteq> WEBTRANSPORT_BI_STREAM" "GOAWAY \<noteq> DATA" "GOAWAY \<noteq> HEADERS" "GOAWAY \<noteq> SETTINGS"
  "GOAWAY \<noteq> CANCEL_PUSH" "GOAWAY \<noteq> PUSH_PROMISE"
  "MAX_PUSH_ID \<noteq> WEBTRANSPORT_BI_STREAM" "MAX_PUSH_ID \<noteq> DATA" "MAX_PUSH_ID \<noteq> HEADERS"
  "MAX_PUSH_ID \<noteq> SETTINGS" "MAX_PUSH_ID \<noteq> CANCEL_PUSH" "MAX_PUSH_ID \<noteq> PUSH_PROMISE"
  "MAX_PUSH_ID \<noteq> GOAWAY"
  by (simp_all add: frame_type_defs)

lemma frame_decode_data:
  assumes "length_ok n"
  shows "frame_decode (varint_bytes DATA @ varint_bytes (word_of_nat n) @ rest) = Ok (Data n, rest)"
proof -
  have "get_var (varint_bytes (word_of_nat n) @ rest) = Ok (word_of_nat n, rest)"
    using assms by (intro get_var_bytes varint_ok_of_nat)
  moreover have "unat (word_of_nat n :: u64) = n"
    using assms by simp
  ultimately show ?thesis
    by (simp add: frame_decode_def frame_type_decode_def Let_def)
qed

lemma header_encode:
  assumes "varint_ok ty" and "length_ok n"
  shows "emit [frame_type_encode ty, write_var (word_of_nat n)] =
    Ok (varint_bytes ty @ varint_bytes (word_of_nat n))"
  using write_var_Ok [OF varint_ok_of_nat [OF assms(2)]] assms(1)
  by (simp add: frame_type_encode_def write_var_Ok)

lemma frame_decode_settings:
  assumes "settings_ok s" and "\<forall>e \<in> set (used s). is_supported (fst e)"
  shows "frame_decode (varint_bytes SETTINGS @ varint_bytes (word_of_nat (length (entries_bytes (used s))))
    @ entries_bytes (used s) @ rest) = Ok (Settings s, rest)"
proof -
  have "length_ok (length (entries_bytes (used s)))"
    using assms length_entries_bytes_le [of "used s"] length_used [of s]
    by (simp add: settings_ok_def settings_inv_def SETTINGS_LEN_def length_ok_def)
  then show ?thesis
    using settings_decode_used [OF assms]
    by (subst frame_decode_framed) (simp_all add: frame_decode_payload_def leaving_def)
qed

lemma push_promise_roundtrip:
  assumes "varint_ok (pp_id p)" and "length_ok (8 + length (pp_encoded p))"
  shows "\<exists>hdr. push_promise_encode p = Ok hdr \<and> frame_decode (hdr @ rest) = Ok (PushPromise p, rest)"
proof -
  define payload where "payload = varint_bytes (pp_id p) @ pp_encoded p"
  have l: "length_ok (length payload)"
    using assms length_varint_bytes_le [of "pp_id p"] by (simp add: payload_def length_ok_def)
  have "frame_decode_payload PUSH_PROMISE payload rest = Ok (PushPromise p, rest)"
    using assms(1) by (simp add: frame_decode_payload_def leaving_def push_promise_decode_def payload_def)
  then have "frame_decode (varint_bytes PUSH_PROMISE @ varint_bytes (word_of_nat (length payload)) @ payload @ rest)
      = Ok (PushPromise p, rest)"
    using l by (subst frame_decode_framed) simp_all
  moreover have "push_promise_len p = Ok (length payload)"
    using assms(1) by (simp add: push_promise_len_def varint_size_bytes payload_def)
  moreover have "write_var (word_of_nat (length payload)) = Ok (varint_bytes (word_of_nat (length payload)))"
    by (intro write_var_Ok varint_ok_of_nat l)
  ultimately show ?thesis
    using assms(1) by (simp add: push_promise_encode_def push_promise_encode_header_def
      frame_type_encode_def write_var_Ok payload_def)
qed

lemma simple_frame_decode:
  assumes "varint_ok v"
  shows "frame_decode (varint_bytes CANCEL_PUSH @ varint_bytes (word_of_nat (length (varint_bytes v)))
      @ varint_bytes v @ rest) = Ok (CancelPush (PushId v), rest)"
    and "frame_decode (varint_bytes GOAWAY @ varint_bytes (word_of_nat (length (varint_bytes v)))
      @ varint_bytes v @ rest) = Ok (Goaway v, rest)"
    and "frame_decode (varint_bytes MAX_PUSH_ID @ varint_bytes (word_of_nat (length (varint_bytes v)))
      @ varint_bytes v @ rest) = Ok (MaxPushId (PushId v), rest)"
  using length_small [of v] varint.dec_enc [OF assms, of "[]"] decode_push_id_bytes [OF assms, of "[]"]
  by (simp_all add: frame_decode_framed frame_decode_payload_def leaving_def)

lemma grease_decode:
  assumes "r < grease_bound"
  shows "\<exists>hdr. frame_encode r Grease = Ok hdr
    \<and> frame_decode (hdr @ rest) = Err (FUnknownFrame (frame_type_grease r), rest)"
proof -
  define ty where "ty = frame_type_grease r"
  have ok: "varint_ok ty" and unknown: "ty \<notin> {DATA, HEADERS, H2_PRIORITY, CANCEL_PUSH, SETTINGS,
    PUSH_PROMISE, H2_PING, GOAWAY, H2_WINDOW_UPDATE, H2_CONTINUATION, MAX_PUSH_ID, WEBTRANSPORT_BI_STREAM}"
    using grease_value_unat(2) [OF assms] grease_value_unknown [OF assms]
    by (simp_all add: ty_def frame_type_grease_def)
  define payload :: bytes where "payload = map of_char ''grease''"
  have "frame_decode_payload ty payload rest = Err (FUnknownFrame ty, rest)"
    using unknown by (simp add: frame_decode_payload_def)
  then have "frame_decode (varint_bytes ty @ varint_bytes (word_of_nat (length payload)) @ payload @ rest)
      = Err (FUnknownFrame ty, rest)"
    using ok unknown by (subst frame_decode_framed) (simp_all add: payload_def length_ok_def)
  moreover have "word_of_nat (length payload) = (6 :: u64)"
    by (simp add: payload_def)
  ultimately show ?thesis
    using ok by (simp add: frame_encode_def frame_type_encode_def write_var_Ok varint_ok_iff [of 6] payload_def
      flip: ty_def)
qed

lemma frame_roundtrip_spec:
  assumes "frame_ok r f"
  shows "\<exists>hdr. frame_encode r f = Ok hdr
    \<and> frame_decode (hdr @ trailing_payload f @ rest) =
       (case f of
          Data b \<Rightarrow> Ok (Data (length b), b @ rest)
        | Grease \<Rightarrow> Err (FUnknownFrame (frame_type_grease r), rest)
        | _ \<Rightarrow> Ok (received f, rest))"
proof (cases f)
  case (PushPromise p)
  then show ?thesis
    using assms push_promise_roundtrip [of p rest]
    by (auto simp: frame_ok_def frame_encode_def trailing_payload_def)
next
  case (WebTransportStream i)
  then show ?thesis
    using assms by (cases i) (simp add: frame_ok_def frame_encode_def frame_type_encode_def
      session_id_encode_def write_var_Ok trailing_payload_def frame_decode_def frame_type_decode_def
      session_id_decode_def varint.dec_enc leaving_def)
next
  case (Headers h)
  moreover have "frame_decode (varint_bytes HEADERS @ varint_bytes (word_of_nat (length h)) @ h @ rest)
      = Ok (Headers h, rest)" if "length_ok (length h)"
    using that by (simp add: frame_decode_framed frame_decode_payload_def)
  ultimately show ?thesis
    using assms by (simp add: frame_ok_def frame_encode_def header_encode trailing_payload_def
      del: emit.simps)
next
  case (CancelPush i)
  then show ?thesis
    using assms by (cases i) (simp add: frame_ok_def frame_encode_def simple_frame_encode_eq
      trailing_payload_def simple_frame_decode)
next
  case (MaxPushId i)
  then show ?thesis
    using assms by (cases i) (simp add: frame_ok_def frame_encode_def simple_frame_encode_eq
      trailing_payload_def simple_frame_decode)
qed (use assms grease_decode [of r rest] in \<open>auto simp: frame_ok_def frame_encode_def header_encode
      simple_frame_encode_eq simple_frame_decode settings_encode_eq frame_decode_settings
      frame_decode_data trailing_payload_def simp del: emit.simps\<close>)




section \<open>Decoding from a buffer that is still being filled\<close>

text \<open>The outcome with more bytes behind what is left, and the test for \<open>Incomplete\<close>.\<close>

fun extended :: "bytes \<Rightarrow> ('e \<times> bytes, 'a \<times> bytes) result \<Rightarrow> ('e \<times> bytes, 'a \<times> bytes) result" where
  "extended later (Ok (f, rest)) = Ok (f, rest @ later)"
| "extended later (Err (e, rest)) = Err (e, rest @ later)"
| "extended later Panic = Panic"

fun incomplete :: "(frame_error \<times> bytes, 'a) result \<Rightarrow> bool" where
  "incomplete (Err (FIncomplete n, rest)) = True"
| "incomplete r = False"

lemma settings_decode_loop_no_Panic: "settings_decode_loop s buf \<noteq> Panic"
proof (induction s buf rule: settings_decode_loop.induct)
  case (1 s buf)
  show ?case
    using 1 by (subst settings_decode_loop.simps) (auto split: result.splits)
qed

lemma push_id_try_from_cases:
  "push_id_try_from v = (if varint_ok v then Ok (PushId v) else Err (InvalidPushId v))"
  by (auto simp: push_id_try_from_def varint_from_u64_def varint_ok_def)

lemma decode_push_id_eq:
  "decode_push_id payload =
     and_then (map_err frame_error_from_unexpected_end (get_var payload)) (\<lambda>(v, rest). Ok (PushId v, rest))"
  by (cases "get_var payload") (auto simp: decode_push_id_def push_id_try_from_cases dest: get_var_ok)

lemma frame_decode_payload_extended:
  "frame_decode_payload ty p (after @ later) = extended later (frame_decode_payload ty p after)"
  by (cases "settings_decode p"; cases "get_var p"; cases "varint_decode p")
    (auto simp: frame_decode_payload_def leaving_def decode_push_id_eq push_promise_decode_def)

lemma frame_decode_payload_no_Panic:
  "ty \<noteq> DATA \<Longrightarrow> ty \<noteq> WEBTRANSPORT_BI_STREAM \<Longrightarrow> frame_decode_payload ty p after \<noteq> Panic"
  by (auto simp: frame_decode_payload_def leaving_def decode_push_id_eq push_promise_decode_def
      settings_decode_def settings_decode_loop_no_Panic res_simps)


lemma session_id_decode_eq:
  "session_id_decode buf = and_then (varint_decode buf) (\<lambda>(v, rest). Ok (SessionId v, rest))"
  by (simp add: session_id_decode_def)

lemma frame_decode_spec:
  "case frame_decode buf of
     Ok (f, rest) \<Rightarrow> frame_decode (buf @ later) = Ok (f, rest @ later)
   | Err (FIncomplete n, rest) \<Rightarrow> incomplete (frame_decode (buf @ later)) \<or> n \<le> length (buf @ later)
   | Err (e, rest) \<Rightarrow> frame_decode (buf @ later) = Err (e, rest @ later)
   | Panic \<Rightarrow> False"
proof (cases "frame_type_decode buf")
  case (Ok p)
  obtain ty buf1 where p: "p = (ty, buf1)" by (cases p)
  have t: "frame_type_decode (buf @ later) = Ok (ty, buf1 @ later)" and short: "length buf1 < length buf"
    using Ok p get_var_append get_var_shorter by (auto simp: frame_type_decode_def)
  show ?thesis
  proof (cases "ty = WEBTRANSPORT_BI_STREAM")
    case True
    show ?thesis
    proof (cases "varint_decode buf1")
      case (Ok q)
      then show ?thesis
        using t p \<open>frame_type_decode buf = Ok p\<close> True
        by (cases q) (simp add: frame_decode_def leaving_def session_id_decode_def varint_decode_append)
    next
      case (Err e)
      obtain n where e: "e = UnexpectedEnd n" by (cases e)
      show ?thesis
      proof (cases "varint_decode (buf1 @ later)")
        case (Ok q)
        then have "n \<le> length (buf1 @ later)" using get_var_hint Err e by blast
        then show ?thesis
          using t p \<open>frame_type_decode buf = Ok p\<close> True Err e short
          by (auto simp: frame_decode_def leaving_def session_id_decode_def)
      next
        case (Err e')
        then show ?thesis
          using t p \<open>frame_type_decode buf = Ok p\<close> True \<open>varint_decode buf1 = Err e\<close> e
          by (cases e') (auto simp: frame_decode_def leaving_def session_id_decode_def)
      qed simp
    qed simp
  next
    case False
    note noWT = False
    show ?thesis
    proof (cases "get_var buf1")
      case (Ok q)
      obtain n64 buf2 where q: "q = (n64, buf2)" by (cases q)
      have g: "get_var (buf1 @ later) = Ok (n64, buf2 @ later)" and short2: "length buf2 < length buf1"
        using Ok q get_var_append get_var_shorter by auto
      define n where "n = unat n64"
      show ?thesis
      proof (cases "ty = DATA \<or> n \<le> length buf2")
        case True
        then have "frame_decode (buf @ later) = extended later (frame_decode buf)" and "frame_decode buf \<noteq> Panic"
          using t g p q Ok \<open>frame_type_decode buf = Ok p\<close> noWT
          by (auto simp: frame_decode_def Let_def frame_decode_payload_extended
              frame_decode_payload_no_Panic simp flip: n_def)
        then show ?thesis
          by (cases "frame_decode buf") (auto split: frame_error.splits)
      next
        case False
        then show ?thesis
          using t g p q Ok \<open>frame_type_decode buf = Ok p\<close> noWT short short2
          by (auto simp: frame_decode_def Let_def simp flip: n_def)
      qed
    next
      case (Err e)
      then show ?thesis
        using t p \<open>frame_type_decode buf = Ok p\<close> noWT
        by (cases "get_var (buf1 @ later)") (auto simp: frame_decode_def Let_def Suc_le_eq)
    qed simp
  qed
next
  case (Err e)
  then show ?thesis
    by (cases "frame_type_decode (buf @ later)") (auto simp: frame_decode_def Let_def Suc_le_eq)
next
  case Panic
  then show ?thesis by (simp add: frame_type_decode_def)
qed


text \<open>What is left after a frame or an unknown frame is shorter and a suffix of the buffer.\<close>

lemma varint_decode_suffix: "varint_decode r = Ok (x, rest) \<Longrightarrow> \<exists>p. r = p @ rest \<and> p \<noteq> []"
proof -
  assume a: "varint_decode r = Ok (x, rest)"
  obtain b r1 where r: "r = b # r1" "rest = drop (varint_encoded_size b) r"
    using a by (auto elim: varint_decode_OkD)
  have "0 < varint_encoded_size b" by (simp add: varint_encoded_size_def)
  then have "take (varint_encoded_size b) r \<noteq> []" using r by simp
  then show ?thesis using r append_take_drop_id by metis
qed

lemmas decode_suffixes = varint_decode_suffix varint_decode_suffix [folded get_var_def]
  varint_decode_suffix [folded get_var_def, folded frame_type_decode_def]

fun rest_of :: "('e \<times> bytes, 'a \<times> bytes) result \<Rightarrow> bytes option" where
  "rest_of (Ok (f, rest)) = Some rest"
| "rest_of (Err (e, rest)) = Some rest"
| "rest_of Panic = None"

lemma frame_decode_payload_suffix:
  "rest_of (frame_decode_payload ty p after) = Some rest \<Longrightarrow> \<exists>q. p @ after = q @ rest"
  by (cases "settings_decode p"; cases "varint_decode p")
    (auto simp: frame_decode_payload_def leaving_def decode_push_id_eq push_promise_decode_def get_var_def
      dest!: varint_decode_suffix split: if_splits)

lemma incomplete_unexpected_end [simp]: "incomplete (Err (frame_error_from_unexpected_end e, r))"
  by (cases e) simp

lemma frame_decode_suffix:
  assumes "rest_of (frame_decode buf) = Some rest" and "\<not> incomplete (frame_decode buf)"
  shows "\<exists>p. buf = p @ rest \<and> p \<noteq> []"
proof -
  obtain ty buf1 where t: "frame_type_decode buf = Ok (ty, buf1)"
    using assms by (cases "frame_type_decode buf") (auto simp: frame_decode_def Let_def)
  then obtain p where p: "buf = p @ buf1" "p \<noteq> []" using decode_suffixes(3) by blast
  show ?thesis
  proof (cases "ty = WEBTRANSPORT_BI_STREAM")
    case True
    then obtain v where "varint_decode buf1 = Ok (v, rest)"
      using assms t by (cases "varint_decode buf1")
        (auto simp: frame_decode_def Let_def leaving_def session_id_decode_def res_simps)
    then show ?thesis using p decode_suffixes(1) by fastforce
  next
    case False
    then obtain n64 buf2 where n: "get_var buf1 = Ok (n64, buf2)"
      using assms t by (cases "get_var buf1") (auto simp: frame_decode_def Let_def)
    then obtain q where q: "buf1 = q @ buf2" using decode_suffixes(2) by blast
    have "\<exists>q'. buf2 = q' @ rest"
    proof (cases "ty = DATA")
      case True
      then show ?thesis using assms t n False by (simp add: frame_decode_def Let_def)
    next
      case noData: False
      then have "rest_of (frame_decode_payload ty (take (unat n64) buf2) (drop (unat n64) buf2)) = Some rest"
        using assms t n False by (simp add: frame_decode_def Let_def split: if_splits)
      then show ?thesis using frame_decode_payload_suffix by fastforce
    qed
    with p q show ?thesis by auto
  qed
qed

lemma frame_decode_Ok_suffix: "frame_decode buf = Ok (f, rest) \<Longrightarrow> \<exists>p. buf = p @ rest \<and> p \<noteq> []"
  using frame_decode_suffix [of buf rest] by simp

lemma frame_decode_unknown_suffix:
  "frame_decode buf = Err (FUnknownFrame ty, rest) \<Longrightarrow> \<exists>p. buf = p @ rest \<and> p \<noteq> []"
  using frame_decode_suffix [of buf rest] by simp

lemma frame_decode_unknown_shorter:
  "frame_decode buf = Err (FUnknownFrame ty, rest) \<Longrightarrow> length rest < length buf"
  using frame_decode_unknown_suffix by fastforce

text \<open>
  C22: decoding may start before a frame is complete. It never panics; a decoded frame, and
  every error but \<open>Incomplete\<close>, is the same whatever bytes arrive later, which stay behind
  what was consumed; and the hint of \<open>Incomplete\<close> is never larger than a buffer from which
  the decoder gets further.
\<close>

theorem frame_decode_incremental:
  "case frame_decode buf of
     Ok (f, rest) \<Rightarrow> frame_decode (buf @ later) = Ok (f, rest @ later)
   | Err (FIncomplete n, rest) \<Rightarrow> incomplete (frame_decode (buf @ later)) \<or> n \<le> length (buf @ later)
   | Err (e, rest) \<Rightarrow> frame_decode (buf @ later) = Err (e, rest @ later)
   | Panic \<Rightarrow> False"
  by (rule frame_decode_spec)



text \<open>
  Whatever the payload, decoding SETTINGS does not panic, never runs out of the eight
  entries, and what it returns satisfies the invariant of the settings (distinct identifiers
  in the used entries, the others empty) and holds supported identifiers only.
\<close>

theorem settings_decode_invariant:
  "case settings_decode buf of
     Ok s \<Rightarrow> settings_inv s \<and> fst ` set (used s) \<subseteq> Collect is_supported
   | Err e \<Rightarrow> e \<noteq> SExceeded
   | Panic \<Rightarrow> False"
proof -
  have "\<forall>e \<in> set (used settings_default). is_supported (fst e)" by simp
  from settings_decode_loop_inv [OF settings_inv_default this, of buf]
  show ?thesis
    unfolding settings_decode_def
    by (cases "settings_decode_loop settings_default buf") auto
qed

section \<open>Payloads that do not fill their frame\<close>

lemma short_payload_decode:
  assumes "length_ok (length p)" and "varint_decode p = Err (UnexpectedEnd n)"
    and "ty \<in> {CANCEL_PUSH, PUSH_PROMISE, GOAWAY, MAX_PUSH_ID}"
  shows "frame_decode (varint_bytes ty @ varint_bytes (word_of_nat (length p)) @ p @ rest)
    = Err (FIncomplete n, p @ rest)"
  using assms
  by (subst frame_decode_framed) (auto simp: frame_decode_payload_def leaving_def decode_push_id_eq
    push_promise_decode_def get_var_def dest: frame_types_distinct [THEN notE, OF sym])

text \<open>
  A CANCEL_PUSH, PUSH_PROMISE, GOAWAY or MAX_PUSH_ID frame that is complete but whose
  payload is too short for its identifier is reported as incomplete, with a hint that the
  buffer already exceeds, whatever follows: it never becomes an error.
\<close>

theorem short_payload_is_incomplete_forever:
  assumes "length_ok (length p)" and "varint_decode p = Err (UnexpectedEnd n)"
    and "ty \<in> {CANCEL_PUSH, PUSH_PROMISE, GOAWAY, MAX_PUSH_ID}"
  shows "frame_decode (varint_bytes ty @ varint_bytes (word_of_nat (length p)) @ p @ later)
    = Err (FIncomplete n, p @ later)"
  using assms by (rule short_payload_decode)

theorem short_payload_is_incomplete_forever_witness:
  "frame_decode (varint_bytes GOAWAY @ varint_bytes 1 @ [0x40] @ [0, 0, 0])
    = Err (FIncomplete 1, [0x40, 0, 0, 0])"
proof -
  have "varint_decode [0x40] = Err (UnexpectedEnd 1)"
    by (simp add: varint_decode_def)
  then show ?thesis
    using short_payload_is_incomplete_forever [of "[0x40]" 1 GOAWAY "[0, 0, 0]"]
    by (simp add: length_ok_def)
qed

text \<open>
  Payload bytes behind the identifier of a CANCEL_PUSH, GOAWAY or MAX_PUSH_ID frame are
  not part of the frame for the decoder: it stops right after the identifier and leaves them
  in front of the next frame.
\<close>

theorem surplus_payload_is_left:
  assumes "varint_ok v" and "length_ok (length (varint_bytes v @ extra))"
  shows "frame_decode (varint_bytes GOAWAY @ varint_bytes (word_of_nat (length (varint_bytes v @ extra)))
           @ (varint_bytes v @ extra) @ rest) = Ok (Goaway v, extra @ rest)
    \<and> frame_decode (varint_bytes CANCEL_PUSH @ varint_bytes (word_of_nat (length (varint_bytes v @ extra)))
           @ (varint_bytes v @ extra) @ rest) = Ok (CancelPush (PushId v), extra @ rest)
    \<and> frame_decode (varint_bytes MAX_PUSH_ID @ varint_bytes (word_of_nat (length (varint_bytes v @ extra)))
           @ (varint_bytes v @ extra) @ rest) = Ok (MaxPushId (PushId v), extra @ rest)"
  using assms(1)
  by (simp_all only: frame_decode_framed [OF _ _ _ assms(2)] frame_types_ok frame_types_distinct
      not_False_eq_True)
    (simp_all add: frame_decode_payload_def leaving_def decode_push_id_eq varint.dec_enc)

theorem surplus_payload_is_left_witness:
  "frame_decode (varint_bytes GOAWAY @ varint_bytes 3 @ varint_bytes 4 @ [0x05, 0x00] @ [])
    = Ok (Goaway 4, [0x05, 0x00])"
proof -
  have ok: "varint_ok 4" by (simp add: varint_ok_iff)
  have l: "length (varint_bytes 4) = 1" by (simp add: varint_bytes_def varint_encode_def)
  then have "length_ok (length (varint_bytes 4 @ [0x05, 0x00 :: u8]))" by (simp add: length_ok_def)
  from surplus_payload_is_left [OF ok this, of "[]"] show ?thesis by (simp add: l)
qed

end
