(* ===== verification/Buffers.thy ===== *)
theory Buffers
  imports Prelude
begin

text \<open>
  The chunked receive buffer of \<open>h3/src/buf.rs\<close>: \<open>BufList\<close>, a queue of byte chunks, and
  its read-only \<open>Cursor\<close>. The contents of a buffer are the concatenation of its chunks.
  The interface \<open>byte_source\<close> states what code generic over \<open>bytes::Buf\<close> relies on:
  \<open>remaining\<close>, \<open>chunk\<close> and \<open>advance\<close> are a view of one byte string. Both types are shown
  to implement it, so readers may be modelled on the byte string itself. A debug assertion
  that fails and an index out of range are a panic.
\<close>

section \<open>Model\<close>

type_synonym buf_list = "bytes list"

definition buf_contents :: "buf_list \<Rightarrow> bytes" where
  "buf_contents bl = concat bl"

definition take_first_chunk :: "buf_list \<Rightarrow> bytes option \<times> buf_list" where
  "take_first_chunk bl = (case bl of [] \<Rightarrow> (None, []) | c # cs \<Rightarrow> (Some c, cs))"

definition take_chunk :: "buf_list \<Rightarrow> nat \<Rightarrow> bytes option \<times> buf_list" where
  "take_chunk bl max_len =
     (case bl of
        [] \<Rightarrow> (None, [])
      | c # cs \<Rightarrow>
          let n = min max_len (length c); front = drop n c in
          (Some (take n c), if length front = 0 then cs else front # cs))"

definition push_bytes :: "buf_list \<Rightarrow> bytes \<Rightarrow> buf_list may_panic" where
  "push_bytes bl data = assert_then (data \<noteq> []) (Ok (bl @ [data]))"

definition buf_remaining :: "buf_list \<Rightarrow> nat" where
  "buf_remaining bl = sum_list (map length bl)"

definition buf_chunk :: "buf_list \<Rightarrow> bytes" where
  "buf_chunk bl = (case bl of [] \<Rightarrow> [] | c # cs \<Rightarrow> c)"

fun buf_advance :: "buf_list \<Rightarrow> nat \<Rightarrow> buf_list may_panic" where
  "buf_advance [] cnt = (if cnt > 0 then Panic else Ok [])"
| "buf_advance (c # cs) cnt =
     (if cnt > 0 then
        (if length c > cnt then Ok (drop cnt c # cs)
         else buf_advance cs (cnt - length c))
      else Ok (c # cs))"

text \<open>A cursor walks over a buffer it does not change.\<close>

record cursor =
  pos_total :: nat
  pos_front :: nat
  cursor_index :: nat

definition buf_cursor :: "buf_list \<Rightarrow> cursor" where
  "buf_cursor bl = \<lparr>pos_total = 0, pos_front = 0, cursor_index = 0\<rparr>"

definition cursor_remaining :: "buf_list \<Rightarrow> cursor \<Rightarrow> nat" where
  "cursor_remaining bl c = buf_remaining bl - pos_total c"

definition cursor_chunk :: "buf_list \<Rightarrow> cursor \<Rightarrow> bytes may_panic" where
  "cursor_chunk bl c =
     assert_then (cursor_index c < length bl) (Ok (drop (pos_front c) (bl ! cursor_index c)))"

text \<open>The loop of \<open>Cursor::advance\<close>; it ends since the index grows up to the number of chunks.\<close>

function cursor_advance_loop :: "buf_list \<Rightarrow> cursor \<Rightarrow> nat \<Rightarrow> cursor may_panic" where
  "cursor_advance_loop bl c cnt =
     (if cnt > 0 then
        (if cursor_index c \<ge> length bl then Panic
         else
           let rem = length (bl ! cursor_index c) - pos_front c in
           if rem > cnt then Ok (c\<lparr>pos_total := pos_total c + cnt, pos_front := pos_front c + cnt\<rparr>)
           else cursor_advance_loop bl
                  (c\<lparr>pos_total := pos_total c + rem, pos_front := 0, cursor_index := cursor_index c + 1\<rparr>)
                  (cnt - rem))
      else Ok c)"
  by pat_completeness auto

termination cursor_advance_loop
  by (relation "measure (\<lambda>(bl, c, cnt). length bl - cursor_index c)") auto

declare cursor_advance_loop.simps [simp del]

definition cursor_advance :: "buf_list \<Rightarrow> cursor \<Rightarrow> nat \<Rightarrow> cursor may_panic" where
  "cursor_advance bl c cnt =
     assert_then (cnt \<le> buf_remaining bl - pos_total c) (cursor_advance_loop bl c cnt)"

section \<open>What a reader relies on\<close>

text \<open>
  The part of the contract of \<open>bytes::Buf\<close> that readers use: there is a byte string,
  \<open>remaining\<close> is its length, \<open>chunk\<close> a prefix of it that is empty only at its end, and
  \<open>advance\<close> drops a prefix.
\<close>

locale byte_source =
  fixes contents :: "'s \<Rightarrow> bytes"
    and inv :: "'s \<Rightarrow> bool"
    and remaining :: "'s \<Rightarrow> nat"
    and chunk :: "'s \<Rightarrow> bytes may_panic"
    and advance :: "'s \<Rightarrow> nat \<Rightarrow> 's may_panic"
  assumes remaining_eq: "inv s \<Longrightarrow> remaining s = length (contents s)"
    and chunk_prefix: "inv s \<Longrightarrow> contents s \<noteq> [] \<Longrightarrow>
      \<exists>c r. chunk s = Ok c \<and> c \<noteq> [] \<and> contents s = c @ r"
    and advance_drop: "inv s \<Longrightarrow> n \<le> length (contents s) \<Longrightarrow>
      \<exists>s'. advance s n = Ok s' \<and> inv s' \<and> contents s' = drop n (contents s)"
begin

text \<open>\<open>get_u8\<close>: the first byte of the chunk, then one step.\<close>

lemma first_byte:
  assumes "inv s" and "contents s = b # bs"
  shows "\<exists>c s'. chunk s = Ok c \<and> c \<noteq> [] \<and> hd c = b \<and> advance s 1 = Ok s' \<and> inv s' \<and> contents s' = bs"
  using chunk_prefix [OF assms(1)] advance_drop [OF assms(1), of 1] assms(2)
  by (auto simp: append_eq_Cons_conv Cons_eq_append_conv)

text \<open>A writer that takes any non-empty part of each chunk and advances by it sees the string in order.\<close>

lemma partial_write:
  assumes "inv s" and "chunk s = Ok c" and "contents s \<noteq> []" and "n \<le> length c"
  shows "\<exists>s'. advance s n = Ok s' \<and> inv s' \<and> contents s = take n c @ contents s'"
proof -
  obtain r where r: "contents s = c @ r"
    using chunk_prefix [OF assms(1,3)] assms(2) by auto
  then obtain s' where "advance s n = Ok s'" "inv s'" "contents s' = drop n (c @ r)"
    using advance_drop [OF assms(1), of n] assms(4) by auto
  with r assms(4) show ?thesis by simp
qed

lemma advance_all: "inv s \<Longrightarrow> \<exists>s'. advance s (remaining s) = Ok s' \<and> contents s' = []"
  using advance_drop [of s "length (contents s)"] remaining_eq [of s] by auto

end

section \<open>The buffer list\<close>

definition buf_inv :: "buf_list \<Rightarrow> bool" where
  "buf_inv bl \<longleftrightarrow> [] \<notin> set bl"

lemma buf_contents_simps [simp]:
  "buf_contents [] = []"
  "buf_contents (c # cs) = c @ buf_contents cs"
  "buf_contents (xs @ ys) = buf_contents xs @ buf_contents ys"
  by (simp_all add: buf_contents_def)

lemma buf_inv_simps [simp]:
  "buf_inv []"
  "buf_inv (c # cs) \<longleftrightarrow> c \<noteq> [] \<and> buf_inv cs"
  "buf_inv (xs @ ys) \<longleftrightarrow> buf_inv xs \<and> buf_inv ys"
  by (auto simp: buf_inv_def)

lemma buf_remaining_eq: "buf_remaining bl = length (buf_contents bl)"
  by (simp add: buf_remaining_def buf_contents_def length_concat)

lemma buf_contents_empty: "buf_inv bl \<Longrightarrow> buf_contents bl = [] \<longleftrightarrow> bl = []"
  by (cases bl) auto

lemma buf_advance_spec:
  "n \<le> length (buf_contents bl) \<Longrightarrow>
   \<exists>bl'. buf_advance bl n = Ok bl' \<and> (buf_inv bl \<longrightarrow> buf_inv bl') \<and> buf_contents bl' = drop n (buf_contents bl)"
  by (induction bl n rule: buf_advance.induct) (auto simp: le_diff_conv add.commute)

lemma buf_advance_too_far: "length (buf_contents bl) < n \<Longrightarrow> buf_advance bl n = Panic"
  by (induction bl n rule: buf_advance.induct) auto

lemma buf_advance_remaining:
  assumes "buf_advance bl n = Ok bl'"
  shows "n \<le> buf_remaining bl \<and> buf_remaining bl' = buf_remaining bl - n"
  using buf_advance_spec [of n bl] buf_advance_too_far [of bl n] assms
  by (cases "n \<le> length (buf_contents bl)") (auto simp: buf_remaining_eq)

lemma take_chunk_spec:
  assumes "buf_inv bl" and "take_chunk bl n = (d, bl')"
  shows "buf_inv bl'" and "buf_contents bl = (case d of None \<Rightarrow> [] | Some c \<Rightarrow> c) @ buf_contents bl'"
    and "d = None \<longleftrightarrow> bl = []" and "\<And>c. d = Some c \<Longrightarrow> length c \<le> n \<and> (n > 0 \<longrightarrow> c \<noteq> [])"
  using assms by (auto simp: take_chunk_def Let_def split: list.splits if_splits)

lemma push_bytes_spec:
  "push_bytes bl d = (if d = [] then Panic else Ok (bl @ [d]))"
  by (simp add: push_bytes_def assert_then_def)

interpretation buf_list: byte_source buf_contents buf_inv buf_remaining "\<lambda>bl. Ok (buf_chunk bl)" buf_advance
proof
  fix bl :: buf_list and n
  assume inv: "buf_inv bl"
  show "buf_remaining bl = length (buf_contents bl)" by (rule buf_remaining_eq)
  show "\<exists>c r. Ok (buf_chunk bl) = Ok c \<and> c \<noteq> [] \<and> buf_contents bl = c @ r" if "buf_contents bl \<noteq> []"
    using inv that by (cases bl) (auto simp: buf_chunk_def)
  show "\<exists>bl'. buf_advance bl n = Ok bl' \<and> buf_inv bl' \<and> buf_contents bl' = drop n (buf_contents bl)"
    if "n \<le> length (buf_contents bl)"
    using buf_advance_spec [OF that] inv by auto
qed

section \<open>The cursor\<close>

definition cursor_inv :: "buf_list \<Rightarrow> cursor \<Rightarrow> bool" where
  "cursor_inv bl c \<longleftrightarrow>
     cursor_index c \<le> length bl
     \<and> (if cursor_index c < length bl then pos_front c < length (bl ! cursor_index c) else pos_front c = 0)
     \<and> pos_total c = length (buf_contents (take (cursor_index c) bl)) + pos_front c"

definition cursor_contents :: "buf_list \<Rightarrow> cursor \<Rightarrow> bytes" where
  "cursor_contents bl c = drop (pos_total c) (buf_contents bl)"

lemma cursor_contents_split:
  assumes "cursor_inv bl c" and "cursor_index c < length bl"
  shows "cursor_contents bl c
    = drop (pos_front c) (bl ! cursor_index c) @ buf_contents (drop (Suc (cursor_index c)) bl)"
proof -
  have "bl = take (cursor_index c) bl @ bl ! cursor_index c # drop (Suc (cursor_index c)) bl"
    using assms(2) by (simp add: id_take_nth_drop)
  then have "buf_contents bl = buf_contents (take (cursor_index c) bl) @ bl ! cursor_index c
      @ buf_contents (drop (Suc (cursor_index c)) bl)"
    by (metis buf_contents_simps(2,3))
  then show ?thesis
    using assms by (simp add: cursor_contents_def cursor_inv_def)
qed

lemma cursor_contents_end:
  assumes "cursor_inv bl c" and "\<not> cursor_index c < length bl"
  shows "cursor_contents bl c = []"
  using assms by (simp add: cursor_contents_def cursor_inv_def)

lemma cursor_advance_loop_spec:
  assumes "buf_inv bl" and "cursor_inv bl c" and "n \<le> length (cursor_contents bl c)"
  shows "\<exists>c'. cursor_advance_loop bl c n = Ok c' \<and> cursor_inv bl c' \<and> pos_total c' = pos_total c + n"
  using assms
proof (induction bl c n rule: cursor_advance_loop.induct)
  case (1 bl c n)
  define i where "i = cursor_index c"
  show ?case
  proof (cases "n > 0")
    case False
    then show ?thesis using 1(3) by (simp add: cursor_advance_loop.simps)
  next
    case True
    then have i: "i < length bl"
      using 1(4) cursor_contents_end [OF 1(3)] by (cases "i < length bl") (simp_all add: i_def)
    define rem where "rem = length (bl ! i) - pos_front c"
    have inv: "pos_front c < length (bl ! i)" "pos_total c = length (buf_contents (take i bl)) + pos_front c"
      using 1(3) i by (simp_all add: cursor_inv_def i_def)
    show ?thesis
    proof (cases "rem > n")
      case True
      then show ?thesis
        using \<open>n > 0\<close> i inv 1(3) unfolding rem_def i_def
        by (subst cursor_advance_loop.simps) (simp add: Let_def cursor_inv_def)
    next
      case False
      define c' where "c' = c\<lparr>pos_total := pos_total c + rem, pos_front := 0, cursor_index := Suc i\<rparr>"
      have tot: "length (buf_contents (take (Suc i) bl)) = length (buf_contents (take i bl)) + length (bl ! i)"
        using i by (simp add: take_Suc_conv_app_nth)
      have "Suc i < length bl \<Longrightarrow> 0 < length (bl ! Suc i)"
        using 1(2) nth_mem [of "Suc i" bl] by (auto simp: buf_inv_def simp del: nth_mem)
      then have inv': "cursor_inv bl c'"
        using i inv tot by (simp add: cursor_inv_def c'_def rem_def)
      have "length (cursor_contents bl c') = length (cursor_contents bl c) - rem"
        by (simp add: cursor_contents_def c'_def)
      then have "n - rem \<le> length (cursor_contents bl c')"
        using 1(4) by simp
      with inv' 1(1) [OF \<open>n > 0\<close> _ rem_def [unfolded i_def] _ 1(2)] i False
      have "\<exists>d. cursor_advance_loop bl c' (n - rem) = Ok d \<and> cursor_inv bl d
          \<and> pos_total d = pos_total c' + (n - rem)"
        by (simp add: c'_def i_def)
      moreover have "cursor_advance_loop bl c n = cursor_advance_loop bl c' (n - rem)"
        using \<open>n > 0\<close> i False unfolding rem_def i_def c'_def
        by (subst cursor_advance_loop.simps) (simp add: Let_def)
      moreover have "pos_total c' + (n - rem) = pos_total c + n"
        using False by (simp add: c'_def)
      ultimately show ?thesis by simp
    qed
  qed
qed

lemma cursor_advance_spec:
  assumes "buf_inv bl" and "cursor_inv bl c" and "n \<le> length (cursor_contents bl c)"
  shows "\<exists>c'. cursor_advance bl c n = Ok c' \<and> cursor_inv bl c'
    \<and> cursor_contents bl c' = drop n (cursor_contents bl c) \<and> pos_total c' = pos_total c + n"
  using cursor_advance_loop_spec [OF assms] assms(3)
  by (auto simp: cursor_advance_def assert_then_def cursor_contents_def buf_remaining_eq add.commute)

lemma cursor_inv_start: "buf_inv bl \<Longrightarrow> cursor_inv bl (buf_cursor bl)"
  by (cases bl) (auto simp: cursor_inv_def buf_cursor_def)

text \<open>A cursor over one fixed buffer.\<close>

interpretation cursor: byte_source "\<lambda>(bl, c). cursor_contents bl c" "\<lambda>(bl, c). buf_inv bl \<and> cursor_inv bl c"
  "\<lambda>(bl, c). cursor_remaining bl c" "\<lambda>(bl, c). cursor_chunk bl c"
  "\<lambda>(bl, c) n. map_ok (Pair bl) (cursor_advance bl c n)"
proof (unfold_locales, goal_cases)
  case (1 s)
  then show ?case
    by (cases s) (simp add: cursor_remaining_def cursor_contents_def buf_remaining_eq)
next
  case (2 s)
  obtain bl c where s: "s = (bl, c)" by (cases s)
  have i: "cursor_index c < length bl"
    using 2 cursor_contents_end [of bl c] by (auto simp: s)
  have "drop (pos_front c) (bl ! cursor_index c) \<noteq> []"
    using 2 i by (simp add: s cursor_inv_def)
  then show ?case
    using cursor_contents_split [of bl c] 2 i by (simp add: s cursor_chunk_def assert_then_def)
next
  case (3 s n)
  then show ?case
    using cursor_advance_spec [of "fst s" "snd s" n] by (cases s) (auto simp: res_simps)
qed

text \<open>
  C39: the chunked buffer is a byte string. For every buffer without empty chunks: a cursor
  that has advanced by \<open>n\<close> within the buffer stands on what \<open>advance\<close> by \<open>n\<close> leaves, and
  reports \<open>n\<close> as its position; both panic on an advance past the end; and \<open>take_chunk\<close>
  splits off a prefix of at most the given length, non-empty if anything was asked for and
  is there.
\<close>

theorem buffer_is_byte_string:
  assumes "buf_inv bl"
  shows "(if n \<le> length (buf_contents bl)
     then (\<exists>bl' c'. buf_advance bl n = Ok bl' \<and> cursor_advance bl (buf_cursor bl) n = Ok c'
        \<and> buf_inv bl' \<and> buf_contents bl' = drop n (buf_contents bl)
        \<and> cursor_contents bl c' = buf_contents bl' \<and> pos_total c' = n)
     else buf_advance bl n = Panic \<and> cursor_advance bl (buf_cursor bl) n = Panic)
   \<and> (case take_chunk bl n of
        (None, bl') \<Rightarrow> buf_contents bl = [] \<and> bl' = []
      | (Some c, bl') \<Rightarrow> buf_contents bl = c @ buf_contents bl' \<and> buf_inv bl' \<and> length c \<le> n
          \<and> (c = [] \<longleftrightarrow> n = 0))"
    (is "?advance \<and> ?take")
proof
  have "cursor_contents bl (buf_cursor bl) = buf_contents bl"
    by (simp add: cursor_contents_def buf_cursor_def)
  then show ?advance
    using buf_list.advance_drop [OF assms, of n] cursor_advance_spec [OF assms cursor_inv_start [OF assms], of n]
      buf_advance_too_far [of bl n]
    by (auto simp: cursor_advance_def assert_then_def buf_remaining_eq buf_cursor_def)
  show ?take
    using take_chunk_spec [OF assms, of n]
    by (auto simp: take_chunk_def [of "[]"] split: prod.splits option.splits)
qed

theorem buffer_is_byte_string_witness:
  "\<exists>bl' c'. buf_advance [[1, 2], [3 :: u8, 4]] 3 = Ok bl'
     \<and> cursor_advance [[1, 2], [3, 4]] (buf_cursor [[1, 2], [3, 4]]) 3 = Ok c'
     \<and> buf_contents bl' = [4] \<and> cursor_contents [[1, 2], [3, 4]] c' = [4]"
  using buffer_is_byte_string [of "[[1, 2], [3, 4]]" 3] by auto

end
