(* ===== verification/FrameStream.thy ===== *)
theory FrameStream
  imports Frames Buffers
begin

text \<open>
  Reading frames from a QUIC stream: \<open>BufRecvStream\<close> (\<open>h3/src/stream.rs\<close>), and
  \<open>FrameDecoder\<close> and \<open>FrameStream\<close> (\<open>h3/src/frame.rs\<close>). The transport is not part
  of the repository; a receive stream is given by the answers its \<open>poll_data\<close> will give
  (data, end of stream, an error, or pending), one per poll, and is pending when the list is
  exhausted. A poll that returns \<open>Pending\<close> is resumed by calling the operation again.
\<close>

section \<open>Model: the receive stream\<close>

datatype connection_error_incoming =
    ApplicationClose u64
  | ConnectionClosed u64
  | Timeout
  | InternalErrorIncoming string
  | Undefined

datatype stream_error_incoming =
    ConnectionErrorIncoming connection_error_incoming
  | StreamTerminated u64
  | UnknownError

datatype 'a poll = Pending | Ready 'a

datatype recv_event =
    PollPending
  | PollData bytes
  | PollEnd
  | PollError stream_error_incoming

record recv_stream =
  rs_buf :: buf_list
  rs_eos :: bool
  rs_transport :: "recv_event list"

definition recv_stream_new :: "recv_event list \<Rightarrow> recv_stream" where
  "recv_stream_new tr = \<lparr>rs_buf = [], rs_eos = False, rs_transport = tr\<rparr>"

text \<open>\<open>BufRecvStream::poll_read\<close>.\<close>

definition poll_read :: "recv_stream \<Rightarrow> (stream_error_incoming, bool) result poll \<times> recv_stream" where
  "poll_read s =
     (case rs_transport s of
        [] \<Rightarrow> (Pending, s)
      | ev # evs \<Rightarrow>
          let s1 = s\<lparr>rs_transport := evs\<rparr> in
          (case ev of
             PollPending \<Rightarrow> (Pending, s1)
           | PollError e \<Rightarrow> (Ready (Err e), s1)
           | PollData d \<Rightarrow>
               (case push_bytes (rs_buf s1) d of
                  Ok bl \<Rightarrow> (Ready (Ok False), s1\<lparr>rs_buf := bl\<rparr>)
                | _ \<Rightarrow> (Ready Panic, s1))
           | PollEnd \<Rightarrow> (Ready (Ok True), s1\<lparr>rs_eos := True\<rparr>)))"

text \<open>\<open>poll_data\<close> of the \<open>RecvStream\<close> implementation: buffered chunks first.\<close>

definition recv_poll_data ::
    "recv_stream \<Rightarrow> (stream_error_incoming, bytes option) result poll \<times> recv_stream" where
  "recv_poll_data s =
     (case take_first_chunk (rs_buf s) of
        (Some c, bl) \<Rightarrow> (Ready (Ok (Some c)), s\<lparr>rs_buf := bl\<rparr>)
      | (None, bl) \<Rightarrow>
          (case rs_transport s of
             [] \<Rightarrow> (Pending, s)
           | ev # evs \<Rightarrow>
               let s1 = s\<lparr>rs_transport := evs\<rparr> in
               (case ev of
                  PollPending \<Rightarrow> (Pending, s1)
                | PollError e \<Rightarrow> (Ready (Err e), s1)
                | PollData d \<Rightarrow> (Ready (Ok (Some d)), s1)
                | PollEnd \<Rightarrow> (Ready (Ok None), s1\<lparr>rs_eos := True\<rparr>))))"

section \<open>Model: the frame decoder\<close>

datatype frame_protocol_error =
    PMalformed
  | PForbiddenFrame u64
  | PInvalidFrameValue
  | PSettings settings_error
  | PInvalidStreamId invalid_stream_id
  | PInvalidPushId invalid_push_id

datatype frame_stream_error =
    Proto frame_protocol_error
  | Quic stream_error_incoming
  | StreamUnexpectedEnd

type_synonym recv_frame = "nat frame"

text \<open>
  \<open>FrameDecoder::decode\<close>: the state is the \<open>expected\<close> length and the buffer. The cursor
  over the buffer is its contents (theory Buffers), and its position what \<open>Frame::decode\<close>
  has consumed. The loop runs once more per unknown frame, each of which takes bytes.
\<close>

function decoder_decode :: "nat option \<Rightarrow> buf_list \<Rightarrow>
    (frame_stream_error, recv_frame option) result \<times> nat option \<times> buf_list" where
  "decoder_decode expected src =
     (if buf_remaining src = 0 then (Ok None, expected, src)
      else if (case expected of Some needed \<Rightarrow> buf_remaining src < needed | None \<Rightarrow> False)
      then (Ok None, expected, src)
      else
        (case frame_decode (buf_contents src) of
           Err (FUnknownFrame ty, rest) \<Rightarrow>
             (case buf_advance src (buf_remaining src - length rest) of
                Ok src1 \<Rightarrow> decoder_decode None src1
              | _ \<Rightarrow> (Panic, expected, src))
         | Err (FIncomplete needed, rest) \<Rightarrow> (Ok None, Some needed, src)
         | Ok (frame, rest) \<Rightarrow>
             (case buf_advance src (buf_remaining src - length rest) of
                Ok src1 \<Rightarrow> (Ok (Some frame), None, src1)
              | _ \<Rightarrow> (Panic, expected, src))
         | Err (FInvalidStreamId e, rest) \<Rightarrow> (Err (Proto (PInvalidStreamId e)), expected, src)
         | Err (FInvalidPushId e, rest) \<Rightarrow> (Err (Proto (PInvalidPushId e)), expected, src)
         | Err (FSettings e, rest) \<Rightarrow> (Err (Proto (PSettings e)), expected, src)
         | Err (FUnsupportedFrame ty, rest) \<Rightarrow> (Err (Proto (PForbiddenFrame ty)), expected, src)
         | Err (FInvalidFrameValue, rest) \<Rightarrow> (Err (Proto PInvalidFrameValue), expected, src)
         | Err (FMalformed, rest) \<Rightarrow> (Err (Proto PMalformed), expected, src)
         | Panic \<Rightarrow> (Panic, expected, src)))"
  by pat_completeness auto

lemma decoder_progress:
  assumes "frame_decode (buf_contents src) = Err (FUnknownFrame ty, rest)"
    and "buf_advance src (buf_remaining src - length rest) = Ok src1"
  shows "buf_remaining src1 < buf_remaining src"
  using frame_decode_unknown_shorter [OF assms(1)] buf_advance_remaining [OF assms(2)]
  by (simp add: buf_remaining_eq)

termination decoder_decode
  by (relation "measure (\<lambda>(expected, src). buf_remaining src)") (auto dest: decoder_progress)

declare decoder_decode.simps [simp del]

section \<open>Model: the frame stream\<close>

record frame_stream =
  fs_stream :: recv_stream
  fs_expected :: "nat option"
  remaining_data :: nat

definition frame_stream_new :: "recv_stream \<Rightarrow> frame_stream" where
  "frame_stream_new st = \<lparr>fs_stream = st, fs_expected = None, remaining_data = 0\<rparr>"

definition try_recv :: "frame_stream \<Rightarrow> (frame_stream_error, bool) result poll \<times> frame_stream" where
  "try_recv s =
     (if rs_eos (fs_stream s) then (Ready (Ok True), s)
      else
        (case poll_read (fs_stream s) of
           (Pending, st) \<Rightarrow> (Pending, s\<lparr>fs_stream := st\<rparr>)
         | (Ready r, st) \<Rightarrow> (Ready (map_err Quic r), s\<lparr>fs_stream := st\<rparr>)))"

definition has_data :: "frame_stream \<Rightarrow> bool" where
  "has_data s \<longleftrightarrow> remaining_data s \<noteq> 0"

definition is_eos :: "frame_stream \<Rightarrow> bool" where
  "is_eos s \<longleftrightarrow> rs_eos (fs_stream s) \<and> buf_remaining (rs_buf (fs_stream s)) = 0"

text \<open>The loop of \<open>poll_next\<close>: it goes on only after a chunk was received.\<close>

function poll_next_loop ::
    "frame_stream \<Rightarrow> (frame_stream_error, recv_frame option) result poll \<times> frame_stream" where
  "poll_next_loop s =
     (case decoder_decode (fs_expected s) (rs_buf (fs_stream s)) of
        (r, expected, bl) \<Rightarrow>
          let s1 = s\<lparr>fs_stream := (fs_stream s)\<lparr>rs_buf := bl\<rparr>, fs_expected := expected\<rparr> in
          (case r of
             Err e \<Rightarrow> (Ready (Err e), s1)
           | Panic \<Rightarrow> (Ready Panic, s1)
           | Ok (Some (Data n)) \<Rightarrow> (Ready (Ok (Some (Data n))), s1\<lparr>remaining_data := n\<rparr>)
           | Ok (Some (WebTransportStream i)) \<Rightarrow>
               (Ready (Ok (Some (WebTransportStream i))), s1\<lparr>remaining_data := usize_max\<rparr>)
           | Ok (Some f) \<Rightarrow> (Ready (Ok (Some f)), s1)
           | Ok None \<Rightarrow>
               (case try_recv s1 of
                  (Ready (Ok False), s2) \<Rightarrow> poll_next_loop s2
                | (Pending, s2) \<Rightarrow> (Pending, s2)
                | (Ready (Ok True), s2) \<Rightarrow>
                    if buf_remaining (rs_buf (fs_stream s2)) > 0
                    then (Ready (Err StreamUnexpectedEnd), s2)
                    else (Ready (Ok None), s2)
                | (Ready (Err e), s2) \<Rightarrow> (Ready (Err e), s2)
                | (Ready Panic, s2) \<Rightarrow> (Ready Panic, s2))))"
  by pat_completeness auto

lemma poll_read_false_shorter:
  "poll_read st = (Ready (Ok False), st') \<Longrightarrow> length (rs_transport st') < length (rs_transport st)"
  by (auto simp: poll_read_def Let_def split: list.splits recv_event.splits result.splits)

lemma try_recv_false_shorter:
  "try_recv s = (Ready (Ok False), s') \<Longrightarrow>
   length (rs_transport (fs_stream s')) < length (rs_transport (fs_stream s))"
  by (auto simp: try_recv_def dest!: poll_read_false_shorter split: if_splits prod.splits poll.splits)

termination poll_next_loop
  by (relation "measure (\<lambda>s. length (rs_transport (fs_stream s)))")
    (auto dest!: try_recv_false_shorter [OF sym])

declare poll_next_loop.simps [simp del]

definition poll_next ::
    "frame_stream \<Rightarrow> (frame_stream_error, recv_frame option) result poll \<times> frame_stream" where
  "poll_next s = (if remaining_data s = 0 then poll_next_loop s else (Ready Panic, s))"

text \<open>The second half of \<open>poll_data\<close>, after the transport was asked.\<close>

definition deliver_chunk :: "bool \<Rightarrow> frame_stream \<Rightarrow>
    (frame_stream_error, bytes option) result poll \<times> frame_stream" where
  "deliver_chunk eos s =
     (case take_chunk (rs_buf (fs_stream s)) (remaining_data s) of
        (data, bl) \<Rightarrow>
          let s1 = s\<lparr>fs_stream := (fs_stream s)\<lparr>rs_buf := bl\<rparr>\<rparr> in
          (case data of
             None \<Rightarrow> if eos then (Ready (Ok None), s1) else (Pending, s1)
           | Some d \<Rightarrow>
               if eos \<and> length d < remaining_data s1 \<and> buf_remaining bl = 0
               then (Ready (Err StreamUnexpectedEnd), s1)
               else (Ready (Ok (Some d)), s1\<lparr>remaining_data := remaining_data s1 - length d\<rparr>)))"

definition poll_data ::
    "frame_stream \<Rightarrow> (frame_stream_error, bytes option) result poll \<times> frame_stream" where
  "poll_data s =
     (if remaining_data s = 0 then (Ready (Ok None), s)
      else
        (case try_recv s of
           (Ready (Ok eos), s1) \<Rightarrow> deliver_chunk eos s1
         | (Ready (Err e), s1) \<Rightarrow> (Ready (Err e), s1)
         | (Ready Panic, s1) \<Rightarrow> (Ready Panic, s1)
         | (Pending, s1) \<Rightarrow> deliver_chunk False s1))"

text \<open>\<open>split\<close>: the receiving half keeps the buffer and the decoder, the sending half has none.\<close>

definition frame_stream_split :: "frame_stream \<Rightarrow> frame_stream \<times> frame_stream" where
  "frame_stream_split s =
     (\<lparr>fs_stream = \<lparr>rs_buf = [], rs_eos = rs_eos (fs_stream s), rs_transport = []\<rparr>,
       fs_expected = None, remaining_data = 0\<rparr>,
      \<lparr>fs_stream = fs_stream s, fs_expected = fs_expected s, remaining_data = remaining_data s\<rparr>)"

section \<open>The specification: frames of a byte string\<close>

datatype parsed =
    Parsed recv_frame bytes
  | Partial bytes
  | Bad frame_protocol_error
  | Stuck

fun protocol_error :: "frame_error \<Rightarrow> frame_protocol_error option" where
  "protocol_error FMalformed = Some PMalformed"
| "protocol_error (FUnsupportedFrame ty) = Some (PForbiddenFrame ty)"
| "protocol_error FInvalidFrameValue = Some PInvalidFrameValue"
| "protocol_error (FSettings e) = Some (PSettings e)"
| "protocol_error (FInvalidStreamId e) = Some (PInvalidStreamId e)"
| "protocol_error (FInvalidPushId e) = Some (PInvalidPushId e)"
| "protocol_error (FUnknownFrame ty) = None"
| "protocol_error (FIncomplete n) = None"

function next_frame :: "bytes \<Rightarrow> parsed" where
  "next_frame bs =
     (case frame_decode bs of
        Ok (f, rest) \<Rightarrow> Parsed f rest
      | Err (e, rest) \<Rightarrow>
          (case e of
             FUnknownFrame ty \<Rightarrow> next_frame rest
           | FIncomplete n \<Rightarrow> Partial bs
           | _ \<Rightarrow> Bad (the (protocol_error e)))
      | Panic \<Rightarrow> Stuck)"
  by pat_completeness auto

termination next_frame
  by (relation "measure length") (auto dest: frame_decode_unknown_shorter)

declare next_frame.simps [simp del]

lemma next_frame_step:
  "frame_decode bs = Ok (f, rest) \<Longrightarrow> next_frame bs = Parsed f rest"
  "frame_decode bs = Err (FUnknownFrame ty, rest) \<Longrightarrow> next_frame bs = next_frame rest"
  "frame_decode bs = Err (FIncomplete n, rest) \<Longrightarrow> next_frame bs = Partial bs"
  "frame_decode bs = Err (e, rest) \<Longrightarrow> protocol_error e = Some pe \<Longrightarrow> next_frame bs = Bad pe"
  by (simp_all add: next_frame.simps [of bs] split: frame_error.splits) auto

lemma frame_decode_not_Panic: "frame_decode bs \<noteq> Panic"
  using frame_decode_spec [of bs "[]"] by auto

text \<open>The outcomes of one step, and that they do not depend on what arrives later.\<close>

lemma frame_decode_cases:
  obtains (frame) f rest where "frame_decode bs = Ok (f, rest)"
    and "\<And>later. frame_decode (bs @ later) = Ok (f, rest @ later)"
  | (unknown) ty rest where "frame_decode bs = Err (FUnknownFrame ty, rest)"
    and "\<And>later. frame_decode (bs @ later) = Err (FUnknownFrame ty, rest @ later)"
    and "length rest < length bs"
  | (incomplete) n rest where "frame_decode bs = Err (FIncomplete n, rest)"
    and "\<And>later. incomplete (frame_decode (bs @ later)) \<or> n \<le> length (bs @ later)"
  | (bad) e pe rest where "frame_decode bs = Err (e, rest)" and "protocol_error e = Some pe"
    and "\<And>later. frame_decode (bs @ later) = Err (e, rest @ later)"
proof (cases "frame_decode bs")
  case (Ok p)
  then show ?thesis
    using frame(1) [of "fst p" "snd p"] frame_decode_spec [of bs] by (cases p) (auto simp: frame)
next
  case (Err p)
  obtain e rest where p: "p = (e, rest)" by (cases p)
  show ?thesis
  proof (cases "protocol_error e")
    case (Some pe)
    then show ?thesis
      using bad [of e rest pe] Err p frame_decode_spec [of bs] by (cases e) auto
  next
    case None
    then show ?thesis
      using Err p frame_decode_spec [of bs] unknown incomplete frame_decode_unknown_shorter [of bs]
      by (cases e) auto
  qed
qed (simp add: frame_decode_not_Panic)

lemma next_frame_append:
  "case next_frame bs of
     Parsed f rest \<Rightarrow> next_frame (bs @ later) = Parsed f (rest @ later)
   | Bad e \<Rightarrow> next_frame (bs @ later) = Bad e
   | Partial rest \<Rightarrow> next_frame (bs @ later) = next_frame (rest @ later)
   | Stuck \<Rightarrow> False"
proof (induction bs rule: length_induct)
  case (1 bs)
  show ?case
  proof (cases bs rule: frame_decode_cases)
    case (unknown ty rest)
    have eqs: "next_frame bs = next_frame rest" "next_frame (bs @ later) = next_frame (rest @ later)"
      using next_frame_step(2) [OF unknown(1)] next_frame_step(2) [OF unknown(2)] by blast+
    show ?thesis using 1 unknown(3) unfolding eqs by blast
  next
    case (bad e pe rest)
    have "next_frame bs = Bad pe" "next_frame (bs @ later) = Bad pe"
      using next_frame_step(4) bad by blast+
    then show ?thesis by simp
  qed (simp_all add: next_frame_step)
qed

section \<open>The decoder refines the specification\<close>

text \<open>
  The remembered length never hides a frame: unless the buffer has it, decoding would be
  incomplete anyway.
\<close>

definition hint_ok :: "nat option \<Rightarrow> bytes \<Rightarrow> bool" where
  "hint_ok expected bs \<longleftrightarrow>
     (\<forall>n. expected = Some n \<longrightarrow> (\<forall>later. incomplete (frame_decode (bs @ later)) \<or> n \<le> length (bs @ later)))"

lemma hint_ok_None [simp]: "hint_ok None bs"
  by (simp add: hint_ok_def)

lemma hint_ok_append: "hint_ok e bs \<Longrightarrow> hint_ok e (bs @ later)"
  unfolding hint_ok_def by (metis append_assoc)

lemma incomplete_Partial: "incomplete (frame_decode bs) \<Longrightarrow> next_frame bs = Partial bs"
  by (cases "frame_decode bs" rule: incomplete.cases) (auto simp: next_frame_step(3))

lemma frame_decode_Nil: "frame_decode [] = Err (FIncomplete 1, [])"
  by (simp add: frame_decode_def frame_type_decode_def get_var_def varint_decode_def)

lemma advance_to_rest:
  assumes "buf_inv src" and "buf_contents src = p @ rest"
  shows "\<exists>src1. buf_advance src (buf_remaining src - length rest) = Ok src1 \<and> buf_inv src1
    \<and> buf_contents src1 = rest"
  using buf_list.advance_drop [OF assms(1), of "length p"] assms(2) by (simp add: buf_remaining_eq)

lemma decoder_decode_spec:
  assumes "buf_inv src" and "hint_ok expected (buf_contents src)"
    and "decoder_decode expected src = (r, expected', src')"
  shows "case next_frame (buf_contents src) of
     Parsed f rest \<Rightarrow> r = Ok (Some f) \<and> buf_inv src' \<and> expected' = None \<and> buf_contents src' = rest
   | Partial rest \<Rightarrow> r = Ok None \<and> buf_inv src' \<and> hint_ok expected' (buf_contents src')
       \<and> buf_contents src' = rest
   | Bad e \<Rightarrow> r = Err (Proto e)
   | Stuck \<Rightarrow> False"
  using assms
proof (induction expected src rule: decoder_decode.induct)
  case (1 expected src)
  let ?bs = "buf_contents src"
  consider (empty) "buf_remaining src = 0"
    | (wait) n where "buf_remaining src \<noteq> 0" "expected = Some n" "buf_remaining src < n"
    | (go) "buf_remaining src \<noteq> 0" "\<not> (case expected of Some n \<Rightarrow> buf_remaining src < n | None \<Rightarrow> False)"
    by (cases expected) auto
  then show ?case
  proof cases
    case empty
    then have "?bs = []" by (simp add: buf_remaining_eq)
    moreover have "next_frame [] = Partial []"
      using next_frame_step(3) [OF frame_decode_Nil] .
    ultimately show ?thesis using 1 empty by (simp add: decoder_decode.simps)
  next
    case wait
    then have "incomplete (frame_decode ?bs)"
      using 1(3) by (auto simp: hint_ok_def buf_remaining_eq dest: spec [of _ "[]"])
    then show ?thesis
      using 1(2,3,4) wait by (simp add: decoder_decode.simps [of "Some n" src] incomplete_Partial)
  next
    case go
    show ?thesis
    proof (cases ?bs rule: frame_decode_cases)
      case (frame f rest)
      obtain p where "?bs = p @ rest" using frame_decode_Ok_suffix frame(1) by blast
      then obtain src1 where "buf_advance src (buf_remaining src - length rest) = Ok src1"
        "buf_inv src1" "buf_contents src1 = rest"
        using advance_to_rest [OF 1(2)] by blast
      then show ?thesis
        using 1(4) go frame by (simp add: decoder_decode.simps [of expected src] next_frame_step)
    next
      case (unknown ty rest)
      obtain p where "?bs = p @ rest" using frame_decode_unknown_suffix unknown(1) by blast
      then obtain src1 where src1: "buf_advance src (buf_remaining src - length rest) = Ok src1"
        "buf_inv src1" "buf_contents src1 = rest"
        using advance_to_rest [OF 1(2)] by blast
      then have "decoder_decode None src1 = (r, expected', src')"
        using 1(4) go unknown by (simp add: decoder_decode.simps [of expected src])
      then show ?thesis
        using 1(1) [OF go unknown(1) refl refl src1(1) src1(2)] src1(3) unknown(1)
        by (simp add: next_frame_step)
    next
      case (incomplete n rest)
      then have "hint_ok (Some n) ?bs" by (simp add: hint_ok_def)
      then show ?thesis
        using 1(2,4) go incomplete by (simp add: decoder_decode.simps [of expected src] next_frame_step)
    next
      case (bad e pe rest)
      have "next_frame ?bs = Bad pe"
        using next_frame_step(4) bad(1,2) by blast
      then show ?thesis
        using 1(4) go bad(1,2) by (cases e) (auto simp: decoder_decode.simps [of expected src])
    qed
  qed
qed

section \<open>The frame stream refines the specification\<close>

text \<open>The bytes that are still to come: those in the buffer and those of the transport up to its end.\<close>

fun pending_bytes :: "recv_event list \<Rightarrow> bytes" where
  "pending_bytes [] = []"
| "pending_bytes (PollPending # evs) = pending_bytes evs"
| "pending_bytes (PollData d # evs) = d @ pending_bytes evs"
| "pending_bytes (PollEnd # evs) = []"
| "pending_bytes (PollError e # evs) = []"

definition stream_bytes :: "recv_stream \<Rightarrow> bytes" where
  "stream_bytes st = buf_contents (rs_buf st) @ (if rs_eos st then [] else pending_bytes (rs_transport st))"

text \<open>A transport delivers no empty chunks (\<open>push_bytes\<close> asserts it).\<close>

definition recv_inv :: "recv_stream \<Rightarrow> bool" where
  "recv_inv st \<longleftrightarrow> buf_inv (rs_buf st) \<and> PollData [] \<notin> set (rs_transport st)"

definition frame_stream_inv :: "frame_stream \<Rightarrow> bool" where
  "frame_stream_inv s \<longleftrightarrow>
     recv_inv (fs_stream s) \<and> hint_ok (fs_expected s) (buf_contents (rs_buf (fs_stream s)))"

abbreviation fs_bytes :: "frame_stream \<Rightarrow> bytes" where
  "fs_bytes s \<equiv> stream_bytes (fs_stream s)"

abbreviation fs_buffered :: "frame_stream \<Rightarrow> bytes" where
  "fs_buffered s \<equiv> buf_contents (rs_buf (fs_stream s))"

lemma try_recv_spec:
  assumes "frame_stream_inv s" and "try_recv s = (p, s')"
  shows "remaining_data s' = remaining_data s \<and> fs_expected s' = fs_expected s
    \<and> (case p of
         Ready (Ok False) \<Rightarrow> frame_stream_inv s' \<and> fs_bytes s' = fs_bytes s
           \<and> (\<exists>d. fs_buffered s' = fs_buffered s @ d)
           \<and> length (rs_transport (fs_stream s')) < length (rs_transport (fs_stream s))
       | Ready (Ok True) \<Rightarrow> frame_stream_inv s' \<and> fs_bytes s = fs_buffered s
           \<and> rs_buf (fs_stream s') = rs_buf (fs_stream s) \<and> rs_eos (fs_stream s')
       | Ready (Err e) \<Rightarrow> \<exists>q. e = Quic q \<and> PollError q \<in> set (rs_transport (fs_stream s))
           \<and> fs_bytes s = fs_buffered s
       | Ready Panic \<Rightarrow> False
       | Pending \<Rightarrow> frame_stream_inv s' \<and> fs_bytes s' = fs_bytes s
           \<and> rs_buf (fs_stream s') = rs_buf (fs_stream s)
           \<and> (if rs_transport (fs_stream s) = [] then s' = s
              else length (rs_transport (fs_stream s')) < length (rs_transport (fs_stream s))))"
proof (cases "rs_eos (fs_stream s)")
  case True
  then show ?thesis
    using assms by (auto simp: try_recv_def stream_bytes_def)
next
  case False
  show ?thesis
  proof (cases "rs_transport (fs_stream s)")
    case Nil
    then show ?thesis
      using assms False by (auto simp: try_recv_def poll_read_def)
  next
    case (Cons ev evs)
    then show ?thesis
      using assms False
      by (cases ev) (auto simp: try_recv_def poll_read_def Let_def push_bytes_spec stream_bytes_def
        frame_stream_inv_def recv_inv_def hint_ok_append split: if_splits)
  qed
qed

text \<open>One round of \<open>poll_next\<close>, up to the request for more data.\<close>

definition decoded :: "frame_stream \<Rightarrow> (frame_stream_error, recv_frame option) result \<times> frame_stream" where
  "decoded s =
     (case decoder_decode (fs_expected s) (rs_buf (fs_stream s)) of
        (r, expected, bl) \<Rightarrow>
          (r, s\<lparr>fs_stream := (fs_stream s)\<lparr>rs_buf := bl\<rparr>, fs_expected := expected\<rparr>))"

lemma decoded_spec:
  assumes "frame_stream_inv s" and "decoded s = (r, s1)"
  shows "case next_frame (fs_buffered s) of
     Parsed f rest \<Rightarrow> r = Ok (Some f) \<and> frame_stream_inv s1 \<and> fs_expected s1 = None
       \<and> fs_buffered s1 = rest
       \<and> next_frame (fs_bytes s) = Parsed f (fs_bytes s1)
   | Partial rest \<Rightarrow> r = Ok None \<and> frame_stream_inv s1 \<and> fs_buffered s1 = rest
       \<and> next_frame (fs_bytes s) = next_frame (fs_bytes s1) \<and> next_frame (fs_buffered s1) = Partial rest
   | Bad e \<Rightarrow> r = Err (Proto e) \<and> next_frame (fs_bytes s) = Bad e
   | Stuck \<Rightarrow> False"
    and "remaining_data s1 = remaining_data s"
    and "rs_eos (fs_stream s1) = rs_eos (fs_stream s)"
    and "rs_transport (fs_stream s1) = rs_transport (fs_stream s)"
proof -
  obtain expected bl where d: "decoder_decode (fs_expected s) (rs_buf (fs_stream s)) = (r, expected, bl)"
    and s1: "s1 = s\<lparr>fs_stream := (fs_stream s)\<lparr>rs_buf := bl\<rparr>, fs_expected := expected\<rparr>"
    using assms(2) by (auto simp: decoded_def split: prod.splits)
  define later where "later = stream_bytes ((fs_stream s)\<lparr>rs_buf := []\<rparr>)"
  have bs: "fs_bytes s = fs_buffered s @ later" "fs_bytes s1 = buf_contents bl @ later"
    by (simp_all add: later_def s1 stream_bytes_def)
  have inv: "buf_inv (rs_buf (fs_stream s))" "hint_ok (fs_expected s) (fs_buffered s)"
    using assms(1) by (auto simp: frame_stream_inv_def recv_inv_def)
  note spec = decoder_decode_spec [OF inv d]
  note more = next_frame_append [of "fs_buffered s" later]
  have part: "next_frame rest = Partial rest" if "next_frame (fs_buffered s) = Partial rest" for rest
    using next_frame_append [of "fs_buffered s" "[]"] that by simp
  have inv1: "frame_stream_inv s1" if "buf_inv bl" "hint_ok expected (buf_contents bl)"
    using that assms(1) by (simp add: frame_stream_inv_def recv_inv_def s1)
  show "case next_frame (fs_buffered s) of
     Parsed f rest \<Rightarrow> r = Ok (Some f) \<and> frame_stream_inv s1 \<and> fs_expected s1 = None
       \<and> fs_buffered s1 = rest
       \<and> next_frame (fs_bytes s) = Parsed f (fs_bytes s1)
   | Partial rest \<Rightarrow> r = Ok None \<and> frame_stream_inv s1 \<and> fs_buffered s1 = rest
       \<and> next_frame (fs_bytes s) = next_frame (fs_bytes s1) \<and> next_frame (fs_buffered s1) = Partial rest
   | Bad e \<Rightarrow> r = Err (Proto e) \<and> next_frame (fs_bytes s) = Bad e
   | Stuck \<Rightarrow> False"
    using spec more part inv1 unfolding bs by (auto simp: s1 split: parsed.splits)
qed (use assms(2) in \<open>auto simp: decoded_def split: prod.splits\<close>)

lemma poll_next_loop_decoded:
  "poll_next_loop s =
     (case decoded s of
        (Err e, s1) \<Rightarrow> (Ready (Err e), s1)
      | (Panic, s1) \<Rightarrow> (Ready Panic, s1)
      | (Ok (Some f), s1) \<Rightarrow>
          (Ready (Ok (Some f)),
           case f of
             Data n \<Rightarrow> s1\<lparr>remaining_data := n\<rparr>
           | WebTransportStream i \<Rightarrow> s1\<lparr>remaining_data := usize_max\<rparr>
           | _ \<Rightarrow> s1)
      | (Ok None, s1) \<Rightarrow>
          (case try_recv s1 of
             (Ready (Ok False), s2) \<Rightarrow> poll_next_loop s2
           | (Pending, s2) \<Rightarrow> (Pending, s2)
           | (Ready (Ok True), s2) \<Rightarrow>
               if buf_remaining (rs_buf (fs_stream s2)) > 0
               then (Ready (Err StreamUnexpectedEnd), s2)
               else (Ready (Ok None), s2)
           | (Ready (Err e), s2) \<Rightarrow> (Ready (Err e), s2)
           | (Ready Panic, s2) \<Rightarrow> (Ready Panic, s2)))"
proof -
  obtain r expected bl where d: "decoder_decode (fs_expected s) (rs_buf (fs_stream s)) = (r, expected, bl)"
    by (cases "decoder_decode (fs_expected s) (rs_buf (fs_stream s))") auto
  show ?thesis
  proof (cases r)
    case (Ok fo)
    show ?thesis
    proof (cases fo)
      case (Some f)
      then show ?thesis
        using d Ok by (subst poll_next_loop.simps) (cases f; simp add: decoded_def Let_def)
    qed (use d Ok in \<open>subst poll_next_loop.simps, simp add: decoded_def Let_def\<close>)
  qed (use d in \<open>subst poll_next_loop.simps, simp add: decoded_def Let_def\<close>)+
qed

definition poll_next_post ::
    "frame_stream \<Rightarrow> (frame_stream_error, recv_frame option) result poll \<times> frame_stream \<Rightarrow> bool" where
  "poll_next_post s out \<longleftrightarrow>
     (case out of
        (Ready (Ok (Some f)), s') \<Rightarrow>
          frame_stream_inv s' \<and> fs_expected s' = None
          \<and> next_frame (fs_bytes s) = Parsed f (fs_bytes s')
          \<and> remaining_data s' =
              (case f of Data n \<Rightarrow> n | WebTransportStream i \<Rightarrow> usize_max | _ \<Rightarrow> 0)
      | (Ready (Ok None), s') \<Rightarrow> next_frame (fs_bytes s) = Partial []
      | (Ready (Err StreamUnexpectedEnd), s') \<Rightarrow> \<exists>rest. rest \<noteq> [] \<and> next_frame (fs_bytes s) = Partial rest
      | (Ready (Err (Proto e)), s') \<Rightarrow> next_frame (fs_bytes s) = Bad e
      | (Ready (Err (Quic e)), s') \<Rightarrow>
          PollError e \<in> set (rs_transport (fs_stream s)) \<and> (\<exists>rest. next_frame (fs_bytes s) = Partial rest)
      | (Ready Panic, s') \<Rightarrow> False
      | (Pending, s') \<Rightarrow>
          frame_stream_inv s' \<and> next_frame (fs_bytes s') = next_frame (fs_bytes s) \<and> remaining_data s' = 0
          \<and> (length (rs_transport (fs_stream s')) < length (rs_transport (fs_stream s))
             \<or> rs_transport (fs_stream s) = [] \<and> rs_transport (fs_stream s') = []
                \<and> next_frame (fs_bytes s) = Partial (fs_bytes s')))"

lemma frame_stream_inv_remaining [simp]:
  "frame_stream_inv (s\<lparr>remaining_data := n\<rparr>) = frame_stream_inv s"
  by (simp add: frame_stream_inv_def)

lemma try_recv_subset:
  "try_recv s = (p, s') \<Longrightarrow> set (rs_transport (fs_stream s')) \<subseteq> set (rs_transport (fs_stream s))"
  by (cases "rs_transport (fs_stream s)"; cases "hd (rs_transport (fs_stream s))")
    (auto simp: try_recv_def poll_read_def Let_def split: if_splits result.splits)

lemma poll_next_post_back:
  assumes "poll_next_post s2 out" and "next_frame (fs_bytes s) = next_frame (fs_bytes s2)"
    and "length (rs_transport (fs_stream s2)) < length (rs_transport (fs_stream s))"
    and "set (rs_transport (fs_stream s2)) \<subseteq> set (rs_transport (fs_stream s))"
  shows "poll_next_post s out"
proof -
  obtain p s' where out: "out = (p, s')" by (cases out)
  show ?thesis
  proof (cases p)
    case Pending
    then show ?thesis
      using assms by (auto simp: out poll_next_post_def)
  next
    case (Ready r)
    then show ?thesis
      using assms by (auto simp: out poll_next_post_def
        split: result.splits option.splits frame_stream_error.splits)
  qed
qed

lemma poll_next_loop_spec:
  assumes "frame_stream_inv s" and "remaining_data s = 0"
  shows "poll_next_post s (poll_next_loop s)"
  using assms
proof (induction s rule: measure_induct_rule [where f = "\<lambda>s. length (rs_transport (fs_stream s))"])
  case (less s)
  obtain r s1 where d: "decoded s = (r, s1)" by (cases "decoded s")
  note dec = decoded_spec [OF less.prems(1) d]
  show ?case
  proof (cases "next_frame (fs_buffered s)")
    case (Parsed f rest)
    then show ?thesis
      using dec less.prems(2) d
      by (cases f) (simp_all add: poll_next_loop_decoded poll_next_post_def)
  next
    case (Bad e)
    then show ?thesis
      using dec(1) d by (simp add: poll_next_loop_decoded poll_next_post_def)
  next
    case Stuck
    then show ?thesis using dec(1) by simp
  next
    case (Partial rest)
    then have r: "r = Ok None" and inv1: "frame_stream_inv s1"
      and eq: "next_frame (fs_bytes s) = next_frame (fs_bytes s1)"
      and part: "next_frame (fs_buffered s1) = Partial (fs_buffered s1)"
      using dec(1) by auto
    obtain p s2 where t: "try_recv s1 = (p, s2)" by (cases "try_recv s1")
    note tr = try_recv_spec [OF inv1 t]
    show ?thesis
    proof (cases p)
      case Pending
      then show ?thesis
        using tr d r t eq part dec(2,4) less.prems(2)
        by (auto simp: poll_next_loop_decoded [of s] poll_next_post_def stream_bytes_def split: if_splits)
    next
      case (Ready q)
      show ?thesis
      proof (cases q)
        case (Ok b)
        show ?thesis
        proof (cases b)
          case True
          then show ?thesis
            using tr d r t eq part Ready Ok
            by (auto simp: poll_next_loop_decoded [of s] poll_next_post_def buf_remaining_eq)
        next
          case False
          have step: "poll_next_loop s = poll_next_loop s2"
            using d r t Ready Ok False by (simp add: poll_next_loop_decoded [of s])
          have fewer: "length (rs_transport (fs_stream s2)) < length (rs_transport (fs_stream s))"
            and inv2: "frame_stream_inv s2" "remaining_data s2 = 0" and bs: "fs_bytes s2 = fs_bytes s1"
            using tr Ready Ok False dec(2,4) less.prems(2) by auto
          have sub: "set (rs_transport (fs_stream s2)) \<subseteq> set (rs_transport (fs_stream s))"
            using try_recv_subset [OF t] dec(4) by simp
          have ih: "poll_next_post s2 (poll_next_loop s2)"
            by (rule less.IH [OF fewer inv2])
          show ?thesis
            unfolding step by (rule poll_next_post_back [OF ih _ fewer sub]) (simp add: eq bs)
        qed
      next
        case (Err e)
        then show ?thesis
          using tr d r t eq part Ready dec(4)
          by (auto simp: poll_next_loop_decoded [of s] poll_next_post_def)
      next
        case Panic
        then show ?thesis using tr Ready by simp
      qed
    qed
  qed
qed

lemma frame_stream_inv_new:
  "PollData [] \<notin> set tr \<Longrightarrow> frame_stream_inv (frame_stream_new (recv_stream_new tr))"
  by (simp add: frame_stream_inv_def frame_stream_new_def recv_stream_new_def recv_inv_def)

text \<open>
  C6: \<open>poll_next\<close> refines the parser of the whole byte string, however the transport cuts
  it into chunks and whenever it is pending. A frame is returned exactly with the bytes that
  follow it still to come; the end is reported only if nothing but skipped unknown frames was
  there, an unexpected end only inside a frame; protocol errors are those of the parser,
  transport errors are passed on; a pending poll loses no byte; and it never panics when the
  data of the frame before has been read.
\<close>

theorem poll_next_refines:
  assumes "frame_stream_inv s" and "remaining_data s = 0"
  shows "poll_next_post s (poll_next s)"
  using poll_next_loop_spec [OF assms] assms(2) by (simp add: poll_next_def)

theorem poll_next_refines_witness:
  "poll_next_post (frame_stream_new (recv_stream_new [PollData [0x07], PollPending, PollData [0x01, 0x04]]))
     (poll_next (frame_stream_new (recv_stream_new [PollData [0x07], PollPending, PollData [0x01, 0x04]])))"
  by (intro poll_next_refines frame_stream_inv_new) (simp_all add: frame_stream_new_def)

lemma take_chunk_of_stream:
  assumes "frame_stream_inv s" and "take_chunk (rs_buf (fs_stream s)) n = (d, bl)"
    and "s1 = s\<lparr>fs_stream := (fs_stream s)\<lparr>rs_buf := bl\<rparr>\<rparr>" and "fs_expected s = None"
  shows "frame_stream_inv s1"
    and "fs_bytes s = (case d of None \<Rightarrow> [] | Some c \<Rightarrow> c) @ fs_bytes s1"
    and "d = None \<longleftrightarrow> fs_buffered s = []"
    and "\<And>c. d = Some c \<Longrightarrow> length c \<le> n \<and> (n > 0 \<longrightarrow> c \<noteq> [])"
proof -
  have inv: "buf_inv (rs_buf (fs_stream s))"
    using assms(1) by (simp add: frame_stream_inv_def recv_inv_def)
  note tc = take_chunk_spec [OF inv assms(2)]
  show "frame_stream_inv s1"
    using assms(1,3,4) tc(1) by (simp add: frame_stream_inv_def recv_inv_def)
  show "fs_bytes s = (case d of None \<Rightarrow> [] | Some c \<Rightarrow> c) @ fs_bytes s1"
    using tc(2) assms(3) by (simp add: stream_bytes_def)
  show "d = None \<longleftrightarrow> fs_buffered s = []"
    using tc(3) buf_contents_empty [OF inv] by simp
  show "\<And>c. d = Some c \<Longrightarrow> length c \<le> n \<and> (n > 0 \<longrightarrow> c \<noteq> [])"
    using tc(4) by blast
qed

definition poll_data_post ::
    "frame_stream \<Rightarrow> (frame_stream_error, bytes option) result poll \<times> frame_stream \<Rightarrow> bool" where
  "poll_data_post s out \<longleftrightarrow>
     (case out of
        (Ready (Ok (Some d)), s') \<Rightarrow>
          frame_stream_inv s' \<and> fs_expected s' = None \<and> d \<noteq> [] \<and> length d \<le> remaining_data s \<and> fs_bytes s = d @ fs_bytes s'
          \<and> remaining_data s' = remaining_data s - length d
      | (Ready (Ok None), s') \<Rightarrow> remaining_data s = 0 \<and> s' = s \<or> fs_bytes s = []
      | (Ready (Err StreamUnexpectedEnd), s') \<Rightarrow> length (fs_bytes s) < remaining_data s
      | (Ready (Err (Proto e)), s') \<Rightarrow> False
      | (Ready (Err (Quic e)), s') \<Rightarrow> PollError e \<in> set (rs_transport (fs_stream s))
      | (Ready Panic, s') \<Rightarrow> False
      | (Pending, s') \<Rightarrow>
          frame_stream_inv s' \<and> fs_bytes s' = fs_bytes s \<and> remaining_data s' = remaining_data s
          \<and> fs_expected s' = None \<and> fs_buffered s' = [])"

lemma poll_data_spec:
  assumes "frame_stream_inv s" and "fs_expected s = None"
  shows "poll_data_post s (poll_data s)"
proof (cases "remaining_data s = 0")
  case True
  then show ?thesis by (simp add: poll_data_def poll_data_post_def)
next
  case False
  obtain p s1 where t: "try_recv s = (p, s1)" by (cases "try_recv s")
  note tr = try_recv_spec [OF assms(1) t]
  obtain d bl where c: "take_chunk (rs_buf (fs_stream s1)) (remaining_data s1) = (d, bl)"
    by (cases "take_chunk (rs_buf (fs_stream s1)) (remaining_data s1)")
  define s2 where "s2 = s1\<lparr>fs_stream := (fs_stream s1)\<lparr>rs_buf := bl\<rparr>\<rparr>"
  have deliver: "poll_data_post s (deliver_chunk eos s1)"
    if inv: "frame_stream_inv s1" and eqs: "fs_bytes s1 = fs_bytes s"
      and eos: "eos \<longrightarrow> fs_bytes s1 = fs_buffered s1 \<and> rs_eos (fs_stream s1)" for eos
  proof -
    have ex: "fs_expected s1 = None" and rem: "remaining_data s1 = remaining_data s"
      using tr assms(2) by auto
    note tc = take_chunk_of_stream [OF inv c s2_def ex]
    have all: "eos \<Longrightarrow> fs_bytes s2 = buf_contents bl"
      using eos by (simp add: s2_def stream_bytes_def)
    show ?thesis
    proof (cases d)
      case None
      then have "bl = []" using c by (auto simp: take_chunk_def Let_def split: list.splits)
      then show ?thesis
        using tc None rem eqs eos c False ex
        by (auto simp: deliver_chunk_def poll_data_post_def Let_def s2_def)
    next
      case (Some x)
      then show ?thesis
        using tc rem eqs all c False ex
        by (auto simp: deliver_chunk_def poll_data_post_def Let_def buf_remaining_eq simp flip: s2_def)
          (auto simp: s2_def)
    qed
  qed
  show ?thesis
  proof (cases p)
    case Pending
    then show ?thesis
      using tr t False deliver [of False] by (simp add: poll_data_def)
  next
    case (Ready q)
    show ?thesis
    proof (cases q)
      case (Ok b)
      then show ?thesis
        using tr t False Ready deliver [of b] by (cases b) (auto simp: poll_data_def stream_bytes_def)
    qed (use tr t False Ready in \<open>auto simp: poll_data_def poll_data_post_def\<close>)
  qed
qed

text \<open>
  C29: \<open>poll_data\<close> delivers the bytes of the stream in order, none twice and none lost, never
  more than the DATA frame has left, and counts them; an unexpected end is reported only when
  the stream has fewer bytes left than the frame; it does not panic and is pending only with
  an empty buffer.
\<close>

theorem poll_data_delivers:
  assumes "frame_stream_inv s" and "fs_expected s = None"
  shows "poll_data_post s (poll_data s)"
  using assms by (rule poll_data_spec)

theorem poll_data_delivers_witness:
  "poll_data_post ((frame_stream_new (recv_stream_new [PollData [1, 2], PollEnd]))\<lparr>remaining_data := 3\<rparr>)
     (poll_data ((frame_stream_new (recv_stream_new [PollData [1, 2], PollEnd]))\<lparr>remaining_data := 3\<rparr>))"
  by (rule poll_data_delivers)
    (simp_all add: frame_stream_inv_new, simp add: frame_stream_new_def)

section \<open>The end of the stream inside a frame\<close>

text \<open>
  C40: a DATA frame cut short by the end of the stream is not always noticed. When the end
  arrives with an empty buffer, \<open>poll_data\<close> returns \<open>None\<close>, exactly as at the end of a
  complete frame, although data is missing, and the next \<open>poll_next\<close> panics.
\<close>

theorem truncated_data_ends_cleanly:
  assumes "rs_buf (fs_stream s) = []" and "\<not> rs_eos (fs_stream s)"
    and "rs_transport (fs_stream s) = PollEnd # evs" and "remaining_data s > 0"
  shows "\<exists>s'. poll_data s = (Ready (Ok None), s') \<and> remaining_data s' = remaining_data s
    \<and> fst (poll_next s') = Ready Panic"
  using assms
  by (simp add: poll_data_def try_recv_def poll_read_def Let_def deliver_chunk_def take_chunk_def poll_next_def)

theorem truncated_data_ends_cleanly_witness:
  "\<exists>s'. poll_data ((frame_stream_new (recv_stream_new [PollEnd]))\<lparr>remaining_data := 5\<rparr>) = (Ready (Ok None), s')
    \<and> remaining_data s' = 5 \<and> fst (poll_next s') = Ready Panic"
  using truncated_data_ends_cleanly [of "(frame_stream_new (recv_stream_new [PollEnd]))\<lparr>remaining_data := 5\<rparr>" "[]"]
  by (simp add: frame_stream_new_def recv_stream_new_def)

text \<open>
  A WebTransport stream whose last bytes are in the buffer when its end is read loses
  them: \<open>poll_data\<close> reports an unexpected end, although such a stream has no length and ends
  with the QUIC stream.
\<close>

theorem webtransport_tail_is_an_error:
  assumes "rs_buf (fs_stream s) = [d]" and "d \<noteq> []" and "length d < usize_max"
    and "\<not> rs_eos (fs_stream s)" and "rs_transport (fs_stream s) = PollEnd # evs"
    and "remaining_data s = usize_max"
  shows "\<exists>s'. poll_data s = (Ready (Err StreamUnexpectedEnd), s') \<and> rs_buf (fs_stream s') = []"
  using assms
  by (auto simp: poll_data_def try_recv_def poll_read_def Let_def deliver_chunk_def take_chunk_def
    usize_max_def buf_remaining_def)

theorem webtransport_tail_is_an_error_witness:
  "\<exists>s'. poll_data \<lparr>fs_stream = \<lparr>rs_buf = [[1]], rs_eos = False, rs_transport = [PollEnd]\<rparr>,
      fs_expected = None, remaining_data = usize_max\<rparr> = (Ready (Err StreamUnexpectedEnd), s')
    \<and> rs_buf (fs_stream s') = []"
  by (rule webtransport_tail_is_an_error [where d = "[1]" and evs = "[]"]) (simp_all add: usize_max_def)

end
