(* ===== verification/FrameTypes.thy ===== *)
theory FrameTypes
  imports FrameStream
begin

text \<open>
  The types of received frames: the invariants that the Rust types carry (a \<open>VarInt\<close> is below
  \<open>2 ^ 62\<close>, a \<open>Settings\<close> is a proper array of supported entries) hold of every frame a
  \<open>FrameStream\<close> of \<open>h3/src/frame.rs\<close> returns, so such a frame can be sent on.
\<close>

section \<open>Typed frames\<close>

fun frame_typed :: "recv_frame \<Rightarrow> bool" where
  "frame_typed (Data n) \<longleftrightarrow> length_ok n"
| "frame_typed (Headers h) \<longleftrightarrow> length_ok (length h)"
| "frame_typed (CancelPush i) \<longleftrightarrow> varint_ok (push_id_into_varint i)"
| "frame_typed (Settings s) \<longleftrightarrow> settings_ok s \<and> (\<forall>e \<in> set (used s). is_supported (fst e))"
| "frame_typed (PushPromise p) \<longleftrightarrow> varint_ok (pp_id p) \<and> length_ok (length (pp_encoded p))"
| "frame_typed (Goaway i) \<longleftrightarrow> varint_ok i"
| "frame_typed (MaxPushId i) \<longleftrightarrow> varint_ok (push_id_into_varint i)"
| "frame_typed (WebTransportStream i) \<longleftrightarrow> varint_ok (session_id_into_inner i)"
| "frame_typed Grease \<longleftrightarrow> False"

lemma settings_decode_values:
  assumes "settings_inv s" and "\<forall>e \<in> set (used s). entry_ok e"
    and "settings_decode_loop s buf = Ok s'"
  shows "\<forall>e \<in> set (used s'). entry_ok e"
  using assms
proof (induction s buf rule: settings_decode_loop.induct)
  case (1 s buf)
  show ?case
  proof (cases "buf = [] \<or> length buf < 2")
    case True
    then show ?thesis
      using "1.prems"(2,3) by (simp add: settings_decode_loop.simps [of s buf] split: if_splits)
  next
    case False
    then obtain i buf1 v buf2 where r: "setting_id_decode buf = Ok (i, buf1)" "get_var buf1 = Ok (v, buf2)"
      using "1.prems"(3) by (auto simp: settings_decode_loop.simps [of s buf] split: result.splits)
    have step: "(if is_forbidden i then Err (SInvalidSettingId (setting_id_value i))
        else if is_supported i then
          (case settings_insert s i v of
             Ok s1 \<Rightarrow> settings_decode_loop s1 buf2 | Err e \<Rightarrow> Err e | Panic \<Rightarrow> Panic)
        else settings_decode_loop s buf2) = Ok s'"
      using "1.prems"(3) r False by (simp add: settings_decode_loop.simps [of s buf])
    have nf: "\<not> is_forbidden i" using step by auto
    show ?thesis
    proof (cases "is_supported i")
      case True
      then obtain s1 where s1: "settings_insert s i v = Ok s1" "settings_decode_loop s1 buf2 = Ok s'"
        using step nf by (auto split: result.splits)
      have "entry_ok (i, v)"
        using r by (auto simp: entry_ok_def setting_id_decode_def res_simps dest: get_var_ok)
      then have "\<forall>e \<in> set (used s1). entry_ok e" and "settings_inv s1"
        using settings_insert_OkD [OF "1.prems"(1) s1(1)] "1.prems"(2) by auto
      then show ?thesis
        using "1.IH"(1) [OF _ _ r(1) refl r(2) refl nf True s1(1)] False s1(2) by auto
    next
      case unsupported: False
      then show ?thesis
        using "1.IH"(2) [OF _ _ r(1) refl r(2) refl nf unsupported] False step nf "1.prems"(1,2) by auto
    qed
  qed
qed

lemma settings_decode_typed: "settings_decode buf = Ok s \<Longrightarrow> frame_typed (Settings s)"
  using settings_decode_loop_inv [OF settings_inv_default, of buf]
    settings_decode_values [OF settings_inv_default, of buf s]
  by (auto simp: settings_decode_def settings_ok_def)

lemma push_promise_decode_typed:
  assumes "push_promise_decode buf = Ok (p, rest)" and "length_ok (length buf)"
  shows "frame_typed (PushPromise p)"
proof -
  obtain v r where v: "get_var buf = Ok (v, r)" and p: "p = \<lparr>pp_id = v, pp_encoded = r\<rparr>"
    using assms(1) by (auto simp: push_promise_decode_def res_simps)
  have "length_ok (length r)"
    using get_var_shorter [OF v] by (intro length_ok_mono [OF assms(2)]) simp
  then show ?thesis using get_var_ok [OF v] p by simp
qed

lemma frame_decode_typed:
  assumes "frame_decode buf = Ok (f, rest)"
  shows "frame_typed f"
proof -
  obtain ty buf1 where ty: "frame_type_decode buf = Ok (ty, buf1)"
    using assms by (cases "frame_type_decode buf") (auto simp: frame_decode_def Let_def)
  show ?thesis
  proof (cases "ty = WEBTRANSPORT_BI_STREAM")
    case True
    then show ?thesis
      using assms ty by (auto simp: frame_decode_def Let_def res_simps leaving_def session_id_decode_def
          elim: varint_decode_OkD)
  next
    case False
    then obtain n buf2 where n: "get_var buf1 = Ok (n, buf2)"
      using assms ty by (cases "get_var buf1") (auto simp: frame_decode_def Let_def)
    have len: "length_ok (unat n)" using get_var_ok [OF n] by (simp add: varint_ok_iff length_ok_def)
    have p: "length_ok (length (take (unat n) buf2))"
      using len by (rule length_ok_mono) simp
    show ?thesis
    proof (cases "ty = DATA")
      case True
      then show ?thesis using assms ty n False len by (auto simp: frame_decode_def Let_def)
    next
      case data: False
      then have "frame_decode_payload ty (take (unat n) buf2) (drop (unat n) buf2) = Ok (f, rest)"
        using assms ty n False by (simp add: frame_decode_def Let_def split: if_splits)
      then show ?thesis
        using p settings_decode_typed [of "take (unat n) buf2"] push_promise_decode_typed [of "take (unat n) buf2"]
        by (auto simp: frame_decode_payload_def res_simps leaving_def decode_push_id_def push_id_try_from_def
            simp del: frame_typed.simps(4,5) dest!: get_var_ok elim: varint_decode_OkD split: if_splits result.splits)
    qed
  qed
qed

lemma decoder_decode_typed:
  "fst (decoder_decode expected src) = Ok (Some f) \<Longrightarrow> frame_typed f"
proof (induction expected src rule: decoder_decode.induct)
  case (1 expected src)
  show ?case
    using 1 frame_decode_typed [of "buf_contents src" f]
    by (auto simp: decoder_decode.simps [of expected src] split: if_splits result.splits frame_error.splits)
qed

lemma poll_next_loop_typed:
  "poll_next_loop s = (Ready (Ok (Some f)), s') \<Longrightarrow> frame_typed f"
proof (induction s rule: poll_next_loop.induct)
  case (1 s)
  obtain r expected bl where d: "decoder_decode (fs_expected s) (rs_buf (fs_stream s)) = (r, expected, bl)"
    by (cases "decoder_decode (fs_expected s) (rs_buf (fs_stream s))") auto
  let ?s1 = "s\<lparr>fs_stream := (fs_stream s)\<lparr>rs_buf := bl\<rparr>, fs_expected := expected\<rparr>"
  show ?case
  proof (cases "r = Ok None")
    case True
    obtain p s2 where p: "try_recv ?s1 = (p, s2)" by (cases "try_recv ?s1")
    have "p = Ready (Ok False)" and "poll_next_loop s2 = (Ready (Ok (Some f)), s')"
      using 1(2) d True p
      by (auto simp: poll_next_loop.simps [of s] Let_def split: poll.splits result.splits bool.splits if_splits)
    then show ?thesis
      using 1(1) [OF d [symmetric] refl refl True refl p [symmetric] _ refl refl] by simp
  next
    case False
    then have "r = Ok (Some f)"
      using 1(2) d by (auto simp: poll_next_loop.simps [of s] Let_def split: result.splits option.splits frame.splits)
    then show ?thesis
      using decoder_decode_typed [of "fs_expected s" "rs_buf (fs_stream s)" f] d by simp
  qed
qed

section \<open>Properties\<close>

text \<open>
  C17: received frames are well typed. Whatever the peer sends and however it arrives, every
  frame that \<open>poll_next\<close> returns satisfies the invariants of its types, and every frame that
  has it as its reception, but for a promise, can be encoded without a panic.
\<close>

theorem poll_next_typed:
  assumes "poll_next s = (Ready (Ok (Some f)), s')"
  shows "frame_typed f
    \<and> (\<forall>g. received g = f \<and> (\<forall>p. g \<noteq> PushPromise p) \<longrightarrow> (\<exists>hdr. frame_encode r g = Ok hdr))"
proof (intro conjI allI impI)
  show typed: "frame_typed f"
    using assms by (auto simp: poll_next_def intro: poll_next_loop_typed split: if_splits)
  fix g assume g: "received g = f \<and> (\<forall>p. g \<noteq> PushPromise p)"
  then have "frame_ok r g" using typed by (cases g) (fastforce simp: frame_ok_def)+
  then show "\<exists>hdr. frame_encode r g = Ok hdr" using frame_roundtrip_spec by blast
qed

theorem poll_next_typed_witness:
  "\<exists>s'. poll_next (frame_stream_new \<lparr>rs_buf = [], rs_eos = False, rs_transport = [PollData [7, 1], PollData [4]]\<rparr>)
     = (Ready (Ok (Some (Goaway 4))), s') \<and> frame_typed (Goaway 4)"
proof -
  let ?s = "frame_stream_new \<lparr>rs_buf = [], rs_eos = False, rs_transport = [PollData [7, 1], PollData [4]]\<rparr>"
  have "fst (poll_next ?s) = Ready (Ok (Some (Goaway 4)))" by code_simp
  then obtain s' where s': "poll_next ?s = (Ready (Ok (Some (Goaway 4))), s')" by (cases "poll_next ?s") simp
  from poll_next_typed [OF s'] have "frame_typed (Goaway 4)" by (rule conjunct1)
  with s' show ?thesis by blast
qed

end
