(* ===== verification/WriteBuf.thy ===== *)
theory WriteBuf
  imports Frames Buffers
begin

text \<open>
  What goes on the wire: \<open>WriteBuf\<close> and the stream headers of \<open>h3/src/stream.rs\<close>, and the
  conversion between the configuration and the SETTINGS frame of \<open>h3/src/config.rs\<close>. The
  header is encoded into a fixed array of 64 bytes; writing past its end is a panic. The
  payload of a frame is a byte string, whose \<open>advance\<close> past the end is a panic.
\<close>

section \<open>Model: the write buffer\<close>

definition WRITE_BUF_ENCODE_SIZE :: nat where
  "WRITE_BUF_ENCODE_SIZE = varint_max_size + varint_max_size * 7"

record write_buf =
  wb_buf :: bytes
  wb_len :: nat
  wb_pos :: nat
  wb_frame :: "bytes frame option"

definition write_buf_new :: "bytes frame option \<Rightarrow> write_buf" where
  "write_buf_new f = \<lparr>wb_buf = replicate WRITE_BUF_ENCODE_SIZE 0, wb_len = 0, wb_pos = 0, wb_frame = f\<rparr>"

text \<open>Encoding a value behind what has been encoded so far.\<close>

definition encode_into :: "write_buf \<Rightarrow> bytes may_panic \<Rightarrow> write_buf may_panic" where
  "encode_into w encoded =
     and_then encoded (\<lambda>bs.
       assert_then (wb_len w + length bs \<le> WRITE_BUF_ENCODE_SIZE)
         (Ok (w\<lparr>wb_buf := take (wb_len w) (wb_buf w) @ bs @ drop (wb_len w + length bs) (wb_buf w),
                wb_len := wb_len w + length bs\<rparr>)))"

definition encode_stream_type :: "write_buf \<Rightarrow> stream_type \<Rightarrow> write_buf may_panic" where
  "encode_stream_type w ty = encode_into w (stream_type_encode ty)"

definition encode_value :: "write_buf \<Rightarrow> bytes may_panic \<Rightarrow> write_buf may_panic" where
  "encode_value w value = encode_into w value"

text \<open>\<open>r\<close> is the random number of a grease frame.\<close>

definition encode_frame_header :: "u64 \<Rightarrow> write_buf \<Rightarrow> write_buf may_panic" where
  "encode_frame_header r w =
     (case wb_frame w of
        None \<Rightarrow> Ok w
      | Some f \<Rightarrow> encode_into w (frame_encode r f))"

datatype uni_stream_header =
    Control settings
  | WebTransportUni session_id
  | Encoder
  | Decoder

datatype bidi_stream_header = WebTransportBidi session_id

fun uni_stream_header_encode :: "uni_stream_header \<Rightarrow> bytes may_panic" where
  "uni_stream_header_encode (Control s) = emit [stream_type_encode CONTROL, settings_encode s]"
| "uni_stream_header_encode (WebTransportUni i) =
     emit [stream_type_encode WEBTRANSPORT_UNI, session_id_encode i]"
| "uni_stream_header_encode Encoder = stream_type_encode ENCODER"
| "uni_stream_header_encode Decoder = stream_type_encode DECODER"

fun bidi_stream_header_encode :: "bidi_stream_header \<Rightarrow> bytes may_panic" where
  "bidi_stream_header_encode (WebTransportBidi i) =
     emit [stream_type_encode WEBTRANSPORT_BIDI, session_id_encode i]"

definition write_buf_of_stream_type :: "stream_type \<Rightarrow> write_buf may_panic" where
  "write_buf_of_stream_type ty = encode_stream_type (write_buf_new None) ty"

definition write_buf_of_uni_header :: "uni_stream_header \<Rightarrow> write_buf may_panic" where
  "write_buf_of_uni_header h = encode_value (write_buf_new None) (uni_stream_header_encode h)"

definition write_buf_of_bidi_header :: "bidi_stream_header \<Rightarrow> write_buf may_panic" where
  "write_buf_of_bidi_header h = encode_value (write_buf_new None) (bidi_stream_header_encode h)"

definition write_buf_of_frame :: "u64 \<Rightarrow> bytes frame \<Rightarrow> write_buf may_panic" where
  "write_buf_of_frame r f = encode_frame_header r (write_buf_new (Some f))"

definition write_buf_of_typed_frame :: "u64 \<Rightarrow> stream_type \<Rightarrow> bytes frame \<Rightarrow> write_buf may_panic" where
  "write_buf_of_typed_frame r ty f =
     and_then (encode_value (write_buf_new (Some f)) (stream_type_encode ty)) (encode_frame_header r)"

definition wb_payload :: "write_buf \<Rightarrow> bytes option" where
  "wb_payload w = Option.bind (wb_frame w) frame_payload"

definition wb_remaining :: "write_buf \<Rightarrow> nat" where
  "wb_remaining w = wb_len w - wb_pos w + (case wb_payload w of None \<Rightarrow> 0 | Some p \<Rightarrow> length p)"

definition wb_chunk :: "write_buf \<Rightarrow> bytes" where
  "wb_chunk w =
     (if wb_len w - wb_pos w > 0 then take (wb_len w - wb_pos w) (drop (wb_pos w) (wb_buf w))
      else (case wb_payload w of Some p \<Rightarrow> p | None \<Rightarrow> []))"

text \<open>\<open>payload_mut().advance\<close>.\<close>

fun frame_payload_advance :: "nat \<Rightarrow> bytes frame \<Rightarrow> bytes frame may_panic" where
  "frame_payload_advance n (Data b) = assert_then (n \<le> length b) (Ok (Data (drop n b)))"
| "frame_payload_advance n (Headers b) = assert_then (n \<le> length b) (Ok (Headers (drop n b)))"
| "frame_payload_advance n (PushPromise p) =
     assert_then (n \<le> length (pp_encoded p)) (Ok (PushPromise (p\<lparr>pp_encoded := drop n (pp_encoded p)\<rparr>)))"
| "frame_payload_advance n f = Ok f"

definition wb_advance :: "write_buf \<Rightarrow> nat \<Rightarrow> write_buf may_panic" where
  "wb_advance w cnt =
     (let remaining_header = wb_len w - wb_pos w;
          advanced = min cnt remaining_header;
          w1 = (if remaining_header > 0 then w\<lparr>wb_pos := wb_pos w + advanced\<rparr> else w);
          cnt1 = (if remaining_header > 0 then cnt - advanced else cnt)
      in
        (case wb_frame w1 of
           None \<Rightarrow> Ok w1
         | Some f \<Rightarrow> map_ok (\<lambda>f'. w1\<lparr>wb_frame := Some f'\<rparr>) (frame_payload_advance cnt1 f)))"

section \<open>Model: configuration\<close>

record config_settings =
  max_field_section_size :: u64
  enable_webtransport :: bool
  enable_extended_connect :: bool
  enable_datagram :: bool
  max_webtransport_sessions :: u64

record config =
  send_grease :: bool
  config_settings :: config_settings

definition config_settings_default :: config_settings where
  "config_settings_default =
     \<lparr>max_field_section_size = varint_max, enable_webtransport = False,
      enable_extended_connect = False, enable_datagram = False, max_webtransport_sessions = 0\<rparr>"

definition config_default :: config where
  "config_default = \<lparr>send_grease = True, config_settings = config_settings_default\<rparr>"

definition get_or :: "u64 \<Rightarrow> settings \<Rightarrow> setting_id \<Rightarrow> u64" where
  "get_or d s i = (case settings_get s i of Some v \<Rightarrow> v | None \<Rightarrow> d)"

definition get_flag_or :: "bool \<Rightarrow> settings \<Rightarrow> setting_id \<Rightarrow> bool" where
  "get_flag_or d s i = (case settings_get s i of Some v \<Rightarrow> v \<noteq> 0 | None \<Rightarrow> d)"

definition config_settings_of_frame :: "settings \<Rightarrow> config_settings" where
  "config_settings_of_frame s =
     (let d = config_settings_default in
      \<lparr>max_field_section_size = get_or (max_field_section_size d) s MAX_HEADER_LIST_SIZE,
       enable_webtransport = get_flag_or (enable_webtransport d) s ENABLE_WEBTRANSPORT,
       enable_extended_connect = get_flag_or (enable_extended_connect d) s ENABLE_CONNECT_PROTOCOL,
       enable_datagram = get_flag_or (enable_datagram d) s H3_DATAGRAM,
       max_webtransport_sessions = get_or (max_webtransport_sessions d) s WEBTRANSPORT_MAX_SESSIONS\<rparr>)"

text \<open>\<open>Settings::try_from(config)\<close>; a grease setting that cannot be inserted is ignored.\<close>

definition settings_try_from_config :: "u64 \<Rightarrow> config \<Rightarrow> (settings_error, settings) result" where
  "settings_try_from_config r c =
     (let cs = config_settings c;
          s0 = settings_default;
          s1 = (if send_grease c then
                  (case settings_insert s0 (setting_id_grease r) 0 of Ok s \<Rightarrow> s | _ \<Rightarrow> s0)
                else s0)
      in
        and_then (settings_insert s1 MAX_HEADER_LIST_SIZE (max_field_section_size cs)) (\<lambda>s2.
        and_then (settings_insert s2 ENABLE_CONNECT_PROTOCOL (of_bool (enable_extended_connect cs))) (\<lambda>s3.
        and_then (settings_insert s3 ENABLE_WEBTRANSPORT (of_bool (enable_webtransport cs))) (\<lambda>s4.
        and_then (settings_insert s4 H3_DATAGRAM (of_bool (enable_datagram cs))) (\<lambda>s5.
          settings_insert s5 WEBTRANSPORT_MAX_SESSIONS (max_webtransport_sessions cs))))))"

section \<open>The write buffer is a byte string\<close>

definition wb_inv :: "write_buf \<Rightarrow> bool" where
  "wb_inv w \<longleftrightarrow> wb_pos w \<le> wb_len w \<and> wb_len w \<le> WRITE_BUF_ENCODE_SIZE
     \<and> length (wb_buf w) = WRITE_BUF_ENCODE_SIZE"

definition wb_contents :: "write_buf \<Rightarrow> bytes" where
  "wb_contents w = drop (wb_pos w) (take (wb_len w) (wb_buf w))
     @ (case wb_payload w of None \<Rightarrow> [] | Some p \<Rightarrow> p)"

lemma frame_payload_advance_spec:
  "frame_payload_advance n f =
     (case frame_payload f of
        None \<Rightarrow> Ok f
      | Some p \<Rightarrow> (if n \<le> length p then frame_payload_advance n f else Panic))"
  by (cases f) (simp_all add: frame_payload_def assert_then_def)

lemma frame_payload_advance_Ok:
  assumes "n \<le> length (case frame_payload f of None \<Rightarrow> [] | Some p \<Rightarrow> p)"
  shows "\<exists>f'. frame_payload_advance n f = Ok f' \<and> frame_payload f' = map_option (drop n) (frame_payload f)"
  using assms by (cases f) (simp_all add: frame_payload_def assert_then_def)

lemma frame_payload_advance_None:
  "frame_payload f = None \<Longrightarrow> frame_payload_advance n f = Ok f"
  by (cases f) (simp_all add: frame_payload_def)

lemma wb_advance_spec:
  assumes "wb_inv w" and "n \<le> length (wb_contents w)"
  shows "\<exists>w'. wb_advance w n = Ok w' \<and> wb_inv w' \<and> wb_contents w' = drop n (wb_contents w)"
proof -
  define h where "h = wb_len w - wb_pos w"
  define m where "m = min n h"
  define w1 where "w1 = w\<lparr>wb_pos := wb_pos w + m\<rparr>"
  have pos: "wb_pos w \<le> wb_len w" "wb_len w \<le> length (wb_buf w)"
    using assms(1) by (auto simp: wb_inv_def)
  have inv1: "wb_inv w1" using assms(1) by (auto simp: wb_inv_def w1_def m_def h_def min_def)
  have head: "drop (wb_pos w1) (take (wb_len w1) (wb_buf w1)) = drop m (drop (wb_pos w) (take (wb_len w) (wb_buf w)))"
    by (simp add: w1_def add.commute)
  have hl: "length (drop (wb_pos w) (take (wb_len w) (wb_buf w))) = h"
    using pos by (simp add: h_def)
  have split: "drop n (wb_contents w) = drop m (drop (wb_pos w) (take (wb_len w) (wb_buf w)))
      @ drop (n - m) (case wb_payload w of None \<Rightarrow> [] | Some p \<Rightarrow> p)"
    using hl by (auto simp: wb_contents_def m_def min_def)
  have step: "wb_advance w n = (case wb_frame w of None \<Rightarrow> Ok w1
      | Some f \<Rightarrow> map_ok (\<lambda>f'. w1\<lparr>wb_frame := Some f'\<rparr>) (frame_payload_advance (n - m) f))"
    by (cases "h = 0") (auto simp: wb_advance_def Let_def w1_def m_def h_def split: option.splits)
  show ?thesis
  proof (cases "wb_frame w")
    case None
    then show ?thesis
      using step inv1 split head by (simp add: wb_contents_def wb_payload_def w1_def)
  next
    case (Some f)
    have "n - m \<le> length (case frame_payload f of None \<Rightarrow> [] | Some p \<Rightarrow> p)
      \<or> frame_payload f = None"
      using assms(2) hl Some by (auto simp: wb_contents_def wb_payload_def m_def split: option.splits)
    then obtain f' where f': "frame_payload_advance (n - m) f = Ok f'"
      "frame_payload f' = map_option (drop (n - m)) (frame_payload f)"
      using frame_payload_advance_Ok frame_payload_advance_None [of f] by (metis option.simps(8))
    then have "wb_inv (w1\<lparr>wb_frame := Some f'\<rparr>)"
      using inv1 by (simp add: wb_inv_def)
    moreover have "wb_contents (w1\<lparr>wb_frame := Some f'\<rparr>) = drop n (wb_contents w)"
      using f' head split Some by (simp add: wb_contents_def wb_payload_def split: option.splits)
    ultimately show ?thesis using step Some f' by simp
  qed
qed

interpretation write_buf: byte_source wb_contents wb_inv wb_remaining "\<lambda>w. Ok (wb_chunk w)" wb_advance
proof (unfold_locales, goal_cases)
  case (1 w)
  then show ?case
    by (auto simp: wb_remaining_def wb_contents_def wb_inv_def split: option.splits)
next
  case (2 w)
  then show ?case
    by (auto simp: wb_contents_def wb_chunk_def wb_inv_def take_drop split: option.splits)
next
  case (3 w n)
  then show ?case by (rule wb_advance_spec)
qed

lemma wb_inv_new [simp]: "wb_inv (write_buf_new f)"
  by (simp add: wb_inv_def write_buf_new_def)

text \<open>Encoding appends to the header.\<close>

definition wb_header :: "write_buf \<Rightarrow> bytes" where
  "wb_header w = take (wb_len w) (wb_buf w)"

lemma encode_into_Ok:
  assumes "wb_inv w" and "length (wb_header w) + length bs \<le> WRITE_BUF_ENCODE_SIZE"
  shows "\<exists>w'. encode_into w (Ok bs) = Ok w' \<and> wb_inv w' \<and> wb_header w' = wb_header w @ bs
    \<and> wb_frame w' = wb_frame w \<and> wb_pos w' = wb_pos w"
  using assms by (simp add: encode_into_def assert_then_def wb_inv_def wb_header_def)

lemma encode_into_Panic:
  assumes "wb_inv w" and "WRITE_BUF_ENCODE_SIZE < length (wb_header w) + length bs"
  shows "encode_into w (Ok bs) = Panic"
  using assms by (simp add: encode_into_def assert_then_def wb_inv_def wb_header_def)

lemma wb_new_simps [simp]:
  "wb_header (write_buf_new f) = []" "wb_frame (write_buf_new f) = f" "wb_pos (write_buf_new f) = 0"
  by (simp_all add: wb_header_def write_buf_new_def)

lemma wb_contents_header:
  "wb_pos w = 0 \<Longrightarrow> wb_contents w = wb_header w @ (case wb_payload w of None \<Rightarrow> [] | Some p \<Rightarrow> p)"
  by (simp add: wb_contents_def wb_header_def)

lemma length_varint_bytes_small:
  "unat v < 64 \<Longrightarrow> length (varint_bytes v) = 1"
  "unat v < 2 ^ 30 \<Longrightarrow> length (varint_bytes v) \<le> 4"
  by (auto simp: varint_bytes_def varint_encode_def word_less_nat_alt)

lemma frame_encode_length:
  assumes "frame_encode r f = Ok hdr" and "\<forall>p. f \<noteq> PushPromise p" and "\<forall>s. f \<noteq> Settings s"
  shows "length hdr \<le> 24"
proof -
  have w: "length b \<le> 8" if "write_var x = Ok b" for x b
    using that length_varint_bytes_le [of x] by (simp add: write_var_eq varint_bytes_def)
  have e: "length b \<le> 8" if "varint_encode x = Ok b" for x b
    using that w by (simp add: write_var_eq)
  show ?thesis
    using assms by (cases f)
      (fastforce simp: frame_encode_def simple_frame_encode_def frame_type_encode_def session_id_encode_def
        res_simps dest!: w e)+
qed

lemma write_buf_of_frame_Ok:
  assumes "frame_encode r f = Ok hdr" and "length hdr \<le> WRITE_BUF_ENCODE_SIZE"
  shows "\<exists>w. write_buf_of_frame r f = Ok w \<and> wb_inv w \<and> wb_contents w = hdr
    @ (case frame_payload f of None \<Rightarrow> [] | Some p \<Rightarrow> p)"
  using encode_into_Ok [of "write_buf_new (Some f)" hdr] assms
  by (auto simp: write_buf_of_frame_def encode_frame_header_def wb_contents_header wb_payload_def)

lemma frame_roundtrip_wire:
  assumes "frame_encode r f = Ok hdr" and "frame_ok r f" and "\<forall>p. f \<noteq> PushPromise p"
  shows "frame_decode (hdr @ trailing_payload f @ rest) =
       (case f of
          Data b \<Rightarrow> Ok (Data (length b), b @ rest)
        | Grease \<Rightarrow> Err (FUnknownFrame (frame_type_grease r), rest)
        | _ \<Rightarrow> Ok (received f, rest))"
    and "(case frame_payload f of None \<Rightarrow> [] | Some p \<Rightarrow> p) = trailing_payload f"
  using frame_roundtrip_spec [OF assms(2), of rest] assms(1,3)
  by (auto simp: trailing_payload_def frame_payload_def split: frame.splits)

lemma write_buf_carries_frame_spec:
  assumes "frame_ok r f" and "\<forall>s. f \<noteq> Settings s" and "\<forall>p. f \<noteq> PushPromise p"
  shows "\<exists>w. write_buf_of_frame r f = Ok w \<and> wb_remaining w = length (wb_contents w)
    \<and> frame_decode (wb_contents w @ rest) =
       (case f of
          Data b \<Rightarrow> Ok (Data (length b), b @ rest)
        | Grease \<Rightarrow> Err (FUnknownFrame (frame_type_grease r), rest)
        | _ \<Rightarrow> Ok (received f, rest))"
proof -
  obtain hdr where hdr: "frame_encode r f = Ok hdr"
    using frame_roundtrip_spec [OF assms(1)] by blast
  note wire = frame_roundtrip_wire [OF hdr assms(1,3)]
  have "length hdr \<le> WRITE_BUF_ENCODE_SIZE"
    using frame_encode_length [OF hdr assms(3,2)] by (simp add: WRITE_BUF_ENCODE_SIZE_def varint_max_size_def)
  then obtain w where w: "write_buf_of_frame r f = Ok w" "wb_inv w" "wb_contents w = hdr @ trailing_payload f"
    using write_buf_of_frame_Ok [OF hdr] wire(2) by auto
  then show ?thesis
    using wire(1) [of rest] write_buf.remaining_eq by simp
qed



text \<open>
  A PUSH_PROMISE frame cannot be sent this way. Its header already contains the field
  section, which is yielded a second time as the payload, or overflows the array, a panic,
  when it does not fit.
\<close>

theorem write_buf_push_promise:
  assumes "push_promise_encode p = Ok bs"
  shows "if length bs \<le> WRITE_BUF_ENCODE_SIZE
    then \<exists>w. write_buf_of_frame r (PushPromise p) = Ok w \<and> wb_contents w = bs @ pp_encoded p
           \<and> (\<exists>hdr. bs = hdr @ pp_encoded p)
    else write_buf_of_frame r (PushPromise p) = Panic"
proof -
  have e: "frame_encode r (PushPromise p) = Ok bs"
    using assms by (simp add: frame_encode_def)
  have "\<exists>hdr. bs = hdr @ pp_encoded p"
    using assms by (auto simp: push_promise_encode_def res_simps)
  then show ?thesis
    using write_buf_of_frame_Ok [OF e] encode_into_Panic [of "write_buf_new (Some (PushPromise p))" bs] e
    by (auto simp: write_buf_of_frame_def encode_frame_header_def frame_payload_def)
qed

theorem write_buf_push_promise_witness:
  "\<exists>bs w. push_promise_encode \<lparr>pp_id = 1, pp_encoded = [7, 7]\<rparr> = Ok bs
    \<and> write_buf_of_frame 0 (PushPromise \<lparr>pp_id = 1, pp_encoded = [7, 7]\<rparr>) = Ok w
    \<and> wb_contents w = bs @ [7, 7]"
proof -
  have e: "push_promise_encode \<lparr>pp_id = 1, pp_encoded = [7, 7]\<rparr> = Ok [5, 3, 1, 7, 7]"
    by (simp add: push_promise_encode_def push_promise_encode_header_def push_promise_len_def
      frame_type_encode_def write_var_def varint_from_u64_def varint_encode_def varint_size_def frame_type_defs)
  show ?thesis
    using write_buf_push_promise [OF e, of 0]
    by (simp add: e WRITE_BUF_ENCODE_SIZE_def varint_max_size_def)
qed

section \<open>The configuration on the wire\<close>

lemma settings_insert_next:
  assumes "settings_inv s" and "len s < SETTINGS_LEN" and "i \<notin> fst ` set (used s)"
  obtains s' where "settings_insert s i v = Ok s'" and "settings_inv s'" and "used s' = used s @ [(i, v)]"
    and "len s' = len s + 1"
  using settings_insert_fresh [OF assms] settings_insert_OkD [OF assms(1)] by metis

definition config_entries :: "u64 \<Rightarrow> config \<Rightarrow> (setting_id \<times> u64) list" where
  "config_entries r c =
     (if send_grease c then [(setting_id_grease r, 0)] else [])
     @ [(MAX_HEADER_LIST_SIZE, max_field_section_size (config_settings c)),
        (ENABLE_CONNECT_PROTOCOL, of_bool (enable_extended_connect (config_settings c))),
        (ENABLE_WEBTRANSPORT, of_bool (enable_webtransport (config_settings c))),
        (H3_DATAGRAM, of_bool (enable_datagram (config_settings c))),
        (WEBTRANSPORT_MAX_SESSIONS, max_webtransport_sessions (config_settings c))]"

lemma grease_setting:
  assumes "r < grease_bound"
  shows "setting_id_grease r \<notin> {MAX_HEADER_LIST_SIZE, ENABLE_CONNECT_PROTOCOL, ENABLE_WEBTRANSPORT,
      H3_DATAGRAM, WEBTRANSPORT_MAX_SESSIONS}"
    and "\<not> is_supported (setting_id_grease r)" and "\<not> is_forbidden (setting_id_grease r)"
    and "varint_ok (setting_id_value (setting_id_grease r))"
proof -
  define n where "n = unat r"
  have g: "unat (grease_value r) = n * 31 + 33"
    using grease_value_unat(1) [OF assms] by (simp add: n_def)
  have ne: "n * 31 + 33 \<noteq> 6" "n * 31 + 33 \<noteq> 8" "n * 31 + 33 \<noteq> 1" "n * 31 + 33 \<noteq> 7" "n * 31 + 33 \<noteq> 51"
    "n * 31 + 33 \<noteq> 727725890" "n * 31 + 33 \<noteq> 727725891"
    "n * 31 + 33 \<noteq> 0" "n * 31 + 33 \<noteq> 2" "n * 31 + 33 \<noteq> 3" "n * 31 + 33 \<noteq> 4" "n * 31 + 33 \<noteq> 5"
    by presburger+
  have v: "grease_value r \<noteq> x" if "n * 31 + 33 \<noteq> unat x" for x
    using that g by auto
  show "setting_id_grease r \<notin> {MAX_HEADER_LIST_SIZE, ENABLE_CONNECT_PROTOCOL, ENABLE_WEBTRANSPORT,
      H3_DATAGRAM, WEBTRANSPORT_MAX_SESSIONS}"
    and "\<not> is_supported (setting_id_grease r)" and "\<not> is_forbidden (setting_id_grease r)"
    using ne by (simp_all add: setting_id_grease_def setting_id_defs is_supported_def is_forbidden_def v)
  show "varint_ok (setting_id_value (setting_id_grease r))"
    using grease_value_unat(2) [OF assms] by (simp add: setting_id_grease_def)
qed

lemma settings_try_from_config_spec:
  assumes "r < grease_bound"
  shows "\<exists>s. settings_try_from_config r c = Ok s \<and> settings_inv s \<and> used s = config_entries r c"
proof -
  define cs where "cs = config_settings c"
  define s1 where "s1 = (if send_grease c then
      (case settings_insert settings_default (setting_id_grease r) 0 of Ok s \<Rightarrow> s | _ \<Rightarrow> settings_default)
    else settings_default)"
  have d: "len settings_default = 0" by (simp add: settings_default_def)
  have s1: "settings_inv s1" "used s1 = (if send_grease c then [(setting_id_grease r, 0)] else [])" "len s1 \<le> 1"
  proof -
    obtain t where "settings_insert settings_default (setting_id_grease r) 0 = Ok t" "settings_inv t"
      "used t = used settings_default @ [(setting_id_grease r, 0)]" "len t = len settings_default + 1"
      by (rule settings_insert_next [OF settings_inv_default]) (simp_all add: d SETTINGS_LEN_def)
    then show "settings_inv s1" "used s1 = (if send_grease c then [(setting_id_grease r, 0)] else [])"
      "len s1 \<le> 1"
      by (simp_all add: s1_def d)
  qed
  note g = grease_setting(1) [OF assms]
  obtain s2 where s2: "settings_insert s1 MAX_HEADER_LIST_SIZE (max_field_section_size cs) = Ok s2"
    "settings_inv s2" "used s2 = used s1 @ [(MAX_HEADER_LIST_SIZE, max_field_section_size cs)]" "len s2 = len s1 + 1"
    by (rule settings_insert_next [OF s1(1), where i = MAX_HEADER_LIST_SIZE and v = "max_field_section_size cs"]) (use s1 g in \<open>auto simp: SETTINGS_LEN_def\<close>)
  obtain s3 where s3: "settings_insert s2 ENABLE_CONNECT_PROTOCOL (of_bool (enable_extended_connect cs)) = Ok s3"
    "settings_inv s3" "used s3 = used s2 @ [(ENABLE_CONNECT_PROTOCOL, of_bool (enable_extended_connect cs))]"
    "len s3 = len s2 + 1"
    by (rule settings_insert_next [OF s2(2), where i = ENABLE_CONNECT_PROTOCOL and v = "of_bool (enable_extended_connect cs)"])
      (use s1 s2 g in \<open>auto simp: SETTINGS_LEN_def setting_id_defs\<close>)
  obtain s4 where s4: "settings_insert s3 ENABLE_WEBTRANSPORT (of_bool (enable_webtransport cs)) = Ok s4"
    "settings_inv s4" "used s4 = used s3 @ [(ENABLE_WEBTRANSPORT, of_bool (enable_webtransport cs))]"
    "len s4 = len s3 + 1"
    by (rule settings_insert_next [OF s3(2), where i = ENABLE_WEBTRANSPORT and v = "of_bool (enable_webtransport cs)"])
      (use s1 s2 s3 g in \<open>auto simp: SETTINGS_LEN_def setting_id_defs\<close>)
  obtain s5 where s5: "settings_insert s4 H3_DATAGRAM (of_bool (enable_datagram cs)) = Ok s5"
    "settings_inv s5" "used s5 = used s4 @ [(H3_DATAGRAM, of_bool (enable_datagram cs))]" "len s5 = len s4 + 1"
    by (rule settings_insert_next [OF s4(2), where i = H3_DATAGRAM and v = "of_bool (enable_datagram cs)"])
      (use s1 s2 s3 s4 g in \<open>auto simp: SETTINGS_LEN_def setting_id_defs\<close>)
  obtain s6 where s6: "settings_insert s5 WEBTRANSPORT_MAX_SESSIONS (max_webtransport_sessions cs) = Ok s6"
    "settings_inv s6" "used s6 = used s5 @ [(WEBTRANSPORT_MAX_SESSIONS, max_webtransport_sessions cs)]"
    by (rule settings_insert_next [OF s5(2), where i = WEBTRANSPORT_MAX_SESSIONS and v = "max_webtransport_sessions cs"])
      (use s1 s2 s3 s4 s5 g in \<open>auto simp: SETTINGS_LEN_def setting_id_defs\<close>)
  have "settings_try_from_config r c = Ok s6"
    unfolding settings_try_from_config_def Let_def s1_def [symmetric] cs_def [symmetric]
    by (simp add: s2(1) s3(1) s4(1) s5(1) s6(1))
  moreover have "used s6 = config_entries r c"
    by (simp add: s6(3) s5(3) s4(3) s3(3) s2(3) s1(2) config_entries_def cs_def)
  ultimately show ?thesis using s6(2) by blast
qed

lemma settings_len_loop_Panic:
  "\<exists>e \<in> set es. \<not> entry_ok e \<Longrightarrow> settings_len_loop es n = Panic"
proof (induction es arbitrary: n)
  case (Cons e es)
  obtain i v where e: "e = (i, v)" by (cases e)
  show ?case
  proof (cases "entry_ok e")
    case True
    then show ?thesis using Cons e by (simp add: entry_ok_def varint_size_bytes)
  next
    case False
    then show ?thesis using e by (auto simp: entry_ok_def varint_from_u64_def varint_ok_def)
  qed
qed simp

lemma settings_encode_Panic:
  "\<exists>e \<in> set (used s). \<not> entry_ok e \<Longrightarrow> settings_encode s = Panic"
  by (simp add: settings_encode_def settings_encode_header_def settings_len_def settings_len_loop_Panic
    frame_type_encode_def write_var_Ok)

lemma config_entries_ok:
  assumes "r < grease_bound"
  shows "(\<forall>e \<in> set (config_entries r c). entry_ok e) \<longleftrightarrow>
    varint_ok (max_field_section_size (config_settings c))
    \<and> varint_ok (max_webtransport_sessions (config_settings c))"
  using grease_setting(4) [OF assms]
  by (auto simp: config_entries_def entry_ok_def setting_id_defs varint_ok_iff)

lemma config_entries_length:
  assumes "r < grease_bound"
  shows "length (entries_bytes (config_entries r c)) \<le> 39"
proof -
  have b: "length (varint_bytes (of_bool q)) = 1" for q
    by (intro length_varint_bytes_small(1)) simp
  have i: "length (varint_bytes 6) = 1" "length (varint_bytes 8) = 1" "length (varint_bytes 51) = 1"
    "length (varint_bytes 727725890) \<le> 4" "length (varint_bytes 727725891) \<le> 4" "length (varint_bytes 0) = 1"
    by (simp_all add: length_varint_bytes_small)
  show ?thesis
    using i b length_varint_bytes_le [of "max_field_section_size (config_settings c)"]
      length_varint_bytes_le [of "max_webtransport_sessions (config_settings c)"]
      length_varint_bytes_le [of "setting_id_value (setting_id_grease r)"]
    by (auto simp: config_entries_def entry_bytes_def setting_id_defs)
qed

lemma config_entries_supported:
  assumes "r < grease_bound"
  shows "supported_of (config_entries r c) = config_entries r (c\<lparr>send_grease := False\<rparr>)"
    and "\<forall>e \<in> set (config_entries r c). \<not> is_forbidden (fst e)"
    and "distinct (map fst (supported_of (config_entries r c)))"
  using grease_setting [OF assms]
  by (auto simp: config_entries_def is_supported_def is_forbidden_def setting_id_defs)

lemma config_entries_read:
  assumes "settings_inv s" and "used s = config_entries r (c\<lparr>send_grease := False\<rparr>)"
  shows "config_settings_of_frame s = config_settings c"
proof -
  have g: "settings_get s i = map_of (config_entries r (c\<lparr>send_grease := False\<rparr>)) i" if "i \<noteq> NONE" for i
    using settings_get_used [OF assms(1) that] assms(2) by simp
  show ?thesis
    by (simp add: config_settings_of_frame_def get_or_def get_flag_or_def g Let_def config_entries_def
      setting_id_defs)
qed

text \<open>
  The configuration reaches the peer. If both numbers of a configuration fit a
  variable-length integer, it becomes SETTINGS that fit the write buffer of the control
  stream with or without grease, and the peer reads the stream type, then the frame, and from
  it exactly this configuration; otherwise opening the control stream panics.
\<close>

theorem config_reaches_peer:
  assumes "r < grease_bound"
  shows "\<exists>s. settings_try_from_config r c = Ok s \<and>
    (if varint_ok (max_field_section_size (config_settings c))
        \<and> varint_ok (max_webtransport_sessions (config_settings c))
     then \<exists>w buf s'. write_buf_of_uni_header (Control s) = Ok w
            \<and> stream_type_decode (wb_contents w @ rest) = Ok (CONTROL, buf)
            \<and> frame_decode buf = Ok (Settings s', rest)
            \<and> config_settings_of_frame s' = config_settings c
     else write_buf_of_uni_header (Control s) = Panic)"
proof -
  define es where "es = config_entries r c"
  obtain s where s: "settings_try_from_config r c = Ok s" "settings_inv s" "used s = es"
    using settings_try_from_config_spec [OF assms] by (auto simp: es_def)
  have ctl: "stream_type_encode CONTROL = Ok (varint_bytes 0)"
    by (simp add: stream_type_encode_def CONTROL_def write_var_Ok varint_ok_iff)
  show ?thesis
  proof (cases "varint_ok (max_field_section_size (config_settings c))
      \<and> varint_ok (max_webtransport_sessions (config_settings c))")
    case True
    then have ok: "\<forall>e \<in> set es. entry_ok e"
      using config_entries_ok [OF assms] by (simp add: es_def)
    then have sok: "settings_ok s" using s by (simp add: settings_ok_def)
    define payload where "payload = entries_bytes es"
    have len: "length payload \<le> 39"
      using config_entries_length [OF assms] by (simp add: payload_def es_def)
    define hdr where "hdr = varint_bytes SETTINGS @ varint_bytes (word_of_nat (length payload)) @ payload"
    have enc: "settings_encode s = Ok hdr"
      using settings_encode_eq [OF sok] s by (simp add: hdr_def payload_def)
    have "length (varint_bytes 0) = 1" "length (varint_bytes SETTINGS) = 1"
      "length (varint_bytes (word_of_nat (length payload))) = 1"
      using len by (simp_all add: length_varint_bytes_small SETTINGS_def)
    then have "length (varint_bytes 0 @ hdr) \<le> WRITE_BUF_ENCODE_SIZE"
      using len by (simp add: hdr_def WRITE_BUF_ENCODE_SIZE_def varint_max_size_def)
    then obtain w where w: "write_buf_of_uni_header (Control s) = Ok w"
      "wb_header w = varint_bytes 0 @ hdr" "wb_frame w = None" "wb_pos w = 0"
      using encode_into_Ok [of "write_buf_new None" "varint_bytes 0 @ hdr"]
      by (auto simp: write_buf_of_uni_header_def encode_value_def ctl enc)
    then have wire: "wb_contents w @ rest = varint_bytes 0 @ hdr @ rest"
      by (simp add: wb_contents_header wb_payload_def)
    have ty: "stream_type_decode (wb_contents w @ rest) = Ok (CONTROL, hdr @ rest)"
      by (simp add: wire stream_type_decode_def CONTROL_def varint_ok_iff)
    note sup = config_entries_supported [OF assms, of c, folded es_def]
    have "length (supported_of es) \<le> SETTINGS_LEN"
      using sup(1) by (simp add: config_entries_def SETTINGS_LEN_def)
    then obtain s' where s': "settings_decode payload = Ok s'" "settings_inv s'" "used s' = supported_of es"
      using settings_decode_entries [of settings_default es] ok sup(2,3)
      by (auto simp: settings_decode_def payload_def)
    have "length_ok (length payload)" using len by (simp add: length_ok_def)
    then have "frame_decode (hdr @ rest) = frame_decode_payload SETTINGS payload rest"
      by (simp add: hdr_def frame_decode_framed)
    then have "frame_decode (hdr @ rest) = Ok (Settings s', rest)"
      using s' by (simp add: frame_decode_payload_def leaving_def)
    moreover have "config_settings_of_frame s' = config_settings c"
      using config_entries_read [OF s'(2)] s'(3) sup(1) by simp
    ultimately show ?thesis using s(1) True w(1) ty by auto
  next
    case False
    then have "\<exists>e \<in> set (used s). \<not> entry_ok e"
      unfolding s(3) es_def using config_entries_ok [OF assms, of c] by metis
    then have "settings_encode s = Panic"
      by (rule settings_encode_Panic)
    then have "write_buf_of_uni_header (Control s) = Panic"
      by (simp add: write_buf_of_uni_header_def encode_value_def encode_into_def ctl)
    then show ?thesis using s(1) False by simp
  qed
qed

theorem config_reaches_peer_witness:
  "\<exists>s w buf s'. settings_try_from_config 5 config_default = Ok s
    \<and> write_buf_of_uni_header (Control s) = Ok w
    \<and> stream_type_decode (wb_contents w @ [1]) = Ok (CONTROL, buf)
    \<and> frame_decode buf = Ok (Settings s', [1])
    \<and> config_settings_of_frame s' = config_settings_default"
proof -
  have "(5 :: u64) < grease_bound" by (simp add: grease_bound_def)
  from config_reaches_peer [OF this, of config_default "[1]"] show ?thesis
    by (auto simp: config_default_def config_settings_default_def varint_max_def varint_ok_iff)
qed

end
