(* ===== verification/AcceptStream.thy ===== *)
theory AcceptStream
  imports FrameStream
begin

text \<open>
  Accepting a unidirectional stream: \<open>AcceptRecvStream\<close> of \<open>h3/src/stream.rs\<close> reads the
  stream type and, for push and WebTransport streams, an identifier behind it. The lemmas
  show that the type is the first variable-length integer of the stream however it is cut
  into chunks, and where reading the identifier goes wrong. A reset or an unknown error of
  the transport counts as the end of the stream.
\<close>

section \<open>Model\<close>

record accept_recv_stream =
  ar_stream :: recv_stream
  ar_ty :: "stream_type option"
  ar_id :: "u64 option"
  ar_expected :: "nat option"

definition accept_recv_stream_new :: "recv_event list \<Rightarrow> accept_recv_stream" where
  "accept_recv_stream_new tr =
     \<lparr>ar_stream = recv_stream_new tr, ar_ty = None, ar_id = None, ar_expected = None\<rparr>"

datatype stream_end = EndOfStream | Reset u64 | OtherEnd

datatype poll_type_error =
    IncomingError connection_error_incoming
  | InternalPollError
  | EndOfStreamError

datatype accepted_recv_stream =
    AcceptedControl frame_stream
  | AcceptedPush frame_stream
  | AcceptedEncoder recv_stream
  | AcceptedDecoder recv_stream
  | AcceptedWebTransportUni session_id recv_stream
  | AcceptedUnknown recv_stream

text \<open>\<open>ty.expect(..)\<close> and \<open>id.expect(..)\<close> panic when the value is not there yet.\<close>

definition into_stream :: "accept_recv_stream \<Rightarrow> accepted_recv_stream may_panic" where
  "into_stream s =
     (case ar_ty s of
        None \<Rightarrow> Panic
      | Some ty \<Rightarrow>
          if ty = CONTROL then Ok (AcceptedControl (frame_stream_new (ar_stream s)))
          else if ty = PUSH then Ok (AcceptedPush (frame_stream_new (ar_stream s)))
          else if ty = ENCODER then Ok (AcceptedEncoder (ar_stream s))
          else if ty = DECODER then Ok (AcceptedDecoder (ar_stream s))
          else if ty = WEBTRANSPORT_UNI then
            (case ar_id s of
               None \<Rightarrow> Panic
             | Some i \<Rightarrow> Ok (AcceptedWebTransportUni (session_id_from_varint i) (ar_stream s)))
          else Ok (AcceptedUnknown (ar_stream s)))"

text \<open>What a poll of the transport means for \<open>stream_stopped\<close>; a connection error is returned.\<close>

fun stopped_by :: "(stream_error_incoming, bool) result \<Rightarrow> (poll_type_error, stream_end option) result" where
  "stopped_by (Ok False) = Ok None"
| "stopped_by (Ok True) = Ok (Some EndOfStream)"
| "stopped_by (Err (ConnectionErrorIncoming e)) = Err (IncomingError e)"
| "stopped_by (Err (StreamTerminated code)) = Ok (Some (Reset code))"
| "stopped_by (Err UnknownError) = Ok (Some OtherEnd)"
| "stopped_by Panic = Panic"

text \<open>The update of \<open>expected\<close> from the first byte of the first chunk.\<close>

definition expect_varint :: "accept_recv_stream \<Rightarrow> accept_recv_stream" where
  "expect_varint s =
     (if ar_expected s = None \<and> buf_remaining (rs_buf (ar_stream s)) \<ge> 1
      then s\<lparr>ar_expected := Some (varint_encoded_size (hd (buf_chunk (rs_buf (ar_stream s)))))\<rparr>
      else s)"

text \<open>
  The loop of \<open>poll_next_varint\<close>; every round takes an answer of the transport. \<open>decode\<close>
  advances the buffer by what it has read.
\<close>

function poll_next_varint_loop :: "stream_end option \<Rightarrow> accept_recv_stream \<Rightarrow>
    (poll_type_error, u64 \<times> stream_end option) result poll \<times> accept_recv_stream" where
  "poll_next_varint_loop stopped s =
     (if stopped \<noteq> None then (Ready (Err EndOfStreamError), s)
      else
        (case poll_read (ar_stream s) of
           (Pending, st) \<Rightarrow> (Pending, s\<lparr>ar_stream := st\<rparr>)
         | (Ready answer, st) \<Rightarrow>
             (case stopped_by answer of
                Err e \<Rightarrow> (Ready (Err e), s\<lparr>ar_stream := st\<rparr>)
              | Panic \<Rightarrow> (Ready Panic, s\<lparr>ar_stream := st\<rparr>)
              | Ok stopped1 \<Rightarrow>
                  let s1 = expect_varint (s\<lparr>ar_stream := st\<rparr>);
                      src = rs_buf (ar_stream s1) in
                  (case ar_expected s1 of
                     None \<Rightarrow> poll_next_varint_loop stopped1 s1
                   | Some expected \<Rightarrow>
                       if buf_remaining src < expected then poll_next_varint_loop stopped1 s1
                       else
                         (case varint_decode (buf_contents src) of
                            Ok (v, rest) \<Rightarrow>
                              (case buf_advance src (buf_remaining src - length rest) of
                                 Ok src1 \<Rightarrow>
                                   (Ready (Ok (v, stopped1)),
                                    s1\<lparr>ar_stream := (ar_stream s1)\<lparr>rs_buf := src1\<rparr>\<rparr>)
                               | _ \<Rightarrow> (Ready Panic, s1))
                          | Err _ \<Rightarrow> (Ready (Err InternalPollError), s1)
                          | Panic \<Rightarrow> (Ready Panic, s1))))))"
  by pat_completeness auto

lemma poll_read_shorter:
  "poll_read st = (Ready r, st') \<Longrightarrow> length (rs_transport st') < length (rs_transport st)"
  by (auto simp: poll_read_def Let_def split: list.splits recv_event.splits result.splits)

lemma expect_varint_stream [simp]: "ar_stream (expect_varint s) = ar_stream s"
  by (simp add: expect_varint_def)

termination poll_next_varint_loop
  by (relation "measure (\<lambda>(stopped, s). length (rs_transport (ar_stream s)))")
    (auto dest!: poll_read_shorter [OF sym])

declare poll_next_varint_loop.simps [simp del]

definition poll_next_varint :: "accept_recv_stream \<Rightarrow>
    (poll_type_error, u64 \<times> stream_end option) result poll \<times> accept_recv_stream" where
  "poll_next_varint s = poll_next_varint_loop None s"

text \<open>The second half of \<open>poll_type\<close>: the identifier of push and WebTransport streams.\<close>

definition poll_id :: "accept_recv_stream \<Rightarrow> (poll_type_error, unit) result poll \<times> accept_recv_stream" where
  "poll_id s =
     (if (ar_ty s = Some PUSH \<or> ar_ty s = Some WEBTRANSPORT_UNI) \<and> ar_id s = None then
        (case poll_next_varint s of
           (Pending, s1) \<Rightarrow> (Pending, s1)
         | (Ready (Ok (v, _)), s1) \<Rightarrow> (Ready (Ok ()), s1\<lparr>ar_id := Some v\<rparr>)
         | (Ready (Err e), s1) \<Rightarrow> (Ready (Err e), s1)
         | (Ready Panic, s1) \<Rightarrow> (Ready Panic, s1))
      else (Ready (Ok ()), s))"

definition poll_type :: "accept_recv_stream \<Rightarrow> (poll_type_error, unit) result poll \<times> accept_recv_stream" where
  "poll_type s =
     (if ar_ty s = None then
        (case poll_next_varint s of
           (Pending, s1) \<Rightarrow> (Pending, s1)
         | (Ready (Ok (v, _)), s1) \<Rightarrow> poll_id (s1\<lparr>ar_ty := Some (StreamType v)\<rparr>)
         | (Ready (Err e), s1) \<Rightarrow> (Ready (Err e), s1)
         | (Ready Panic, s1) \<Rightarrow> (Ready Panic, s1))
      else poll_id s)"

section \<open>Reading the first integer\<close>

text \<open>
  The expectation belongs to the first byte of the buffer, and a complete integer is not left
  in the buffer between two polls.
\<close>

definition accept_inv :: "accept_recv_stream \<Rightarrow> bool" where
  "accept_inv s \<longleftrightarrow>
     recv_inv (ar_stream s) \<and> \<not> rs_eos (ar_stream s)
     \<and> ar_expected s = (case buf_contents (rs_buf (ar_stream s)) of
          [] \<Rightarrow> None | b # _ \<Rightarrow> Some (varint_encoded_size b))
     \<and> (\<exists>n. varint_decode (buf_contents (rs_buf (ar_stream s))) = Err (UnexpectedEnd n))"

abbreviation ar_bytes :: "accept_recv_stream \<Rightarrow> bytes" where
  "ar_bytes s \<equiv> stream_bytes (ar_stream s)"

definition poll_varint_post :: "accept_recv_stream \<Rightarrow>
    (poll_type_error, u64 \<times> stream_end option) result poll \<times> accept_recv_stream \<Rightarrow> bool" where
  "poll_varint_post s out \<longleftrightarrow>
     (case out of
        (Ready (Ok (v, stopped)), s') \<Rightarrow>
          varint_decode (ar_bytes s) = Ok (v, ar_bytes s') \<and> recv_inv (ar_stream s') \<and> stopped = None
          \<and> ar_ty s' = ar_ty s \<and> ar_id s' = ar_id s
      | (Ready (Err EndOfStreamError), s') \<Rightarrow> \<exists>n. varint_decode (ar_bytes s) = Err (UnexpectedEnd n)
      | (Ready (Err (IncomingError e)), s') \<Rightarrow>
          PollError (ConnectionErrorIncoming e) \<in> set (rs_transport (ar_stream s))
      | (Ready (Err InternalPollError), s') \<Rightarrow> False
      | (Ready Panic, s') \<Rightarrow> False
      | (Pending, s') \<Rightarrow>
          accept_inv s' \<and> ar_bytes s' = ar_bytes s \<and> ar_ty s' = ar_ty s \<and> ar_id s' = ar_id s)"

lemma accept_inv_new: "PollData [] \<notin> set tr \<Longrightarrow> accept_inv (accept_recv_stream_new tr)"
  by (simp add: accept_inv_def accept_recv_stream_new_def recv_stream_new_def recv_inv_def varint_decode_def)

lemma varint_decode_short:
  "varint_decode (b # bs) = Err (UnexpectedEnd (unat (drop_bit 6 b))) \<longleftrightarrow> length (b # bs) < varint_encoded_size b"
  using varint_decode_total [of "b # bs"] by (auto split: if_splits)

lemma expect_varint_first:
  assumes "buf_inv (rs_buf (ar_stream s))" and "buf_contents (rs_buf (ar_stream s)) = b # bs"
  shows "expect_varint s = (if ar_expected s = None then s\<lparr>ar_expected := Some (varint_encoded_size b)\<rparr> else s)"
proof -
  have "hd (buf_chunk (rs_buf (ar_stream s))) = b" and "buf_remaining (rs_buf (ar_stream s)) \<ge> 1"
    using assms by (cases "rs_buf (ar_stream s)"; auto simp: buf_chunk_def buf_remaining_eq append_eq_Cons_conv)+
  then show ?thesis by (simp add: expect_varint_def)
qed

lemma poll_varint_post_back:
  assumes "poll_varint_post s1 out" and "ar_bytes s = ar_bytes s1" and "ar_ty s = ar_ty s1" and "ar_id s = ar_id s1"
    and "set (rs_transport (ar_stream s1)) \<subseteq> set (rs_transport (ar_stream s))"
  shows "poll_varint_post s out"
proof -
  obtain p s' where out: "out = (p, s')" by (cases out)
  show ?thesis
    using assms by (auto simp: out poll_varint_post_def
      split: poll.splits result.splits poll_type_error.splits prod.splits)
qed

lemma poll_varint_data:
  assumes "accept_inv s" and "rs_transport (ar_stream s) = PollData d # evs"
    and IH: "\<And>s1. accept_inv s1 \<Longrightarrow> rs_transport (ar_stream s1) = evs \<Longrightarrow>
      poll_varint_post s1 (poll_next_varint_loop None s1)"
  shows "poll_varint_post s (poll_next_varint_loop None s)"
proof -
  define bl where "bl = rs_buf (ar_stream s)"
  define st where "st = (ar_stream s)\<lparr>rs_transport := evs, rs_buf := bl @ [d]\<rparr>"
  have d: "d \<noteq> []" and inv: "buf_inv bl" "\<not> rs_eos (ar_stream s)" "PollData [] \<notin> set evs"
    using assms(1,2) by (auto simp: accept_inv_def recv_inv_def bl_def)
  have pr: "poll_read (ar_stream s) = (Ready (Ok False), st)"
    using assms(2) d by (simp add: poll_read_def push_bytes_spec st_def bl_def Let_def)
  obtain b bs where b: "buf_contents (bl @ [d]) = b # bs"
    using d by (cases "buf_contents (bl @ [d])") auto
  have invst: "recv_inv st" "buf_inv (rs_buf st)" and bytes: "stream_bytes st = ar_bytes s"
    using inv d assms(2) by (simp_all add: st_def recv_inv_def stream_bytes_def bl_def)
  define s1 where "s1 = expect_varint (s\<lparr>ar_stream := st\<rparr>)"
  have s1: "ar_stream s1 = st" "ar_expected s1 = Some (varint_encoded_size b)" "ar_ty s1 = ar_ty s" "ar_id s1 = ar_id s"
  proof -
    have "ar_expected s = (case buf_contents bl of [] \<Rightarrow> None | b # _ \<Rightarrow> Some (varint_encoded_size b))"
      using assms(1) by (simp add: accept_inv_def bl_def)
    then show "ar_expected s1 = Some (varint_encoded_size b)"
      using expect_varint_first [of "s\<lparr>ar_stream := st\<rparr>" b bs] invst b
      by (cases "buf_contents bl") (auto simp: s1_def st_def)
  qed (simp_all add: s1_def expect_varint_def)
  have buf1: "buf_contents (rs_buf st) = b # bs" using b by (simp add: st_def)
  show ?thesis
  proof (cases "length (b # bs) < varint_encoded_size b")
    case True
    then have "accept_inv s1"
      using s1 invst(1) buf1 inv varint_decode_short [of b bs] by (auto simp: accept_inv_def st_def)
    then have post1: "poll_varint_post s1 (poll_next_varint_loop None s1)"
      by (rule IH) (simp add: s1 st_def)
    have step: "poll_next_varint_loop None s = poll_next_varint_loop None s1"
      using pr s1 True buf1 by (subst poll_next_varint_loop.simps) (simp add: Let_def buf_remaining_eq flip: s1_def)
    show ?thesis
      unfolding step by (rule poll_varint_post_back [OF post1]) (use s1 bytes assms(2) in \<open>auto simp: st_def\<close>)
  next
    case False
    then obtain v where v: "varint_decode (b # bs) = Ok (v, drop (varint_encoded_size b) (b # bs))"
      using varint_decode_total [of "b # bs"] by auto
    define rest where "rest = drop (varint_encoded_size b) (b # bs)"
    obtain p where p: "b # bs = p @ rest"
      using varint_decode_suffix [OF v] by (auto simp: rest_def)
    obtain src1 where src1: "buf_advance (rs_buf st) (buf_remaining (rs_buf st) - length rest) = Ok src1"
      "buf_inv src1" "buf_contents src1 = rest"
      using buf_list.advance_drop [OF invst(2), of "length p"] buf1 p
      by (simp add: buf_remaining_eq) (metis)
    have step: "poll_next_varint_loop None s = (Ready (Ok (v, None)), s1\<lparr>ar_stream := st\<lparr>rs_buf := src1\<rparr>\<rparr>)"
      using pr s1 False buf1 v src1(1)
      by (subst poll_next_varint_loop.simps) (simp add: Let_def buf_remaining_eq flip: s1_def rest_def)
    have "stream_bytes st = (b # bs) @ pending_bytes evs"
      using buf1 inv(2) unfolding stream_bytes_def by (simp add: st_def)
    then have "ar_bytes s = (b # bs) @ pending_bytes evs" using bytes by simp
    then have "varint_decode (ar_bytes s) = Ok (v, rest @ pending_bytes evs)"
      using varint_decode_append [OF v [folded rest_def], of "pending_bytes evs"] by simp
    then show ?thesis
      using step src1 s1 invst(1) inv(2) by (simp add: poll_varint_post_def st_def stream_bytes_def recv_inv_def)
  qed
qed

lemma poll_next_varint_spec:
  assumes "accept_inv s"
  shows "poll_varint_post s (poll_next_varint_loop None s)"
  using assms
proof (induction "rs_transport (ar_stream s)" arbitrary: s)
  case Nil
  then show ?case
    by (subst poll_next_varint_loop.simps) (simp add: poll_read_def poll_varint_post_def)
next
  case (Cons ev evs)
  have eos: "\<not> rs_eos (ar_stream s)" and n: "\<exists>n. varint_decode (buf_contents (rs_buf (ar_stream s))) = Err (UnexpectedEnd n)"
    using Cons.prems by (auto simp: accept_inv_def)
  have ended: "poll_varint_post s (Ready (Err EndOfStreamError), s')" if "pending_bytes (ev # evs) = []" for s'
    using n eos that by (simp add: poll_varint_post_def stream_bytes_def flip: Cons.hyps(2))
  have stop: "poll_varint_post s (poll_next_varint_loop None s)"
    if pr: "poll_read (ar_stream s) = (Ready a, st)" and a: "stopped_by a = Ok (Some e)"
      and buf: "rs_buf st = rs_buf (ar_stream s)" and pend: "pending_bytes (ev # evs) = []" for a st e
  proof -
    define s1 where "s1 = expect_varint (s\<lparr>ar_stream := st\<rparr>)"
    have st: "ar_stream s1 = st" by (simp add: s1_def)
    have ex: "(case ar_expected s1 of None \<Rightarrow> True | Some k \<Rightarrow> buf_remaining (rs_buf st) < k)"
    proof (cases "buf_contents (rs_buf st)")
      case Nil
      then show ?thesis
        using Cons.prems buf by (simp add: s1_def expect_varint_def buf_remaining_eq accept_inv_def)
    next
      case (Cons b bs)
      then have "ar_expected s1 = Some (varint_encoded_size b)" and "\<exists>n. varint_decode (b # bs) = Err (UnexpectedEnd n)"
        using Cons.prems buf by (auto simp: s1_def expect_varint_def accept_inv_def)
      then show ?thesis
        using varint_decode_total [of "b # bs"] Cons by (auto simp: buf_remaining_eq split: if_splits)
    qed
    have "poll_next_varint_loop None s = (Ready (Err EndOfStreamError), s1)"
      using pr a ex st by (subst poll_next_varint_loop.simps)
        (auto simp: Let_def poll_next_varint_loop.simps [of "Some e"] simp flip: s1_def split: option.splits)
    then show ?thesis using ended [OF pend] by simp
  qed
  show ?case
  proof (cases ev)
    case PollPending
    then show ?thesis
      using Cons.prems eos by (subst poll_next_varint_loop.simps)
        (simp add: poll_read_def poll_varint_post_def accept_inv_def recv_inv_def stream_bytes_def Let_def flip: Cons.hyps(2))
  next
    case (PollData d)
    show ?thesis
    proof (rule poll_varint_data [OF Cons.prems])
      show "rs_transport (ar_stream s) = PollData d # evs" using Cons.hyps(2) PollData by simp
    qed (use Cons.hyps(1) in blast)
  next
    case PollEnd
    then show ?thesis
      using Cons.hyps(2) [symmetric] by (intro stop [of "Ok True" "(ar_stream s)\<lparr>rs_transport := evs, rs_eos := True\<rparr>"])
        (auto simp: poll_read_def Let_def split: list.splits)
  next
    case (PollError e)
    show ?thesis
    proof (cases e)
      case (ConnectionErrorIncoming c)
      then show ?thesis
        using PollError by (subst poll_next_varint_loop.simps)
          (simp add: poll_read_def poll_varint_post_def Let_def flip: Cons.hyps(2))
    next
      case (StreamTerminated code)
      then show ?thesis
        using PollError Cons.hyps(2) [symmetric]
        by (intro stop [of "Err e" "(ar_stream s)\<lparr>rs_transport := evs\<rparr>"])
          (auto simp: poll_read_def Let_def split: list.splits)
    next
      case UnknownError
      then show ?thesis
        using PollError Cons.hyps(2) [symmetric]
        by (intro stop [of "Err e" "(ar_stream s)\<lparr>rs_transport := evs\<rparr>"])
          (auto simp: poll_read_def Let_def split: list.splits)
    qed
  qed
qed



section \<open>Reading the identifier\<close>

text \<open>
  The length expected for the type is kept for the identifier. A WebTransport stream,
  whose type takes two bytes, is answered with an internal error as soon as two bytes of a
  longer session identifier are there.
\<close>

theorem long_session_id_is_internal_error:
  assumes "rs_buf (ar_stream s) = []" and "ar_ty s = Some WEBTRANSPORT_UNI" and "ar_id s = None"
    and "ar_expected s = Some 2" and "rs_transport (ar_stream s) = PollData [x, y] # evs"
    and "2 < varint_encoded_size x"
  shows "fst (poll_type s) = Ready (Err InternalPollError)"
proof -
  have "\<exists>e. varint_decode [x, y] = Err e"
    using varint_decode_total [of "[x, y]"] assms(6) by auto
  then show ?thesis
    using assms(1-5) by (auto simp: poll_type_def poll_id_def poll_next_varint_def
      poll_next_varint_loop.simps [of None s] poll_read_def push_bytes_spec Let_def expect_varint_def buf_remaining_def)
qed

theorem long_session_id_is_internal_error_witness:
  "fst (poll_type \<lparr>ar_stream = recv_stream_new [PollData [0x80, 1], PollData [0, 0]],
      ar_ty = Some WEBTRANSPORT_UNI, ar_id = None, ar_expected = Some 2\<rparr>) = Ready (Err InternalPollError)"
  by (rule long_session_id_is_internal_error [where x = "0x80" and y = 1 and evs = "[PollData [0, 0]]"])
    (simp_all add: recv_stream_new_def varint_encoded_size_def)

text \<open>
  An identifier that has arrived in one chunk with the type is not looked at before the
  transport has answered another poll: with a transport that has nothing more to say the
  stream stays pending, and with one that ends a complete identifier of one byte behind a
  type of two is reported as the end of the stream.
\<close>

theorem buffered_id_is_not_read:
  assumes "ar_ty s = Some WEBTRANSPORT_UNI" and "ar_id s = None" and "ar_expected s = Some 2"
    and "buf_contents (rs_buf (ar_stream s)) = [i]"
  shows "if rs_transport (ar_stream s) = [] then poll_type s = (Pending, s)
    else hd (rs_transport (ar_stream s)) = PollEnd \<longrightarrow> fst (poll_type s) = Ready (Err EndOfStreamError)"
  using assms by (cases "rs_transport (ar_stream s)")
    (auto simp: poll_type_def poll_id_def poll_next_varint_def poll_next_varint_loop.simps [of None s]
      poll_next_varint_loop.simps [of "Some EndOfStream"] poll_read_def Let_def expect_varint_def buf_remaining_eq)

theorem buffered_id_is_not_read_witness:
  "fst (poll_type \<lparr>ar_stream = \<lparr>rs_buf = [[4]], rs_eos = False, rs_transport = [PollEnd]\<rparr>,
      ar_ty = Some WEBTRANSPORT_UNI, ar_id = None, ar_expected = Some 2\<rparr>) = Ready (Err EndOfStreamError)"
  using buffered_id_is_not_read [of "\<lparr>ar_stream = \<lparr>rs_buf = [[4]], rs_eos = False, rs_transport = [PollEnd]\<rparr>,
      ar_ty = Some WEBTRANSPORT_UNI, ar_id = None, ar_expected = Some 2\<rparr>" 4]
  by simp

end
