(* ===== verification/Vas.thy ===== *)
theory Vas
  imports Prelude
begin

text \<open>
  The address space of the dynamic table, \<open>h3/src/qpack/vas.rs\<close>: absolute indices count
  insertions from 1, relative ones count back from the latest insertion or from a base,
  post-base ones count forward from a base, and all of them resolve to a position in the queue
  of the entries that are still there. The arithmetic panics where \<open>usize\<close> overflows.
\<close>

section \<open>Model\<close>

datatype vas_error = RelativeIndex nat | PostbaseIndex nat | VasIndex nat

record vas =
  vas_inserted :: nat
  vas_dropped :: nat
  vas_delta :: nat

definition vas_default :: vas where
  "vas_default = \<lparr>vas_inserted = 0, vas_dropped = 0, vas_delta = 0\<rparr>"

definition vas_add :: "vas \<Rightarrow> ('e, nat \<times> vas) result" where
  "vas_add v =
     and_then (uadd (vas_inserted v) 1) (\<lambda>i.
     and_then (uadd (vas_delta v) 1) (\<lambda>d.
       Ok (i, v\<lparr>vas_inserted := i, vas_delta := d\<rparr>)))"

definition vas_drop :: "vas \<Rightarrow> ('e, vas) result" where
  "vas_drop v =
     and_then (uadd (vas_dropped v) 1) (\<lambda>p.
     and_then (usub (vas_delta v) 1) (\<lambda>d.
       Ok (v\<lparr>vas_dropped := p, vas_delta := d\<rparr>)))"

definition vas_relative :: "vas \<Rightarrow> nat \<Rightarrow> (vas_error, nat) result" where
  "vas_relative v index =
     (if vas_inserted v < index \<or> vas_delta v = 0 \<or> vas_inserted v - index \<le> vas_dropped v
      then Err (RelativeIndex index)
      else
        and_then (usub (vas_inserted v) (vas_dropped v)) (\<lambda>a.
        and_then (usub a index) (\<lambda>b. usub b 1)))"

definition vas_evicted :: "vas \<Rightarrow> nat \<Rightarrow> bool" where
  "vas_evicted v index \<longleftrightarrow> index \<noteq> 0 \<and> index \<le> vas_dropped v"

definition vas_relative_base :: "vas \<Rightarrow> nat \<Rightarrow> nat \<Rightarrow> (vas_error, nat) result" where
  "vas_relative_base v base index =
     (if vas_delta v = 0 \<or> index > base \<or> base - index \<le> vas_dropped v
      then Err (RelativeIndex index)
      else
        and_then (usub base (vas_dropped v)) (\<lambda>a.
        and_then (usub a index) (\<lambda>b. usub b 1)))"

definition vas_post_base :: "vas \<Rightarrow> nat \<Rightarrow> nat \<Rightarrow> (vas_error, nat) result" where
  "vas_post_base v base index =
     (if vas_delta v = 0 then Err (PostbaseIndex index)
      else
        and_then (uadd base index) (\<lambda>a.
          if a \<ge> vas_inserted v \<or> a < vas_dropped v then Err (PostbaseIndex index)
          else usub a (vas_dropped v)))"

definition vas_index :: "vas \<Rightarrow> nat \<Rightarrow> (vas_error, nat) result" where
  "vas_index v index =
     (if index \<ge> vas_delta v then Err (VasIndex index)
      else and_then (uadd index (vas_dropped v)) (\<lambda>a. uadd a 1))"

definition vas_largest_ref :: "vas \<Rightarrow> ('e, nat) result" where
  "vas_largest_ref v = usub (vas_inserted v) (vas_dropped v)"

definition vas_total_inserted :: "vas \<Rightarrow> nat" where
  "vas_total_inserted v = vas_inserted v"

section \<open>Addresses\<close>

text \<open>Between its two counters the space holds as many elements as \<open>delta\<close> says.\<close>

definition vas_inv :: "vas \<Rightarrow> bool" where
  "vas_inv v \<longleftrightarrow> vas_inserted v = vas_dropped v + vas_delta v \<and> vas_inserted v \<le> usize_max"

text \<open>An absolute index is live between the two counters; its position in the container.\<close>

definition vas_live :: "vas \<Rightarrow> nat \<Rightarrow> bool" where
  "vas_live v a \<longleftrightarrow> vas_dropped v < a \<and> a \<le> vas_inserted v"

definition vas_pos :: "vas \<Rightarrow> nat \<Rightarrow> nat" where
  "vas_pos v a = a - vas_dropped v - 1"

lemma vas_inv_default [simp]: "vas_inv vas_default"
  by (simp add: vas_inv_def vas_default_def usize_max_def)

lemma vas_add_spec:
  assumes "vas_inv v" and "vas_inserted v < usize_max"
  shows "vas_add v = Ok (Suc (vas_inserted v),
    v\<lparr>vas_inserted := Suc (vas_inserted v), vas_delta := Suc (vas_delta v)\<rparr>)"
    and "vas_inv (v\<lparr>vas_inserted := Suc (vas_inserted v), vas_delta := Suc (vas_delta v)\<rparr>)"
  using assms by (auto simp: vas_add_def vas_inv_def)

lemma vas_drop_spec:
  assumes "vas_inv v" and "vas_delta v \<noteq> 0"
  shows "vas_drop v = Ok (v\<lparr>vas_dropped := Suc (vas_dropped v), vas_delta := vas_delta v - 1\<rparr>)"
    and "vas_inv (v\<lparr>vas_dropped := Suc (vas_dropped v), vas_delta := vas_delta v - 1\<rparr>)"
  using assms by (auto simp: vas_drop_def vas_inv_def)

lemma vas_pos_bound: "vas_inv v \<Longrightarrow> vas_live v a \<Longrightarrow> vas_pos v a < vas_delta v"
  by (auto simp: vas_inv_def vas_live_def vas_pos_def)

lemma vas_relative_eq:
  assumes "vas_inv v"
  shows "vas_relative v index =
    (if index < vas_inserted v \<and> vas_live v (vas_inserted v - index)
     then Ok (vas_pos v (vas_inserted v - index)) else Err (RelativeIndex index))"
  using assms by (auto simp: vas_relative_def vas_inv_def vas_live_def vas_pos_def usub_def)

lemma vas_relative_base_eq:
  assumes "vas_inv v"
  shows "vas_relative_base v base index =
    (if vas_delta v \<noteq> 0 \<and> index \<le> base \<and> vas_dropped v < base - index
     then Ok (vas_pos v (base - index)) else Err (RelativeIndex index))"
  using assms by (auto simp: vas_relative_base_def vas_inv_def vas_pos_def usub_def)

lemma vas_relative_base_live:
  assumes "vas_inv v" and "vas_live v a" and "a \<le> base"
  shows "vas_relative_base v base (base - a) = Ok (vas_pos v a)"
  using assms by (auto simp: vas_relative_base_eq vas_live_def vas_inv_def)

lemma vas_post_base_live:
  assumes "vas_inv v" and "vas_live v a" and "base < a"
  shows "vas_post_base v base (a - base - 1) = Ok (vas_pos v a)"
  using assms by (auto simp: vas_post_base_def vas_live_def vas_inv_def vas_pos_def usub_def)

lemma vas_index_eq:
  assumes "vas_inv v"
  shows "vas_index v i = (if i < vas_delta v then Ok (vas_dropped v + i + 1) else Err (VasIndex i))"
  using assms by (auto simp: vas_index_def vas_inv_def add.commute)

text \<open>
  Every live entry is named by a relative index, and by an index relative to any base or
  past it, and all of these and its position resolve to the same place; nothing that was
  dropped or not yet inserted is reachable relative to the latest insertion.
\<close>
theorem vas_addressing:
  assumes "vas_inv v"
  shows "(vas_live v a \<longrightarrow> vas_relative v (vas_inserted v - a) = Ok (vas_pos v a) \<and>
      vas_index v (vas_pos v a) = Ok a \<and>
      (if a \<le> base then vas_relative_base v base (base - a) = Ok (vas_pos v a)
       else vas_post_base v base (a - base - 1) = Ok (vas_pos v a))) \<and>
    (vas_relative v i = Ok p \<longrightarrow> (\<exists>a. vas_live v a \<and> p = vas_pos v a \<and> p < vas_delta v))"
proof (intro conjI impI)
  assume live: "vas_live v a"
  show "vas_relative v (vas_inserted v - a) = Ok (vas_pos v a)"
    using assms live by (auto simp: vas_relative_eq vas_live_def)
  show "vas_index v (vas_pos v a) = Ok a"
    using assms live by (auto simp: vas_index_eq vas_live_def vas_pos_def vas_inv_def)
  show "if a \<le> base then vas_relative_base v base (base - a) = Ok (vas_pos v a)
        else vas_post_base v base (a - base - 1) = Ok (vas_pos v a)"
    using vas_relative_base_live [OF assms live, of base] vas_post_base_live [OF assms live, of base] by auto
next
  assume "vas_relative v i = Ok p"
  then show "\<exists>a. vas_live v a \<and> p = vas_pos v a \<and> p < vas_delta v"
    using assms by (auto simp: vas_relative_eq vas_pos_bound split: if_splits)
qed

theorem vas_addressing_witness:
  "vas_relative \<lparr>vas_inserted = 21, vas_dropped = 15, vas_delta = 6\<rparr> 5 = Ok 0"
  using vas_addressing [of "\<lparr>vas_inserted = 21, vas_dropped = 15, vas_delta = 6\<rparr>" 16]
  by (simp add: vas_inv_def vas_live_def vas_pos_def usize_max_def)

end
