(* ===== verification/StaticTable.thy ===== *)
theory StaticTable
  imports Prelude
begin

text \<open>
  Header fields and the static table of QPACK: \<open>h3/src/qpack/field.rs\<close> and
  \<open>h3/src/qpack/static_.rs\<close>. The match arms of the source are association lists in the order
  of the arms, so that the first arm that fits is the one \<open>map_of\<close> finds; byte string
  literals are written with \<open>ascii\<close>. The lemmas show that the two lookups are the inverse of
  the indexing, which lets the encoder and the decoder meet.
\<close>

section \<open>Header fields\<close>

definition ascii :: "string \<Rightarrow> bytes" where
  "ascii s = map of_char s"

definition quoted :: "string \<Rightarrow> string" where
  "quoted s = CHR 0x27 # s @ [CHR 0x27]"

definition ESTIMATED_OVERHEAD_BYTES :: nat where
  "ESTIMATED_OVERHEAD_BYTES = 32"

record header_field =
  hf_name :: bytes
  hf_value :: bytes

definition header_field_new :: "bytes \<Rightarrow> bytes \<Rightarrow> header_field" where
  "header_field_new n v = \<lparr>hf_name = n, hf_value = v\<rparr>"

definition header_field_of_pair :: "bytes \<times> bytes \<Rightarrow> header_field" where
  "header_field_of_pair h = (case h of (n, v) \<Rightarrow> \<lparr>hf_name = n, hf_value = v\<rparr>)"

definition into_inner :: "header_field \<Rightarrow> bytes \<times> bytes" where
  "into_inner f = (hf_name f, hf_value f)"

definition mem_size :: "header_field \<Rightarrow> nat" where
  "mem_size f = length (hf_name f) + length (hf_value f) + ESTIMATED_OVERHEAD_BYTES"

definition with_value :: "header_field \<Rightarrow> bytes \<Rightarrow> header_field" where
  "with_value f v = \<lparr>hf_name = hf_name f, hf_value = v\<rparr>"

section \<open>The table\<close>

datatype static_error = StaticUnknown nat

definition predefined_literals :: "(string \<times> string) list" where
  "predefined_literals = [
     ('':authority'', ''''), ('':path'', ''/''), (''age'', ''0''),
     (''content-disposition'', ''''), (''content-length'', ''0''), (''cookie'', ''''),
     (''date'', ''''), (''etag'', ''''), (''if-modified-since'', ''''),
     (''if-none-match'', ''''), (''last-modified'', ''''), (''link'', ''''),
     (''location'', ''''), (''referer'', ''''), (''set-cookie'', ''''),
     ('':method'', ''CONNECT''), ('':method'', ''DELETE''), ('':method'', ''GET''),
     ('':method'', ''HEAD''), ('':method'', ''OPTIONS''), ('':method'', ''POST''),
     ('':method'', ''PUT''), ('':scheme'', ''http''), ('':scheme'', ''https''),
     ('':status'', ''103''), ('':status'', ''200''), ('':status'', ''304''),
     ('':status'', ''404''), ('':status'', ''503''), (''accept'', ''*/*''),
     (''accept'', ''application/dns-message''), (''accept-encoding'', ''gzip, deflate, br''),
     (''accept-ranges'', ''bytes''), (''access-control-allow-headers'', ''cache-control''),
     (''access-control-allow-headers'', ''content-type''),
     (''access-control-allow-origin'', ''*''), (''cache-control'', ''max-age=0''),
     (''cache-control'', ''max-age=2592000''), (''cache-control'', ''max-age=604800''),
     (''cache-control'', ''no-cache''), (''cache-control'', ''no-store''),
     (''cache-control'', ''public, max-age=31536000''), (''content-encoding'', ''br''),
     (''content-encoding'', ''gzip''), (''content-type'', ''application/dns-message''),
     (''content-type'', ''application/javascript''), (''content-type'', ''application/json''),
     (''content-type'', ''application/x-www-form-urlencoded''),
     (''content-type'', ''image/gif''), (''content-type'', ''image/jpeg''),
     (''content-type'', ''image/png''), (''content-type'', ''text/css''),
     (''content-type'', ''text/html; charset=utf-8''), (''content-type'', ''text/plain''),
     (''content-type'', ''text/plain;charset=utf-8''), (''range'', ''bytes=0-''),
     (''strict-transport-security'', ''max-age=31536000''),
     (''strict-transport-security'', ''max-age=31536000; includesubdomains''),
     (''strict-transport-security'', ''max-age=31536000; includesubdomains; preload''),
     (''vary'', ''accept-encoding''), (''vary'', ''origin''),
     (''x-content-type-options'', ''nosniff''), (''x-xss-protection'', ''1; mode=block''),
     ('':status'', ''100''), ('':status'', ''204''), ('':status'', ''206''),
     ('':status'', ''302''), ('':status'', ''400''), ('':status'', ''403''),
     ('':status'', ''421''), ('':status'', ''425''), ('':status'', ''500''),
     (''accept-language'', ''''), (''access-control-allow-credentials'', ''FALSE''),
     (''access-control-allow-credentials'', ''TRUE''), (''access-control-allow-headers'', ''*''),
     (''access-control-allow-methods'', ''get''),
     (''access-control-allow-methods'', ''get, post, options''),
     (''access-control-allow-methods'', ''options''),
     (''access-control-expose-headers'', ''content-length''),
     (''access-control-request-headers'', ''content-type''),
     (''access-control-request-method'', ''get''), (''access-control-request-method'', ''post''),
     (''alt-svc'', ''clear''), (''authorization'', ''''),
     (''content-security-policy'', 
      ''script-src '' @ quoted ''none'' @ ''; object-src '' @ quoted ''none'' @
      ''; base-uri '' @ quoted ''none''),
     (''early-data'', ''1''), (''expect-ct'', ''''), (''forwarded'', ''''), (''if-range'', ''''),
     (''origin'', ''''), (''purpose'', ''prefetch''), (''server'', ''''),
     (''timing-allow-origin'', ''*''), (''upgrade-insecure-requests'', ''1''),
     (''user-agent'', ''''), (''x-forwarded-for'', ''''), (''x-frame-options'', ''deny''),
     (''x-frame-options'', ''sameorigin'')]"

definition PREDEFINED_HEADERS :: "header_field list" where
  "PREDEFINED_HEADERS =
     map (\<lambda>(n, v). \<lparr>hf_name = ascii n, hf_value = ascii v\<rparr>) predefined_literals"

definition static_get :: "nat \<Rightarrow> (static_error, header_field) result" where
  "static_get index =
     (if index < length PREDEFINED_HEADERS then Ok (PREDEFINED_HEADERS ! index)
      else Err (StaticUnknown index))"

definition find_arms :: "(string \<times> string \<times> nat) list" where
  "find_arms = [
     ('':authority'', '''', 0), ('':path'', ''/'', 1), (''age'', ''0'', 2),
     (''content-disposition'', '''', 3), (''content-length'', ''0'', 4), (''cookie'', '''', 5),
     (''date'', '''', 6), (''etag'', '''', 7), (''if-modified-since'', '''', 8),
     (''if-none-match'', '''', 9), (''last-modified'', '''', 10), (''link'', '''', 11),
     (''location'', '''', 12), (''referer'', '''', 13), (''set-cookie'', '''', 14),
     ('':method'', ''CONNECT'', 15), ('':method'', ''DELETE'', 16), ('':method'', ''GET'', 17),
     ('':method'', ''HEAD'', 18), ('':method'', ''OPTIONS'', 19), ('':method'', ''POST'', 20),
     ('':method'', ''PUT'', 21), ('':scheme'', ''http'', 22), ('':scheme'', ''https'', 23),
     ('':status'', ''103'', 24), ('':status'', ''200'', 25), ('':status'', ''304'', 26),
     ('':status'', ''404'', 27), ('':status'', ''503'', 28), (''accept'', ''*/*'', 29),
     (''accept'', ''application/dns-message'', 30),
     (''accept-encoding'', ''gzip, deflate, br'', 31), (''accept-ranges'', ''bytes'', 32),
     (''access-control-allow-headers'', ''cache-control'', 33),
     (''access-control-allow-headers'', ''content-type'', 34),
     (''access-control-allow-origin'', ''*'', 35), (''cache-control'', ''max-age=0'', 36),
     (''cache-control'', ''max-age=2592000'', 37), (''cache-control'', ''max-age=604800'', 38),
     (''cache-control'', ''no-cache'', 39), (''cache-control'', ''no-store'', 40),
     (''cache-control'', ''public, max-age=31536000'', 41), (''content-encoding'', ''br'', 42),
     (''content-encoding'', ''gzip'', 43), (''content-type'', ''application/dns-message'', 44),
     (''content-type'', ''application/javascript'', 45),
     (''content-type'', ''application/json'', 46),
     (''content-type'', ''application/x-www-form-urlencoded'', 47),
     (''content-type'', ''image/gif'', 48), (''content-type'', ''image/jpeg'', 49),
     (''content-type'', ''image/png'', 50), (''content-type'', ''text/css'', 51),
     (''content-type'', ''text/html; charset=utf-8'', 52),
     (''content-type'', ''text/plain'', 53),
     (''content-type'', ''text/plain;charset=utf-8'', 54), (''range'', ''bytes=0-'', 55),
     (''strict-transport-security'', ''max-age=31536000'', 56),
     (''strict-transport-security'', ''max-age=31536000; includesubdomains'', 57),
     (''strict-transport-security'', ''max-age=31536000; includesubdomains; preload'', 58),
     (''vary'', ''accept-encoding'', 59), (''vary'', ''origin'', 60),
     (''x-content-type-options'', ''nosniff'', 61),
     (''x-xss-protection'', ''1; mode=block'', 62), ('':status'', ''100'', 63),
     ('':status'', ''204'', 64), ('':status'', ''206'', 65), ('':status'', ''302'', 66),
     ('':status'', ''400'', 67), ('':status'', ''403'', 68), ('':status'', ''421'', 69),
     ('':status'', ''425'', 70), ('':status'', ''500'', 71), (''accept-language'', '''', 72),
     (''access-control-allow-credentials'', ''FALSE'', 73),
     (''access-control-allow-credentials'', ''TRUE'', 74),
     (''access-control-allow-headers'', ''*'', 75),
     (''access-control-allow-methods'', ''get'', 76),
     (''access-control-allow-methods'', ''get, post, options'', 77),
     (''access-control-allow-methods'', ''options'', 78),
     (''access-control-expose-headers'', ''content-length'', 79),
     (''access-control-request-headers'', ''content-type'', 80),
     (''access-control-request-method'', ''get'', 81),
     (''access-control-request-method'', ''post'', 82), (''alt-svc'', ''clear'', 83),
     (''authorization'', '''', 84),
     (''content-security-policy'', 
      ''script-src '' @ quoted ''none'' @ ''; object-src '' @ quoted ''none'' @
      ''; base-uri '' @ quoted ''none'', 85),
     (''early-data'', ''1'', 86), (''expect-ct'', '''', 87), (''forwarded'', '''', 88),
     (''if-range'', '''', 89), (''origin'', '''', 90), (''purpose'', ''prefetch'', 91),
     (''server'', '''', 92), (''timing-allow-origin'', ''*'', 93),
     (''upgrade-insecure-requests'', ''1'', 94), (''user-agent'', '''', 95),
     (''x-forwarded-for'', '''', 96), (''x-frame-options'', ''deny'', 97),
     (''x-frame-options'', ''sameorigin'', 98)]"

definition static_find :: "header_field \<Rightarrow> nat option" where
  "static_find f =
     map_of (map (\<lambda>(n, v, i). ((ascii n, ascii v), i)) find_arms) (hf_name f, hf_value f)"

definition find_name_arms :: "(string \<times> nat) list" where
  "find_name_arms = [
     ('':authority'', 0), ('':path'', 1), (''age'', 2), (''content-disposition'', 3),
     (''content-length'', 4), (''cookie'', 5), (''date'', 6), (''etag'', 7),
     (''if-modified-since'', 8), (''if-none-match'', 9), (''last-modified'', 10), (''link'', 11),
     (''location'', 12), (''referer'', 13), (''set-cookie'', 14), ('':method'', 15),
     ('':scheme'', 22), ('':status'', 24), (''accept'', 29), (''accept-encoding'', 31),
     (''accept-ranges'', 32), (''access-control-allow-headers'', 33),
     (''access-control-allow-origin'', 35), (''cache-control'', 36), (''content-encoding'', 42),
     (''content-type'', 44), (''range'', 55), (''strict-transport-security'', 56),
     (''vary'', 59), (''x-content-type-options'', 61), (''x-xss-protection'', 62),
     (''accept-language'', 72), (''access-control-allow-credentials'', 73),
     (''access-control-allow-methods'', 76), (''access-control-expose-headers'', 79),
     (''access-control-request-headers'', 80), (''access-control-request-method'', 81),
     (''alt-svc'', 83), (''authorization'', 84), (''content-security-policy'', 85),
     (''early-data'', 86), (''expect-ct'', 87), (''forwarded'', 88), (''if-range'', 89),
     (''origin'', 90), (''purpose'', 91), (''server'', 92), (''timing-allow-origin'', 93),
     (''upgrade-insecure-requests'', 94), (''user-agent'', 95), (''x-forwarded-for'', 96),
     (''x-frame-options'', 97)]"

definition static_find_name :: "bytes \<Rightarrow> nat option" where
  "static_find_name n = map_of (map (\<lambda>(s, i). (ascii s, i)) find_name_arms) n"

section \<open>Byte strings and the literals of the source\<close>

lemma inj_ascii: "inj ascii"
proof (rule injI)
  fix s t :: string
  have "c = d" if "(of_char c :: u8) = of_char d" for c d :: char
  proof -
    have "unat (of_char c :: u8) = (of_char c :: nat)" for c :: char
      using unat_u8_of_nat [of "of_char c"] by (simp only: of_nat_of_char nat_of_char_less_256)
    with that have "(of_char c :: nat) = of_char d" by metis
    then show ?thesis by simp
  qed
  then have inj: "inj (of_char :: char \<Rightarrow> u8)" by (simp add: inj_on_def)
  show "ascii s = ascii t \<Longrightarrow> s = t"
    unfolding ascii_def using inj by (simp add: inj_map_eq_map)
qed

lemma ascii_eq_iff [simp]: "ascii s = ascii t \<longleftrightarrow> s = t"
  using inj_ascii by (simp add: inj_eq)

lemma length_ascii [simp]: "length (ascii s) = length s"
  by (simp add: ascii_def)

lemma length_predefined: "length predefined_literals = 99"
  by (simp add: predefined_literals_def)

lemma distinct_predefined: "distinct predefined_literals"
  by code_simp

lemma find_arms_zip:
  "find_arms = map (\<lambda>(h, i). (fst h, snd h, i)) (zip predefined_literals [0..<99])"
  by code_simp

lemma find_name_arms_hit:
  "list_all (\<lambda>(n, i). i < 99 \<and> fst (predefined_literals ! i) = n) find_name_arms"
  by code_simp

lemma find_name_arms_total:
  "list_all (\<lambda>(n, v). List.member (map fst find_name_arms) n) predefined_literals"
  by code_simp

section \<open>The lookups are the inverse of the indexing\<close>

lemma length_PREDEFINED_HEADERS [simp]: "length PREDEFINED_HEADERS = 99"
  by (simp add: PREDEFINED_HEADERS_def length_predefined)

lemma predefined_nth:
  "i < 99 \<Longrightarrow> PREDEFINED_HEADERS ! i =
     \<lparr>hf_name = ascii (fst (predefined_literals ! i)), hf_value = ascii (snd (predefined_literals ! i))\<rparr>"
  by (simp add: PREDEFINED_HEADERS_def length_predefined case_prod_beta)

lemma static_find_Some_iff:
  "static_find f = Some i \<longleftrightarrow> i < 99 \<and> PREDEFINED_HEADERS ! i = f"
proof -
  let ?key = "\<lambda>h. (ascii (fst h), ascii (snd h))"
  let ?ks = "map ?key predefined_literals"
  have arms: "map (\<lambda>(n, v, i). ((ascii n, ascii v), i)) find_arms = zip ?ks [0..<99]"
    by (simp add: find_arms_zip zip_map1 case_prod_beta comp_def)
  have "inj_on ?key (set predefined_literals)" by (auto intro!: inj_onI simp: prod_eq_iff)
  then have "distinct ?ks" by (simp add: distinct_map distinct_predefined)
  then have "static_find f = Some i \<longleftrightarrow> ((hf_name f, hf_value f), i) \<in> set (zip ?ks [0..<99])"
    unfolding static_find_def arms by (intro map_of_eq_Some_iff) (simp add: length_predefined)
  also have "\<dots> \<longleftrightarrow> i < 99 \<and> ?ks ! i = (hf_name f, hf_value f)"
    by (auto simp: in_set_zip length_predefined simp del: nth_map intro: exI [of _ i])
  also have "\<dots> \<longleftrightarrow> i < 99 \<and> PREDEFINED_HEADERS ! i = f"
    by (cases f) (auto simp: predefined_nth length_predefined)
  finally show ?thesis .
qed

lemma static_find_name_Some:
  assumes "static_find_name n = Some i"
  shows "i < 99 \<and> hf_name (PREDEFINED_HEADERS ! i) = n"
proof -
  from assms have "(n, i) \<in> set (map (\<lambda>(s, i). (ascii s, i)) find_name_arms)"
    unfolding static_find_name_def by (rule map_of_SomeD)
  then obtain s where s: "(s, i) \<in> set find_name_arms" "n = ascii s" by auto
  with find_name_arms_hit show ?thesis by (auto simp: list_all_iff predefined_nth)
qed

lemma static_find_name_None_iff:
  "static_find_name n = None \<longleftrightarrow> n \<notin> hf_name ` set PREDEFINED_HEADERS"
proof
  assume none: "static_find_name n = None"
  show "n \<notin> hf_name ` set PREDEFINED_HEADERS"
  proof
    assume "n \<in> hf_name ` set PREDEFINED_HEADERS"
    then obtain s v where "(s, v) \<in> set predefined_literals" "n = ascii s"
      by (auto simp: PREDEFINED_HEADERS_def)
    with find_name_arms_total have "s \<in> fst ` set find_name_arms"
      by (fastforce simp: list_all_iff)
    with none \<open>n = ascii s\<close> show False
      unfolding static_find_name_def map_of_eq_None_iff by force
  qed
next
  assume "n \<notin> hf_name ` set PREDEFINED_HEADERS"
  moreover have "hf_name (PREDEFINED_HEADERS ! i) \<in> hf_name ` set PREDEFINED_HEADERS" if "i < 99" for i
    using that by simp
  ultimately show "static_find_name n = None"
    using static_find_name_Some [of n] by (metis not_Some_eq)
qed

lemma static_get_simps [simp]:
  "i < 99 \<Longrightarrow> static_get i = Ok (PREDEFINED_HEADERS ! i)"
  "99 \<le> i \<Longrightarrow> static_get i = Err (StaticUnknown i)"
  by (simp_all add: static_get_def)

lemma static_find_get: "static_find f = Some i \<Longrightarrow> static_get i = Ok f"
  by (simp add: static_find_Some_iff)

lemma static_find_name_get:
  "static_find_name n = Some i \<Longrightarrow> \<exists>f. static_get i = Ok f \<and> hf_name f = n"
  using static_find_name_Some [of n i] by simp

text \<open>
  The static table and its two lookups agree: a field is found at an index exactly when the
  entry at that index is the field, an index is outside the table exactly from 99 on, and a name
  is found at an entry that has it, whenever any entry does.
\<close>
theorem static_table_lookup:
  "(static_find f = Some i) = (static_get i = Ok f) \<and>
   (static_get j = Err (StaticUnknown j)) = (99 \<le> j) \<and>
   (case static_find_name n of
      Some k \<Rightarrow> \<exists>g. static_get k = Ok g \<and> hf_name g = n
    | None \<Rightarrow> \<not> (\<exists>k g. static_get k = Ok g \<and> hf_name g = n))"
proof (intro conjI)
  show "(static_find f = Some i) = (static_get i = Ok f)"
    by (auto simp: static_find_Some_iff static_get_def split: if_splits)
  show "(static_get j = Err (StaticUnknown j)) = (99 \<le> j)"
    by (simp add: static_get_def not_less)
  show "case static_find_name n of
            Some k \<Rightarrow> \<exists>g. static_get k = Ok g \<and> hf_name g = n
          | None \<Rightarrow> \<not> (\<exists>k g. static_get k = Ok g \<and> hf_name g = n)"
  proof (cases "static_find_name n")
    case None
    then have "n \<notin> hf_name ` set PREDEFINED_HEADERS" by (simp add: static_find_name_None_iff)
    then show ?thesis using None by (auto simp: static_get_def split: if_splits)
  next
    case (Some k)
    then show ?thesis using static_find_name_get by auto
  qed
qed

end
