(* ===== verification/DynamicTable.thy ===== *)
theory DynamicTable
  imports Vas StaticTable "HOL-Library.AList"
begin

text \<open>
  The dynamic table of QPACK, \<open>h3/src/qpack/dynamic.rs\<close>: the queue of entries with its size
  limit, the maps from fields and names to absolute indices, and the tracking of the entries
  that unacknowledged field sections refer to. Methods that can fail after they have changed
  the table return the table beside their result. A hash map that is only looked up is a
  function, one that is iterated over is an association list.
\<close>

section \<open>Data\<close>

definition SETTINGS_MAX_TABLE_CAPACITY_MAX :: nat where
  "SETTINGS_MAX_TABLE_CAPACITY_MAX = 1073741823"

definition SETTINGS_MAX_BLOCKED_STREAMS_MAX :: nat where
  "SETTINGS_MAX_BLOCKED_STREAMS_MAX = 65535"

datatype dynamic_error =
    BadRelativeIndex nat
  | BadPostbaseIndex nat
  | BadIndex nat
  | MaxTableSizeReached
  | MaximumTableSizeTooLarge
  | MaxBlockedStreamsTooLarge
  | UnknownStreamId nat
  | NoTrackingData
  | InvalidTrackingCount

fun dynamic_error_from_vas :: "vas_error \<Rightarrow> dynamic_error" where
  "dynamic_error_from_vas (RelativeIndex e) = BadRelativeIndex e"
| "dynamic_error_from_vas (PostbaseIndex e) = BadPostbaseIndex e"
| "dynamic_error_from_vas (VasIndex e) = BadIndex e"

datatype dynamic_lookup_result =
    LookupStatic nat
  | LookupRelative (lr_index: nat) (lr_absolute: nat)
  | LookupPostBase (lp_index: nat) (lp_absolute: nat)
  | NotFound

datatype dynamic_insertion_result =
    Inserted (ins_postbase: nat) (ins_absolute: nat)
  | Duplicated (dup_relative: nat) (dup_postbase: nat) (dup_absolute: nat)
  | InsertedWithNameRef (inr_postbase: nat) (inr_relative: nat) (inr_absolute: nat)
  | InsertedWithStaticNameRef (isr_postbase: nat) (isr_index: nat) (isr_absolute: nat)
  | NotInserted dynamic_lookup_result

type_synonym refs = "(nat \<times> nat) list"

record dynamic_table =
  dt_fields :: "header_field list"
  dt_curr_size :: nat
  dt_max_size :: nat
  dt_vas :: vas
  dt_field_map :: "header_field \<rightharpoonup> nat"
  dt_name_map :: "bytes \<rightharpoonup> nat"
  dt_track_map :: "nat \<rightharpoonup> nat"
  dt_track_blocks :: "nat \<rightharpoonup> refs list"
  dt_largest_known_received :: nat
  dt_blocked_max :: nat
  dt_blocked_count :: nat
  dt_blocked_streams :: refs

definition dynamic_table_new :: dynamic_table where
  "dynamic_table_new = \<lparr>dt_fields = [], dt_curr_size = 0, dt_max_size = 0, dt_vas = vas_default,
     dt_field_map = Map.empty, dt_name_map = Map.empty, dt_track_map = Map.empty,
     dt_track_blocks = Map.empty, dt_largest_known_received = 0, dt_blocked_max = 0,
     dt_blocked_count = 0, dt_blocked_streams = []\<rparr>"

section \<open>Insertion and eviction\<close>

definition is_tracked :: "dynamic_table \<Rightarrow> nat \<Rightarrow> bool" where
  "is_tracked t reference = (case dt_track_map t reference of Some count \<Rightarrow> count > 0 | None \<Rightarrow> False)"

fun can_free_loop ::
  "dynamic_table \<Rightarrow> nat \<Rightarrow> nat \<Rightarrow> header_field list \<Rightarrow> nat \<Rightarrow> nat \<Rightarrow> (dynamic_error, nat \<times> nat) result"
where
  "can_free_loop t lower_bound idx [] hypothetic evictable = Ok (hypothetic, evictable)"
| "can_free_loop t lower_bound idx (to_evict # rest) hypothetic evictable =
     (if hypothetic \<le> lower_bound then Ok (hypothetic, evictable)
      else
        and_then (unwrap (vas_index (dt_vas t) idx)) (\<lambda>reference.
          if is_tracked t reference then Ok (hypothetic, evictable)
          else
            and_then (usub hypothetic (mem_size to_evict)) (\<lambda>hypothetic1.
              can_free_loop t lower_bound (Suc idx) rest hypothetic1 (Suc evictable))))"

definition can_free :: "dynamic_table \<Rightarrow> nat \<Rightarrow> (dynamic_error, nat option) result" where
  "can_free t required =
     (if required > dt_max_size t then Err MaxTableSizeReached
      else
        and_then (usub (dt_max_size t) (dt_curr_size t)) (\<lambda>room.
          if room \<ge> required then Ok (Some 0)
          else
            and_then (usub (dt_max_size t) required) (\<lambda>lower_bound.
            and_then (can_free_loop t lower_bound 0 (dt_fields t) (dt_curr_size t) 0)
              (\<lambda>(hypothetic, evictable).
            and_then (usub (dt_max_size t) hypothetic) (\<lambda>free.
              if required \<le> free then Ok (Some evictable) else Ok None)))))"

definition forget_evicted :: "vas \<Rightarrow> 'k \<Rightarrow> ('k \<rightharpoonup> nat) \<Rightarrow> ('k \<rightharpoonup> nat)" where
  "forget_evicted v k m =
     (case m k of Some a \<Rightarrow> if vas_evicted v a then m(k := None) else m | None \<Rightarrow> m)"

definition evict_front :: "header_field \<Rightarrow> header_field list \<Rightarrow> dynamic_table \<Rightarrow>
    (dynamic_error, unit) result \<times> dynamic_table" where
  "evict_front field rest t =
     (let t1 = t\<lparr>dt_fields := rest\<rparr> in
      st_then (usub (dt_curr_size t1) (mem_size field), t1) (\<lambda>c t1.
      let t2 = t1\<lparr>dt_curr_size := c\<rparr> in
      st_then (vas_drop (dt_vas t2), t2) (\<lambda>v t2.
        (Ok (), t2\<lparr>dt_vas := v,
           dt_name_map := forget_evicted v (hf_name field) (dt_name_map t2),
           dt_field_map := forget_evicted v field (dt_field_map t2)\<rparr>))))"

fun evict :: "nat \<Rightarrow> dynamic_table \<Rightarrow> (dynamic_error, unit) result \<times> dynamic_table" where
  "evict 0 t = (Ok (), t)"
| "evict (Suc n) t =
     (case dt_fields t of
        [] \<Rightarrow> (Err MaxTableSizeReached, t)
      | field # rest \<Rightarrow> st_then (evict_front field rest t) (\<lambda>_ t1. evict n t1))"

definition insert_back :: "header_field \<Rightarrow> dynamic_table \<Rightarrow>
    (dynamic_error, nat option) result \<times> dynamic_table" where
  "insert_back field t =
     st_then (uadd (dt_curr_size t) (mem_size field), t) (\<lambda>c t.
     let t1 = t\<lparr>dt_curr_size := c, dt_fields := dt_fields t @ [field]\<rparr> in
     st_then (vas_add (dt_vas t1), t1) (\<lambda>(absolute, v) t1.
       (Ok (Some absolute), t1\<lparr>dt_vas := v\<rparr>)))"

definition table_insert :: "dynamic_table \<Rightarrow> header_field \<Rightarrow>
    (dynamic_error, nat option) result \<times> dynamic_table" where
  "table_insert t field =
     (if dt_max_size t = 0 then (Ok None, t)
      else
        st_then (can_free t (mem_size field), t) (\<lambda>freed t.
          case freed of
            None \<Rightarrow> (Ok None, t)
          | Some to_evict \<Rightarrow> st_then (evict to_evict t) (\<lambda>_ t1. insert_back field t1)))"

definition table_put :: "dynamic_table \<Rightarrow> header_field \<Rightarrow> (dynamic_error, unit) result \<times> dynamic_table" where
  "table_put t field =
     st_then (table_insert t field) (\<lambda>inserted t1.
       case inserted of
         None \<Rightarrow> (Ok (), t1)
       | Some index \<Rightarrow>
           let t2 = t1\<lparr>dt_field_map := (dt_field_map t1)(field \<mapsto> index)\<rparr> in
           if static_find_name (hf_name field) \<noteq> None then (Ok (), t2)
           else (Ok (), t2\<lparr>dt_name_map := (dt_name_map t2)(hf_name field \<mapsto> index)\<rparr>))"

definition set_max_blocked :: "dynamic_table \<Rightarrow> nat \<Rightarrow> (dynamic_error, unit) result \<times> dynamic_table" where
  "set_max_blocked t max_blocked =
     (if max_blocked \<ge> SETTINGS_MAX_BLOCKED_STREAMS_MAX then (Err MaxBlockedStreamsTooLarge, t)
      else (Ok (), t\<lparr>dt_blocked_max := max_blocked\<rparr>))"

definition set_max_size :: "dynamic_table \<Rightarrow> nat \<Rightarrow> (dynamic_error, unit) result \<times> dynamic_table" where
  "set_max_size t new_size =
     (if new_size > SETTINGS_MAX_TABLE_CAPACITY_MAX then (Err MaximumTableSizeTooLarge, t)
      else if new_size \<ge> dt_max_size t then (Ok (), t\<lparr>dt_max_size := new_size\<rparr>)
      else
        st_then (can_free t (dt_max_size t - new_size), t) (\<lambda>freed t.
        st_then (case freed of Some to_evict \<Rightarrow> evict to_evict t | None \<Rightarrow> (Ok (), t)) (\<lambda>_ t1.
          (Ok (), t1\<lparr>dt_max_size := new_size\<rparr>))))"

definition fields_get :: "dynamic_table \<Rightarrow> nat \<Rightarrow> (dynamic_error, header_field) result" where
  "fields_get t real_index =
     (if real_index < length (dt_fields t) then Ok (dt_fields t ! real_index)
      else Err (BadIndex real_index))"

definition table_get_relative :: "dynamic_table \<Rightarrow> nat \<Rightarrow> (dynamic_error, header_field) result" where
  "table_get_relative t index =
     and_then (map_err dynamic_error_from_vas (vas_relative (dt_vas t) index)) (fields_get t)"

definition total_inserted :: "dynamic_table \<Rightarrow> nat" where
  "total_inserted t = vas_total_inserted (dt_vas t)"

definition max_mem_size :: "dynamic_table \<Rightarrow> nat" where
  "max_mem_size t = dt_max_size t"

section \<open>Tracking\<close>

definition table_track_ref :: "dynamic_table \<Rightarrow> nat \<Rightarrow> dynamic_table" where
  "table_track_ref t reference =
     t\<lparr>dt_track_map := (dt_track_map t)(reference \<mapsto>
        (case dt_track_map t reference of Some c \<Rightarrow> c + 1 | None \<Rightarrow> 1))\<rparr>"

definition track_block :: "dynamic_table \<Rightarrow> nat \<Rightarrow> refs \<Rightarrow> dynamic_table" where
  "track_block t stream_id block =
     t\<lparr>dt_track_blocks := (dt_track_blocks t)(stream_id \<mapsto>
        (case dt_track_blocks t stream_id of Some blocks \<Rightarrow> blocks @ [block] | None \<Rightarrow> [block]))\<rparr>"

fun track_cancel :: "refs \<Rightarrow> dynamic_table \<Rightarrow> (dynamic_error, unit) result \<times> dynamic_table" where
  "track_cancel [] t = (Ok (), t)"
| "track_cancel ((reference, count) # refs) t =
     (case dt_track_map t reference of
        None \<Rightarrow> (Err InvalidTrackingCount, t)
      | Some c \<Rightarrow>
          if c < count then (Err InvalidTrackingCount, t)
          else if c = count
          then track_cancel refs (t\<lparr>dt_track_map := (dt_track_map t)(reference := None)\<rparr>)
          else track_cancel refs (t\<lparr>dt_track_map := (dt_track_map t)(reference \<mapsto> c - count)\<rparr>))"

definition untrack_block :: "dynamic_table \<Rightarrow> nat \<Rightarrow> (dynamic_error, unit) result \<times> dynamic_table" where
  "untrack_block t stream_id =
     (case dt_track_blocks t stream_id of
        None \<Rightarrow> (Err (UnknownStreamId stream_id), t)
      | Some blocks \<Rightarrow>
          let t1 = t\<lparr>dt_track_blocks :=
                (if length blocks > 1 then (dt_track_blocks t)(stream_id \<mapsto> tl blocks)
                 else (dt_track_blocks t)(stream_id := None))\<rparr>
          in case blocks of [] \<Rightarrow> (Ok (), t1) | b # _ \<Rightarrow> track_cancel b t1)"

definition alist_bump :: "nat \<Rightarrow> refs \<Rightarrow> refs" where
  "alist_bump k m = AList.update k (case map_of m k of Some c \<Rightarrow> c + 1 | None \<Rightarrow> 1) m"

definition register_blocked :: "dynamic_table \<Rightarrow> nat \<Rightarrow> dynamic_table" where
  "register_blocked t largest =
     (if largest \<le> dt_largest_known_received t then t
      else t\<lparr>dt_blocked_count := dt_blocked_count t + 1,
             dt_blocked_streams := alist_bump largest (dt_blocked_streams t)\<rparr>)"

definition update_largest_received :: "dynamic_table \<Rightarrow> nat \<Rightarrow> (dynamic_error, unit) result \<times> dynamic_table" where
  "update_largest_received t increment =
     st_then (uadd (dt_largest_known_received t) increment, t) (\<lambda>k t.
     let t1 = t\<lparr>dt_largest_known_received := k\<rparr> in
     if dt_blocked_count t1 = 0 then (Ok (), t1)
     else
       st_then (uadd k 1, t1) (\<lambda>split t1.
       let blocked = filter (\<lambda>(r, _). split \<le> r) (dt_blocked_streams t1);
           acked = filter (\<lambda>(r, _). r < split) (dt_blocked_streams t1);
           t2 = t1\<lparr>dt_blocked_streams := blocked\<rparr>
       in if acked = [] then (Ok (), t2)
          else
            st_then (usub (dt_blocked_count t2) (sum_list (map snd acked)), t2) (\<lambda>c t2.
              (Ok (), t2\<lparr>dt_blocked_count := c\<rparr>))))"

section \<open>The view of a decoder\<close>

record table_decoder =
  td_table :: dynamic_table
  td_base :: nat

definition table_decoder_new :: "dynamic_table \<Rightarrow> nat \<Rightarrow> table_decoder" where
  "table_decoder_new t base = \<lparr>td_table = t, td_base = base\<rparr>"

definition td_get_relative :: "table_decoder \<Rightarrow> nat \<Rightarrow> (dynamic_error, header_field) result" where
  "td_get_relative d index =
     and_then (map_err dynamic_error_from_vas
         (vas_relative_base (dt_vas (td_table d)) (td_base d) index))
       (fields_get (td_table d))"

definition td_get_postbase :: "table_decoder \<Rightarrow> nat \<Rightarrow> (dynamic_error, header_field) result" where
  "td_get_postbase d index =
     and_then (map_err dynamic_error_from_vas
         (vas_post_base (dt_vas (td_table d)) (td_base d) index))
       (fields_get (td_table d))"

section \<open>The view of an encoder\<close>

text \<open>
  The encoder borrows the table for one field section; the table it leaves is \<open>te_table\<close> after
  \<open>te_drop\<close>.
\<close>

record table_encoder =
  te_table :: dynamic_table
  te_base :: nat
  te_commited :: bool
  te_stream_id :: nat
  te_block_refs :: refs

fun index_fields :: "nat \<Rightarrow> header_field list \<Rightarrow> dynamic_table \<Rightarrow> ('e, dynamic_table) result" where
  "index_fields idx [] t = Ok t"
| "index_fields idx (field # rest) t =
     and_then (unwrap (vas_index (dt_vas t) idx)) (\<lambda>a.
       index_fields (Suc idx) rest
         (t\<lparr>dt_name_map := (dt_name_map t)(hf_name field \<mapsto> a),
            dt_field_map := (dt_field_map t)(field \<mapsto> a)\<rparr>))"

definition table_encoder_new :: "dynamic_table \<Rightarrow> nat \<Rightarrow> ('e, table_encoder) result" where
  "table_encoder_new t stream_id =
     and_then (index_fields 0 (dt_fields t) t) (\<lambda>t1.
     and_then (vas_largest_ref (dt_vas t1)) (\<lambda>base.
       Ok \<lparr>te_table = t1, te_base = base, te_commited = False, te_stream_id = stream_id,
           te_block_refs = []\<rparr>))"

definition te_drop :: "table_encoder \<Rightarrow> dynamic_table" where
  "te_drop e = (if te_commited e then te_table e else snd (track_cancel (te_block_refs e) (te_table e)))"

definition te_max_size :: "table_encoder \<Rightarrow> nat" where
  "te_max_size e = dt_max_size (te_table e)"

definition te_total_inserted :: "table_encoder \<Rightarrow> nat" where
  "te_total_inserted e = total_inserted (te_table e)"

definition te_commit :: "table_encoder \<Rightarrow> nat \<Rightarrow> table_encoder" where
  "te_commit e largest_ref =
     e\<lparr>te_table := register_blocked (track_block (te_table e) (te_stream_id e) (te_block_refs e)) largest_ref,
       te_commited := True\<rparr>"

definition te_track_ref :: "table_encoder \<Rightarrow> nat \<Rightarrow> table_encoder" where
  "te_track_ref e reference =
     e\<lparr>te_block_refs := alist_bump reference (te_block_refs e),
       te_table := table_track_ref (te_table e) reference\<rparr>"

definition lookup_result :: "table_encoder \<Rightarrow> nat option \<Rightarrow> dynamic_lookup_result \<times> table_encoder" where
  "lookup_result e absolute =
     (case absolute of
        Some a \<Rightarrow>
          if a \<le> te_base e then (LookupRelative (te_base e - a) a, te_track_ref e a)
          else (LookupPostBase (a - te_base e - 1) a, te_track_ref e a)
      | None \<Rightarrow> (NotFound, e))"

definition te_find :: "table_encoder \<Rightarrow> header_field \<Rightarrow> dynamic_lookup_result \<times> table_encoder" where
  "te_find e field = lookup_result e (dt_field_map (te_table e) field)"

definition te_find_name :: "table_encoder \<Rightarrow> bytes \<Rightarrow> dynamic_lookup_result \<times> table_encoder" where
  "te_find_name e name =
     (case static_find_name name of
        Some index \<Rightarrow> (LookupStatic index, e)
      | None \<Rightarrow> lookup_result e (dt_name_map (te_table e) name))"

definition te_not_inserted :: "table_encoder \<Rightarrow> header_field \<Rightarrow>
    (dynamic_error, dynamic_insertion_result) result \<times> table_encoder" where
  "te_not_inserted e field =
     (case te_find_name e (hf_name field) of (r, e1) \<Rightarrow> (Ok (NotInserted r), e1))"

definition te_record :: "table_encoder \<Rightarrow> header_field \<Rightarrow> nat \<Rightarrow>
    (dynamic_error, dynamic_insertion_result) result \<times> table_encoder" where
  "te_record e0 field index =
     (let e = te_track_ref e0 index;
          t = te_table e;
          postbase = and_then (usub index (te_base e)) (\<lambda>p. usub p 1);
          relative = (\<lambda>r. and_then (usub index r) (\<lambda>p. usub p 1))
      in
        case dt_field_map t field of
          Some ref_index \<Rightarrow>
            let e1 = e\<lparr>te_table := t\<lparr>
                  dt_field_map := (dt_field_map t)(field \<mapsto> index),
                  dt_name_map := (if hf_name field \<in> dom (dt_name_map t)
                                  then (dt_name_map t)(hf_name field \<mapsto> index)
                                  else dt_name_map t)\<rparr>\<rparr>
            in st_then (relative ref_index, e1) (\<lambda>rel e1.
               st_then (postbase, e1) (\<lambda>post e1.
                 (Ok (Duplicated rel post index), te_track_ref e1 ref_index)))
        | None \<Rightarrow>
            let t1 = t\<lparr>dt_field_map := (dt_field_map t)(field \<mapsto> index)\<rparr>;
                e1 = e\<lparr>te_table := t1\<rparr>
            in case static_find_name (hf_name field) of
                 Some static_idx \<Rightarrow>
                   st_then (postbase, e1) (\<lambda>post e1.
                     (Ok (InsertedWithStaticNameRef post static_idx index), e1))
               | None \<Rightarrow>
                   let e2 = e\<lparr>te_table := t1\<lparr>
                         dt_name_map := (dt_name_map t1)(hf_name field \<mapsto> index)\<rparr>\<rparr>
                   in case dt_name_map t1 (hf_name field) of
                        Some ref_index \<Rightarrow>
                          let e3 = te_track_ref e2 ref_index in
                          st_then (postbase, e3) (\<lambda>post e3.
                          st_then (relative ref_index, e3) (\<lambda>rel e3.
                            (Ok (InsertedWithNameRef post rel index), e3)))
                      | None \<Rightarrow>
                          st_then (postbase, e2) (\<lambda>post e2. (Ok (Inserted post index), e2)))"

definition te_insert :: "table_encoder \<Rightarrow> header_field \<Rightarrow>
    (dynamic_error, dynamic_insertion_result) result \<times> table_encoder" where
  "te_insert e field =
     (if dt_blocked_count (te_table e) \<ge> dt_blocked_max (te_table e) then te_not_inserted e field
      else
        case table_insert (te_table e) field of
          (Ok (Some index), t) \<Rightarrow> te_record (e\<lparr>te_table := t\<rparr>) field index
        | (Ok None, t) \<Rightarrow> te_not_inserted (e\<lparr>te_table := t\<rparr>) field
        | (Err MaxTableSizeReached, t) \<Rightarrow> te_not_inserted (e\<lparr>te_table := t\<rparr>) field
        | (Err err, t) \<Rightarrow> (Err err, e\<lparr>te_table := t\<rparr>)
        | (Panic, t) \<Rightarrow> (Panic, e\<lparr>te_table := t\<rparr>))"

end
