(* ===== verification/PrefixInt.thy ===== *)
theory PrefixInt
  imports Varint
begin

text \<open>
  The prefixed integers of QPACK, \<open>h3/src/qpack/prefix_int.rs\<close>: the low \<open>size\<close> bits of a
  first byte, whose high bits are flags, and if they are all ones a little-endian
  continuation in groups of seven bits. Values are \<open>u64\<close>, here natural numbers with the
  overflow check of the addition written out. The lemmas show the round trip, the range of
  the decoder and that it does not panic for the sizes that are used.
\<close>

section \<open>Model\<close>

datatype int_error = Overflow | IntUnexpectedEnd

fun int_error_from_unexpected_end :: "unexpected_end \<Rightarrow> int_error" where
  "int_error_from_unexpected_end (UnexpectedEnd n) = IntUnexpectedEnd"

definition MAX_POWER :: nat where
  "MAX_POWER = 9 * 7"

fun prefix_int_decode_loop :: "bytes \<Rightarrow> nat \<Rightarrow> nat \<Rightarrow> (int_error, nat \<times> bytes) result" where
  "prefix_int_decode_loop [] val pow = Err IntUnexpectedEnd"
| "prefix_int_decode_loop (b # buf) val pow =
     and_then (uadd val (unat (b AND 127) * 2 ^ pow mod 2 ^ 64)) (\<lambda>val1.
       let pow1 = pow + 7 in
       if b AND 128 = 0 then Ok (val1, buf)
       else if pow1 \<ge> MAX_POWER then Err Overflow
       else prefix_int_decode_loop buf val1 pow1)"

text \<open>The shift of \<open>0xFF\<close> by eight for size 0 overflows, a panic.\<close>

definition prefix_int_decode :: "nat \<Rightarrow> bytes \<Rightarrow> (int_error, (u8 \<times> nat) \<times> bytes) result" where
  "prefix_int_decode sz buf =
     assert_then (sz \<le> 8)
       (and_then (map_err int_error_from_unexpected_end (u8_decode buf)) (\<lambda>(b, buf1).
          assert_then (8 - sz < 8)
            (let flags = drop_bit sz b;
                 mask = drop_bit (8 - sz) 0xFF;
                 first = b AND mask
             in
               if first < mask then Ok ((flags, unat first), buf1)
               else and_then (prefix_int_decode_loop buf1 (unat mask) 0)
                      (\<lambda>(val, buf2). Ok ((flags, val), buf2)))))"

function prefix_int_encode_loop :: "nat \<Rightarrow> bytes" where
  "prefix_int_encode_loop remaining =
     (if remaining \<ge> 128
      then (word_of_nat (remaining mod 128) + 128) # prefix_int_encode_loop (remaining div 128)
      else [word_of_nat remaining])"
  by pat_completeness auto

termination prefix_int_encode_loop
  by (relation "measure id") auto

declare prefix_int_encode_loop.simps [simp del]

definition prefix_int_encode :: "nat \<Rightarrow> u8 \<Rightarrow> nat \<Rightarrow> bytes may_panic" where
  "prefix_int_encode sz flags val =
     assert_then (sz \<le> 8)
       (let mask = NOT (push_bit sz 0xFF) :: u8;
            flags1 = push_bit sz flags
        in
          if val < unat mask then Ok [flags1 OR word_of_nat val]
          else Ok ((mask OR flags1) # prefix_int_encode_loop (val - unat mask)))"

section \<open>The continuation bytes\<close>

text \<open>What nine continuation bytes can carry.\<close>

lemma low7: "unat (b AND 127 :: u8) = unat b mod 128"
proof -
  have "(127 :: u8) = mask 7" by (simp add: mask_eq_exp_minus_1)
  then show ?thesis by (simp only: unat_and_mask) simp
qed

lemma high_bit: "(b AND 128 = 0) \<longleftrightarrow> unat (b :: u8) < 128"
proof -
  have "b AND 128 = 0 \<longleftrightarrow> \<not> bit b 7" using and_exp_eq_0_iff_not_bit [of b 7] by simp
  also have "\<dots> \<longleftrightarrow> even (unat b div 2 ^ 7)"
  proof -
    have "bit b 7 = bit (unat b) 7" by (simp add: bit_unsigned_iff)
    then show ?thesis by (simp add: bit_iff_odd)
  qed
  also have "\<dots> \<longleftrightarrow> unat b < 128"
  proof (cases "unat b < 128")
    case False
    then have "unat b div 128 = 1"
      using unat_u8_bound [of b] by (intro div_nat_eqI) simp_all
    then show ?thesis using False by simp
  qed simp
  finally show ?thesis .
qed

lemma decode_loop_step:
  assumes "val + unat (b AND 127) * 2 ^ pow \<le> usize_max"
  shows "prefix_int_decode_loop (b # buf) val pow =
    (let val1 = val + unat (b AND 127) * 2 ^ pow in
     if unat b < 128 then Ok (val1, buf)
     else if pow + 7 \<ge> MAX_POWER then Err Overflow
     else prefix_int_decode_loop buf val1 (pow + 7))"
proof -
  have "unat (b AND 127) * 2 ^ pow mod 2 ^ 64 = unat (b AND 127) * 2 ^ pow"
    using assms by (intro mod_less) (simp add: usize_max_def)
  with assms show ?thesis by (simp add: Let_def high_bit)
qed

lemma decode_loop_step7:
  assumes "val + unat (b AND 127) * 2 ^ (7 * k) \<le> usize_max"
  shows "prefix_int_decode_loop (b # buf) val (7 * k) =
    (if unat b < 128 then Ok (val + unat (b AND 127) * 2 ^ (7 * k), buf)
     else if 8 \<le> k then Err Overflow
     else prefix_int_decode_loop buf (val + unat (b AND 127) * 2 ^ (7 * k)) (7 * Suc k))"
proof -
  have "7 * k + 7 = 7 * Suc k" by simp
  moreover have "7 * Suc k \<ge> MAX_POWER \<longleftrightarrow> 8 \<le> k" by (simp add: MAX_POWER_def)
  ultimately show ?thesis
    using decode_loop_step [OF assms] by (simp only: Let_def)
qed

declare prefix_int_decode_loop.simps(2) [simp del]

lemma group_bound: "k \<le> 8 \<Longrightarrow> d < 128 \<Longrightarrow> d * 2 ^ (7 * k) + 2 ^ (7 * k) \<le> (2 :: nat) ^ (7 * Suc k)"
proof -
  assume "d < 128"
  then have "(d + 1) * 2 ^ (7 * k) \<le> 128 * (2 :: nat) ^ (7 * k)" by (intro mult_right_mono) simp_all
  then show ?thesis by (simp add: power_add)
qed

lemma decode_loop_encode_loop:
  assumes "k \<le> 8" and "remaining < 2 ^ (63 - 7 * k)" and "val < 256 + 2 ^ (7 * k)"
  shows "prefix_int_decode_loop (prefix_int_encode_loop remaining @ rest) val (7 * k)
    = Ok (val + remaining * 2 ^ (7 * k), rest)"
  using assms
proof (induction "8 - k" arbitrary: k remaining val)
  case 0
  then have k: "k = 8" by simp
  then have r: "remaining < 128" using 0 by simp
  then have "remaining * 2 ^ 56 \<le> 127 * 2 ^ 56" by (intro mult_right_mono) simp_all
  then have "val + remaining * 2 ^ 56 \<le> usize_max"
    using 0 k by (simp add: usize_max_def)
  moreover have "unat (word_of_nat remaining :: u8) = remaining" using r by simp
  ultimately show ?case
    using r k decode_loop_step7 [of val "word_of_nat remaining" k rest]
    by (simp add: prefix_int_encode_loop.simps low7)
next
  case (Suc n)
  then have k: "k < 8" by simp
  define d where "d = remaining mod 128"
  have "7 * k + 7 \<le> 56" using k by simp
  then have p: "(2 :: nat) ^ (7 * Suc k) \<le> 2 ^ 56" by (intro power_increasing) simp_all
  have gb: "d * 2 ^ (7 * k) + 2 ^ (7 * k) \<le> 2 ^ (7 * Suc k)"
    using k by (intro group_bound) (simp_all add: d_def)
  have room: "val + d * 2 ^ (7 * k) < 256 + 2 ^ (7 * Suc k)"
    using gb Suc.prems(3) by linarith
  then have fits: "val + d * 2 ^ (7 * k) \<le> usize_max"
    using p by (simp add: usize_max_def)
  show ?case
  proof (cases "remaining < 128")
    case True
    moreover have "unat (word_of_nat remaining :: u8) = remaining" using True by simp
    ultimately show ?thesis
      using fits decode_loop_step7 [of val "word_of_nat remaining" k rest]
      by (simp add: prefix_int_encode_loop.simps low7 d_def)
  next
    case False
    define b where "b = (word_of_nat d + 128 :: u8)"
    have "b = word_of_nat (d + 128)" by (simp add: b_def)
    moreover have "unat (word_of_nat (d + 128) :: u8) = d + 128"
      by (rule unat_u8_of_nat) (simp add: d_def)
    ultimately have b: "unat b = d + 128" by (simp only:)
    have low: "unat (b AND 127) = d" by (simp add: low7 b d_def)
    have step: "prefix_int_decode_loop (prefix_int_encode_loop remaining @ rest) val (7 * k)
        = prefix_int_decode_loop (prefix_int_encode_loop (remaining div 128) @ rest)
            (val + d * 2 ^ (7 * k)) (7 * Suc k)"
      using False fits k decode_loop_step7 [of val b k "prefix_int_encode_loop (remaining div 128) @ rest"]
      by (subst prefix_int_encode_loop.simps) (simp add: low b flip: d_def b_def)
    have "(2 :: nat) ^ (63 - 7 * k) = 2 ^ (63 - 7 * Suc k) * 2 ^ 7"
    proof -
      have "63 - 7 * k = (63 - 7 * Suc k) + 7" using k by simp
      then show ?thesis by (simp only: power_add)
    qed
    then have "remaining div 128 < 2 ^ (63 - 7 * Suc k)"
      using Suc.prems(2) by (simp add: less_mult_imp_div_less)
    then have "prefix_int_decode_loop (prefix_int_encode_loop (remaining div 128) @ rest)
        (val + d * 2 ^ (7 * k)) (7 * Suc k)
      = Ok (val + d * 2 ^ (7 * k) + remaining div 128 * 2 ^ (7 * Suc k), rest)"
      using Suc.hyps(2) k room by (intro Suc.hyps(1)) simp_all
    moreover have "d * 2 ^ (7 * k) + remaining div 128 * 2 ^ (7 * Suc k) = remaining * 2 ^ (7 * k)"
    proof -
      have "d * 2 ^ (7 * k) + remaining div 128 * 2 ^ (7 * Suc k) = (d + remaining div 128 * 128) * 2 ^ (7 * k)"
        by (simp add: power_add algebra_simps)
      then show ?thesis by (simp add: d_def)
    qed
    ultimately show ?thesis using step by simp
  qed
qed

text \<open>What the decoder returns at most.\<close>

lemma decode_loop_spec:
  assumes "k \<le> 8" and "val < 256 + 2 ^ (7 * k)"
  shows "case prefix_int_decode_loop buf val (7 * k) of
     Ok (v, rest) \<Rightarrow> v < 256 + 2 ^ 63 \<and> (\<exists>p. buf = p @ rest \<and> p \<noteq> [] \<and> length p \<le> 9 - k)
   | Err e \<Rightarrow> True
   | Panic \<Rightarrow> False"
  using assms
proof (induction "8 - k" arbitrary: k val buf)
  case 0
  show ?case
  proof (cases buf)
    case (Cons b bs)
    have low: "unat (b AND 127) < 128" by (simp add: low7)
    have k: "k = 8" using 0 by simp
    have "val + unat (b AND 127) * 2 ^ 56 < 256 + 2 ^ 63" using low 0 k by simp
    then show ?thesis
      using k decode_loop_step7 [of val b k bs] Cons
      by (auto simp: usize_max_def intro: exI [of _ "[b]"])
  qed simp
next
  case (Suc n)
  show ?case
  proof (cases buf)
    case (Cons b bs)
    define d where "d = unat (b AND 127)"
    have d: "d < 128" by (simp add: low7 d_def)
    have k: "k < 8" using Suc.hyps(2) by simp
    have "7 * k + 7 \<le> 56" using k by simp
    then have p: "(2 :: nat) ^ (7 * Suc k) \<le> 2 ^ 56" by (intro power_increasing) simp_all
    have room: "val + d * 2 ^ (7 * k) < 256 + 2 ^ (7 * Suc k)"
      using group_bound [of k d] k d Suc.prems(2) by linarith
    then have fits: "val + d * 2 ^ (7 * k) \<le> usize_max" "val + d * 2 ^ (7 * k) < 256 + 2 ^ 63"
      using p by (simp_all add: usize_max_def)
    have ih: "case prefix_int_decode_loop bs (val + d * 2 ^ (7 * k)) (7 * Suc k) of
       Ok (v, rest) \<Rightarrow> v < 256 + 2 ^ 63 \<and> (\<exists>p. bs = p @ rest \<and> p \<noteq> [] \<and> length p \<le> 9 - Suc k)
     | Err e \<Rightarrow> True
     | Panic \<Rightarrow> False"
      using Suc.hyps(2) k room by (intro Suc.hyps(1)) simp_all
    have step: "prefix_int_decode_loop buf val (7 * k) =
      (if unat b < 128 then Ok (val + d * 2 ^ (7 * k), bs)
       else prefix_int_decode_loop bs (val + d * 2 ^ (7 * k)) (7 * Suc k))"
      using decode_loop_step7 [of val b k bs] fits(1) k Cons by (simp flip: d_def)
    show ?thesis
    proof (cases "unat b < 128")
      case True
      then show ?thesis using step fits(2) Cons k by (auto intro: exI [of _ "[b]"])
    next
      case False
      show ?thesis
      proof (cases "prefix_int_decode_loop bs (val + d * 2 ^ (7 * k)) (7 * Suc k)")
        case (Ok q)
        obtain v rest where q: "q = (v, rest)" by (cases q)
        then obtain p where "bs = p @ rest" "length p \<le> 8 - k" "v < 256 + 2 ^ 63"
          using ih Ok by auto
        then show ?thesis
          using step False Ok q Cons k by (auto intro!: exI [of _ "b # p"])
      qed (use step False ih in auto)
    qed
  qed simp
qed

section \<open>Prefixed integers\<close>

lemma prefix_mask:
  assumes "1 \<le> sz" and "sz \<le> 8"
  shows "drop_bit (8 - sz) 0xFF = (mask sz :: u8)" and "NOT (push_bit sz 0xFF) = (mask sz :: u8)"
    and "unat (mask sz :: u8) = 2 ^ sz - 1"
proof -
  have ff: "(0xFF :: u8) = mask 8" by (simp add: mask_eq_exp_minus_1)
  show "drop_bit (8 - sz) 0xFF = (mask sz :: u8)"
    unfolding ff using assms by (intro bit_eqI) (auto simp: bit_simps)
  show "NOT (push_bit sz 0xFF) = (mask sz :: u8)"
    unfolding ff using assms by (intro bit_eqI) (auto simp: bit_simps)
  show "unat (mask sz :: u8) = 2 ^ sz - 1"
  proof -
    have "sz \<in> {1, 2, 3, 4, 5, 6, 7, 8}" using assms by auto
    then show ?thesis by (auto simp: mask_eq_exp_minus_1)
  qed
qed

text \<open>A first byte with flags and a value in the prefix.\<close>

lemma prefix_byte:
  assumes "1 \<le> sz" and "sz \<le> 8" and "unat flags < 2 ^ (8 - sz)" and "v < 2 ^ sz"
  shows "unat (push_bit sz flags OR word_of_nat v :: u8) = unat flags * 2 ^ sz + v"
proof (cases "sz = 8")
  case True
  then have "flags = 0" using assms(3) by (simp add: word_eq_iff_unat)
  then show ?thesis using True assms(4) by simp
next
  case False
  have pow: "(2 :: nat) ^ (8 - sz) * 2 ^ sz = 256"
    using assms(2) by (simp flip: power_add)
  have "v < 256"
    using assms(2,4) power_increasing [of sz 8 "2 :: nat"] by simp
  then have u: "unat (word_of_nat v :: u8) = v" by simp
  have "unat flags * 2 ^ sz < 2 ^ (8 - sz) * 2 ^ sz"
    using assms(3) by simp
  then have "unat flags * 2 ^ sz < 2 ^ LENGTH(8)"
    using pow by simp
  then have "unat (push_bit sz (word_of_nat (unat flags)) OR word_of_nat v :: u8) = unat flags * 2 ^ sz + v"
    using push_bit_or_eq [of "word_of_nat v :: u8" sz "unat flags"] u assms(2,4) False by simp
  then show ?thesis by simp
qed

lemma prefix_byte_parts:
  assumes "1 \<le> sz" and "sz \<le> 8" and "unat flags < 2 ^ (8 - sz)" and "v < 2 ^ sz"
    and "unat b = unat flags * 2 ^ sz + v"
  shows "drop_bit sz b = flags" and "unat (b AND mask sz) = v"
proof -
  have "unat (drop_bit sz b) = unat flags"
    using assms(4,5) by (simp add: unat_drop_bit_div)
  then show "drop_bit sz b = flags" by (simp only: word_eq_iff_unat)
  show "unat (b AND mask sz) = v"
    using assms(4,5) by (simp add: unat_and_mask)
qed

definition prefix_int_ok :: "nat \<Rightarrow> u8 \<Rightarrow> nat \<Rightarrow> bool" where
  "prefix_int_ok sz flags val \<longleftrightarrow>
     1 \<le> sz \<and> sz \<le> 8 \<and> unat flags < 2 ^ (8 - sz) \<and> val < 2 ^ sz - 1 + 2 ^ 63"

lemma prefix_int_decode_unfold:
  assumes "1 \<le> sz" and "sz \<le> 8"
  shows "prefix_int_decode sz (b # buf) =
    (if b AND mask sz < mask sz then Ok ((drop_bit sz b, unat (b AND mask sz)), buf)
     else map_ok (\<lambda>(val, rest). ((drop_bit sz b, val), rest)) (prefix_int_decode_loop buf (2 ^ sz - 1) 0))"
  using assms
  by (cases "prefix_int_decode_loop buf (2 ^ sz - 1) 0")
    (auto simp: prefix_int_decode_def assert_then_def u8_decode_def prefix_mask Let_def)

lemma prefix_int_dec_enc:
  assumes "prefix_int_ok sz flags val"
  shows "\<exists>bs. prefix_int_encode sz flags val = Ok bs \<and> bs \<noteq> []
    \<and> prefix_int_decode sz (bs @ rest) = Ok ((flags, val), rest)"
proof -
  have sz: "1 \<le> sz" "sz \<le> 8" and fl: "unat flags < 2 ^ (8 - sz)" and val: "val < 2 ^ sz - 1 + 2 ^ 63"
    using assms by (auto simp: prefix_int_ok_def)
  have m: "unat (mask sz :: u8) = 2 ^ sz - 1" and m256: "(2 :: nat) ^ sz \<le> 256" and pos: "(0 :: nat) < 2 ^ sz"
    using prefix_mask(3) [OF sz] sz power_increasing [of sz 8 "2 :: nat"] by simp_all
  show ?thesis
  proof (cases "val < 2 ^ sz - 1")
    case True
    define b where "b = (push_bit sz flags OR word_of_nat val :: u8)"
    have v: "val < 2 ^ sz" using True by simp
    note parts = prefix_byte_parts [OF sz fl v, of b] prefix_byte [OF sz fl v, folded b_def]
    have "prefix_int_encode sz flags val = Ok [b]"
      using sz True by (simp add: prefix_int_encode_def assert_then_def prefix_mask m Let_def b_def)
    moreover have "prefix_int_decode sz ([b] @ rest) = Ok ((flags, val), rest)"
      using prefix_int_decode_unfold [OF sz, of b rest] parts True m by (simp add: word_less_nat_alt)
    ultimately show ?thesis by blast
  next
    case False
    define b where "b = (mask sz OR push_bit sz flags :: u8)"
    define v where "v = (2 :: nat) ^ sz - 1"
    have v: "v < 2 ^ sz" using pos by (simp add: v_def)
    have "v < 256" using v m256 by simp
    then have "(mask sz :: u8) = word_of_nat v"
      by (simp only: word_eq_iff_unat m v_def [symmetric] unat_u8_of_nat)
    then have "b = push_bit sz flags OR word_of_nat v" by (simp add: b_def or.commute)
    then have ub: "unat b = unat flags * 2 ^ sz + v" using prefix_byte [OF sz fl v] by simp
    note parts = prefix_byte_parts [OF sz fl v ub]
    have enc: "prefix_int_encode sz flags val = Ok (b # prefix_int_encode_loop (val - v))"
      using sz False by (simp add: prefix_int_encode_def assert_then_def prefix_mask m Let_def b_def v_def)
    have "val - v < 2 ^ (63 - 7 * 0)" and "v < 256 + 2 ^ (7 * 0)"
      using val v m256 False by (simp_all add: v_def)
    then have "prefix_int_decode_loop (prefix_int_encode_loop (val - v) @ rest) v 0 = Ok (val, rest)"
      using decode_loop_encode_loop [of 0 "val - v" v rest] False by (simp add: v_def)
    moreover have "\<not> b AND mask sz < mask sz"
      using parts(2) m by (simp add: word_less_nat_alt v_def)
    ultimately show ?thesis
      using prefix_int_decode_unfold [OF sz, of b "prefix_int_encode_loop (val - v) @ rest"] enc parts(1)
      by (simp add: v_def)
  qed
qed

lemma prefix_int_decode_spec:
  assumes "1 \<le> sz" and "sz \<le> 8"
  shows "case prefix_int_decode sz buf of
     Ok ((flags, val), rest) \<Rightarrow>
       unat flags < 2 ^ (8 - sz) \<and> val < 256 + 2 ^ 63
       \<and> (\<exists>p. buf = p @ rest \<and> p \<noteq> [] \<and> length p \<le> 10)
   | Err e \<Rightarrow> True
   | Panic \<Rightarrow> False"
proof (cases buf)
  case Nil
  then show ?thesis using assms by (simp add: prefix_int_decode_def assert_then_def u8_decode_def)
next
  case (Cons b bs)
  have m: "(2 :: nat) ^ sz \<le> 2 ^ 8" using assms(2) by (intro power_increasing) simp_all
  have fl: "unat (drop_bit sz b) < 2 ^ (8 - sz)"
  proof -
    have "unat b < 2 ^ (8 - sz) * 2 ^ sz"
      using unat_u8_bound [of b] assms(2) by (simp flip: power_add)
    then show ?thesis by (simp add: unat_drop_bit_div less_mult_imp_div_less)
  qed
  show ?thesis
  proof (cases "b AND mask sz < mask sz")
    case True
    then have "prefix_int_decode sz buf = Ok ((drop_bit sz b, unat (b AND mask sz)), bs)"
      using prefix_int_decode_unfold [OF assms] Cons by simp
    moreover have "unat (b AND mask sz) < 256" by (rule unat_u8_bound)
    ultimately show ?thesis using fl Cons by (auto intro: exI [of _ "[b]"])
  next
    case False
    have l: "case prefix_int_decode_loop bs (2 ^ sz - 1) 0 of
       Ok (v, rest) \<Rightarrow> v < 256 + 2 ^ 63 \<and> (\<exists>p. bs = p @ rest \<and> p \<noteq> [] \<and> length p \<le> 9)
     | Err e \<Rightarrow> True
     | Panic \<Rightarrow> False"
    proof -
      have "(2 :: nat) ^ sz - 1 < 256 + 2 ^ (7 * 0)" using m by simp
      from decode_loop_spec [OF _ this, of bs, unfolded mult_0_right diff_zero] show ?thesis by simp
    qed
    have d: "prefix_int_decode sz buf =
      map_ok (\<lambda>(val, rest). ((drop_bit sz b, val), rest)) (prefix_int_decode_loop bs (2 ^ sz - 1) 0)"
      using prefix_int_decode_unfold [OF assms, of b bs] False Cons by simp
    show ?thesis
    proof (cases "prefix_int_decode_loop bs (2 ^ sz - 1) 0")
      case (Ok q)
      obtain v rest where q: "q = (v, rest)" by (cases q)
      then obtain p where "bs = p @ rest" "length p \<le> 9" "v < 256 + 2 ^ 63" using l Ok by auto
      then show ?thesis using d Ok q fl Cons by (auto intro!: exI [of _ "b # p"])
    qed (use d l in auto)
  qed
qed

text \<open>
  Round trip of prefixed integers, for every prefix of one to eight bits, all flags that
  fit beside it and every value up to \<open>2 ^ 63\<close> above the prefix.
\<close>

theorem prefix_int_roundtrip:
  assumes "prefix_int_ok sz flags val"
  shows "\<exists>bs. prefix_int_encode sz flags val = Ok bs
    \<and> prefix_int_decode sz (bs @ rest) = Ok ((flags, val), rest)"
  using prefix_int_dec_enc [OF assms] by blast

theorem prefix_int_roundtrip_witness:
  "\<exists>bs. prefix_int_encode 5 2 1337 = Ok bs \<and> prefix_int_decode 5 (bs @ [9]) = Ok ((2, 1337), [9])"
  by (rule prefix_int_roundtrip) (simp add: prefix_int_ok_def)

text \<open>
  Decoding a prefixed integer with a prefix of one to eight bits does not panic, reads
  at most ten bytes, and its flags and value stay in their ranges, so that the addition
  cannot overflow; a prefix of no bits panics on every non-empty buffer.
\<close>

theorem prefix_int_decode_bounds:
  "if 1 \<le> sz \<and> sz \<le> 8
   then (case prefix_int_decode sz buf of
       Ok ((flags, val), rest) \<Rightarrow>
         unat flags < 2 ^ (8 - sz) \<and> val < 256 + 2 ^ 63
         \<and> (\<exists>p. buf = p @ rest \<and> p \<noteq> [] \<and> length p \<le> 10)
     | Err e \<Rightarrow> True
     | Panic \<Rightarrow> False)
   else buf = [] \<or> prefix_int_decode sz buf = Panic"
proof (cases "1 \<le> sz \<and> sz \<le> 8")
  case True
  then show ?thesis using prefix_int_decode_spec by simp
next
  case False
  then have "sz = 0 \<or> 8 < sz" by auto
  then show ?thesis
    by (cases buf) (auto simp: prefix_int_decode_def assert_then_def u8_decode_def)
qed

end
