(* ===== verification/HuffmanTables.thy ===== *)
theory HuffmanTables
  imports Prelude
begin

text \<open>
  The two tables of the HPACK Huffman code: the tree of lookup tables of
  \<open>h3/src/qpack/prefix_string/decode.rs\<close>, one definition per constant of the source, and
  the 256 codes of \<open>h3/src/qpack/prefix_string/encode.rs\<close>. A code is the list of the bytes
  that hold its bits and their number; the last byte holds the remaining bits in its low end.
\<close>

section \<open>Decoder tree\<close>

datatype huffman_decoder = HuffmanDecoder (lookup: nat) (table: "decode_value list")
  and decode_value = Partial huffman_decoder | Sym u8

definition END0_01010 :: huffman_decoder where "END0_01010 = HuffmanDecoder 1 [Sym 32, Sym 37]"
definition END0_01011 :: huffman_decoder where "END0_01011 = HuffmanDecoder 1 [Sym 45, Sym 46]"
definition END0_01100 :: huffman_decoder where "END0_01100 = HuffmanDecoder 1 [Sym 47, Sym 51]"
definition END0_01101 :: huffman_decoder where "END0_01101 = HuffmanDecoder 1 [Sym 52, Sym 53]"
definition END0_01110 :: huffman_decoder where "END0_01110 = HuffmanDecoder 1 [Sym 54, Sym 55]"
definition END0_01111 :: huffman_decoder where "END0_01111 = HuffmanDecoder 1 [Sym 56, Sym 57]"
definition END0_10000 :: huffman_decoder where "END0_10000 = HuffmanDecoder 1 [Sym 61, Sym 65]"
definition END0_10001 :: huffman_decoder where "END0_10001 = HuffmanDecoder 1 [Sym 95, Sym 98]"
definition END0_10010 :: huffman_decoder where "END0_10010 = HuffmanDecoder 1 [Sym 100, Sym 102]"
definition END0_10011 :: huffman_decoder where "END0_10011 = HuffmanDecoder 1 [Sym 103, Sym 104]"
definition END0_10100 :: huffman_decoder where "END0_10100 = HuffmanDecoder 1 [Sym 108, Sym 109]"
definition END0_10101 :: huffman_decoder where "END0_10101 = HuffmanDecoder 1 [Sym 110, Sym 112]"
definition END0_10110 :: huffman_decoder where "END0_10110 = HuffmanDecoder 1 [Sym 114, Sym 117]"
definition END0_10111 :: huffman_decoder where
  "END0_10111 = HuffmanDecoder 2 [
     Sym 58, Sym 66, Sym 67, Sym 68]"
definition END0_11000 :: huffman_decoder where
  "END0_11000 = HuffmanDecoder 2 [
     Sym 69, Sym 70, Sym 71, Sym 72]"
definition END0_11001 :: huffman_decoder where
  "END0_11001 = HuffmanDecoder 2 [
     Sym 73, Sym 74, Sym 75, Sym 76]"
definition END0_11010 :: huffman_decoder where
  "END0_11010 = HuffmanDecoder 2 [
     Sym 77, Sym 78, Sym 79, Sym 80]"
definition END0_11011 :: huffman_decoder where
  "END0_11011 = HuffmanDecoder 2 [
     Sym 81, Sym 82, Sym 83, Sym 84]"
definition END0_11100 :: huffman_decoder where
  "END0_11100 = HuffmanDecoder 2 [
     Sym 85, Sym 86, Sym 87, Sym 89]"
definition END0_11101 :: huffman_decoder where
  "END0_11101 = HuffmanDecoder 2 [
     Sym 106, Sym 107, Sym 113, Sym 118]"
definition END0_11110 :: huffman_decoder where
  "END0_11110 = HuffmanDecoder 2 [
     Sym 119, Sym 120, Sym 121, Sym 122]"
definition END5_00 :: huffman_decoder where "END5_00 = HuffmanDecoder 1 [Sym 38, Sym 42]"
definition END5_01 :: huffman_decoder where "END5_01 = HuffmanDecoder 1 [Sym 44, Sym 59]"
definition END5_10 :: huffman_decoder where "END5_10 = HuffmanDecoder 1 [Sym 88, Sym 90]"
definition END7_0 :: huffman_decoder where
  "END7_0 = HuffmanDecoder 2 [
     Sym 33, Sym 34, Sym 40, Sym 41]"
definition END9A_1 :: huffman_decoder where "END9A_1 = HuffmanDecoder 1 [Sym 39, Sym 43]"
definition END8_0 :: huffman_decoder where "END8_0 = HuffmanDecoder 1 [Sym 63, Partial END9A_1]"
definition END9B_01 :: huffman_decoder where "END9B_01 = HuffmanDecoder 1 [Sym 35, Sym 62]"
definition END9B_10 :: huffman_decoder where
  "END9B_10 = HuffmanDecoder 2 [
     Sym 0, Sym 36, Sym 64, Sym 91]"
definition END13_10 :: huffman_decoder where "END13_10 = HuffmanDecoder 1 [Sym 94, Sym 125]"
definition END14_0 :: huffman_decoder where "END14_0 = HuffmanDecoder 1 [Sym 60, Sym 96]"
definition END19_0011 :: huffman_decoder where "END19_0011 = HuffmanDecoder 1 [Sym 128, Sym 130]"
definition END19_0100 :: huffman_decoder where "END19_0100 = HuffmanDecoder 1 [Sym 131, Sym 162]"
definition END19_0101 :: huffman_decoder where "END19_0101 = HuffmanDecoder 1 [Sym 184, Sym 194]"
definition END19_0110 :: huffman_decoder where "END19_0110 = HuffmanDecoder 1 [Sym 224, Sym 226]"
definition END19_0111 :: huffman_decoder where
  "END19_0111 = HuffmanDecoder 2 [
     Sym 153, Sym 161, Sym 167, Sym 172]"
definition END19_1000 :: huffman_decoder where
  "END19_1000 = HuffmanDecoder 2 [
     Sym 176, Sym 177, Sym 179, Sym 209]"
definition END19_1001 :: huffman_decoder where
  "END19_1001 = HuffmanDecoder 2 [
     Sym 216, Sym 217, Sym 227, Sym 229]"
definition END19_1010_01 :: huffman_decoder where
  "END19_1010_01 = HuffmanDecoder 1 [
     Sym 129, Sym 132]"
definition END19_1010_10 :: huffman_decoder where
  "END19_1010_10 = HuffmanDecoder 1 [
     Sym 133, Sym 134]"
definition END19_1010_11 :: huffman_decoder where
  "END19_1010_11 = HuffmanDecoder 1 [
     Sym 136, Sym 146]"
definition END19_1010 :: huffman_decoder where
  "END19_1010 = HuffmanDecoder 2 [
     Sym 230, Partial END19_1010_01, Partial END19_1010_10, Partial END19_1010_11]"
definition END19_1011 :: huffman_decoder where
  "END19_1011 = HuffmanDecoder 3 [
     Sym 154, Sym 156, Sym 160, Sym 163, Sym 164, Sym 169, Sym 170, Sym 173]"
definition END19_1100 :: huffman_decoder where
  "END19_1100 = HuffmanDecoder 3 [
     Sym 178, Sym 181, Sym 185, Sym 186, Sym 187, Sym 189, Sym 190, Sym 196]"
definition END23A_100 :: huffman_decoder where "END23A_100 = HuffmanDecoder 1 [Sym 1, Sym 135]"
definition END23A_101 :: huffman_decoder where "END23A_101 = HuffmanDecoder 1 [Sym 137, Sym 138]"
definition END23A_110 :: huffman_decoder where "END23A_110 = HuffmanDecoder 1 [Sym 139, Sym 140]"
definition END23A_111 :: huffman_decoder where "END23A_111 = HuffmanDecoder 1 [Sym 141, Sym 143]"
definition END19_1101 :: huffman_decoder where
  "END19_1101 = HuffmanDecoder 3 [
     Sym 198, Sym 228, Sym 232, Sym 233, Partial END23A_100, Partial END23A_101,
     Partial END23A_110, Partial END23A_111]"
definition END19_1110 :: huffman_decoder where
  "END19_1110 = HuffmanDecoder 4 [
     Sym 147, Sym 149, Sym 150, Sym 151, Sym 152, Sym 155, Sym 157, Sym 158, Sym 165, Sym 166,
     Sym 168, Sym 174, Sym 175, Sym 180, Sym 182, Sym 183]"
definition END23B_0101 :: huffman_decoder where "END23B_0101 = HuffmanDecoder 1 [Sym 9, Sym 142]"
definition END23B_0110 :: huffman_decoder where
  "END23B_0110 = HuffmanDecoder 1 [
     Sym 144, Sym 145]"
definition END23B_0111 :: huffman_decoder where
  "END23B_0111 = HuffmanDecoder 1 [
     Sym 148, Sym 159]"
definition END23B_1000 :: huffman_decoder where
  "END23B_1000 = HuffmanDecoder 1 [
     Sym 171, Sym 206]"
definition END23B_1001 :: huffman_decoder where
  "END23B_1001 = HuffmanDecoder 1 [
     Sym 215, Sym 225]"
definition END23B_1010 :: huffman_decoder where
  "END23B_1010 = HuffmanDecoder 1 [
     Sym 236, Sym 237]"
definition END23B_1011 :: huffman_decoder where
  "END23B_1011 = HuffmanDecoder 2 [
     Sym 199, Sym 207, Sym 234, Sym 235]"
definition END23B_1100 :: huffman_decoder where
  "END23B_1100 = HuffmanDecoder 3 [
     Sym 192, Sym 193, Sym 200, Sym 201, Sym 202, Sym 205, Sym 210, Sym 213]"
definition END27A_111 :: huffman_decoder where "END27A_111 = HuffmanDecoder 1 [Sym 203, Sym 204]"
definition END23B_1101 :: huffman_decoder where
  "END23B_1101 = HuffmanDecoder 3 [
     Sym 218, Sym 219, Sym 238, Sym 240, Sym 242, Sym 243, Sym 255, Partial END27A_111]"
definition END23B_1110 :: huffman_decoder where
  "END23B_1110 = HuffmanDecoder 4 [
     Sym 211, Sym 212, Sym 214, Sym 221, Sym 222, Sym 223, Sym 241, Sym 244, Sym 245, Sym 246,
     Sym 247, Sym 248, Sym 250, Sym 251, Sym 252, Sym 253]"
definition END27B_0001 :: huffman_decoder where "END27B_0001 = HuffmanDecoder 1 [Sym 2, Sym 3]"
definition END27B_0010 :: huffman_decoder where "END27B_0010 = HuffmanDecoder 1 [Sym 4, Sym 5]"
definition END27B_0011 :: huffman_decoder where "END27B_0011 = HuffmanDecoder 1 [Sym 6, Sym 7]"
definition END27B_0100 :: huffman_decoder where "END27B_0100 = HuffmanDecoder 1 [Sym 8, Sym 11]"
definition END27B_0101 :: huffman_decoder where "END27B_0101 = HuffmanDecoder 1 [Sym 12, Sym 14]"
definition END27B_0110 :: huffman_decoder where "END27B_0110 = HuffmanDecoder 1 [Sym 15, Sym 16]"
definition END27B_0111 :: huffman_decoder where "END27B_0111 = HuffmanDecoder 1 [Sym 17, Sym 18]"
definition END27B_1000 :: huffman_decoder where "END27B_1000 = HuffmanDecoder 1 [Sym 19, Sym 20]"
definition END27B_1001 :: huffman_decoder where "END27B_1001 = HuffmanDecoder 1 [Sym 21, Sym 23]"
definition END27B_1010 :: huffman_decoder where "END27B_1010 = HuffmanDecoder 1 [Sym 24, Sym 25]"
definition END27B_1011 :: huffman_decoder where "END27B_1011 = HuffmanDecoder 1 [Sym 26, Sym 27]"
definition END27B_1100 :: huffman_decoder where "END27B_1100 = HuffmanDecoder 1 [Sym 28, Sym 29]"
definition END27B_1101 :: huffman_decoder where "END27B_1101 = HuffmanDecoder 1 [Sym 30, Sym 31]"
definition END27B_1110 :: huffman_decoder where
  "END27B_1110 = HuffmanDecoder 1 [
     Sym 127, Sym 220]"
definition EOF :: huffman_decoder where "EOF = HuffmanDecoder 8 []"
definition END31_1 :: huffman_decoder where
  "END31_1 = HuffmanDecoder 2 [
     Sym 10, Sym 13, Sym 22, Partial EOF]"
definition END27B_1111 :: huffman_decoder where
  "END27B_1111 = HuffmanDecoder 1 [
     Sym 249, Partial END31_1]"
definition END23B_1111 :: huffman_decoder where
  "END23B_1111 = HuffmanDecoder 4 [
     Sym 254, Partial END27B_0001, Partial END27B_0010, Partial END27B_0011,
     Partial END27B_0100, Partial END27B_0101, Partial END27B_0110, Partial END27B_0111,
     Partial END27B_1000, Partial END27B_1001, Partial END27B_1010, Partial END27B_1011,
     Partial END27B_1100, Partial END27B_1101, Partial END27B_1110, Partial END27B_1111]"
definition END19_1111 :: huffman_decoder where
  "END19_1111 = HuffmanDecoder 4 [
     Sym 188, Sym 191, Sym 197, Sym 231, Sym 239, Partial END23B_0101, Partial END23B_0110,
     Partial END23B_0111, Partial END23B_1000, Partial END23B_1001, Partial END23B_1010,
     Partial END23B_1011, Partial END23B_1100, Partial END23B_1101, Partial END23B_1110,
     Partial END23B_1111]"
definition END15_1 :: huffman_decoder where
  "END15_1 = HuffmanDecoder 4 [
     Sym 92, Sym 195, Sym 208, Partial END19_0011, Partial END19_0100, Partial END19_0101,
     Partial END19_0110, Partial END19_0111, Partial END19_1000, Partial END19_1001,
     Partial END19_1010, Partial END19_1011, Partial END19_1100, Partial END19_1101,
     Partial END19_1110, Partial END19_1111]"
definition END14_1 :: huffman_decoder where
  "END14_1 = HuffmanDecoder 1 [
     Sym 123, Partial END15_1]"
definition END13_11 :: huffman_decoder where
  "END13_11 = HuffmanDecoder 1 [
     Partial END14_0, Partial END14_1]"
definition END9B_11 :: huffman_decoder where
  "END9B_11 = HuffmanDecoder 2 [
     Sym 93, Sym 126, Partial END13_10, Partial END13_11]"
definition END8_1 :: huffman_decoder where
  "END8_1 = HuffmanDecoder 2 [
     Sym 124, Partial END9B_01, Partial END9B_10, Partial END9B_11]"
definition END7_1 :: huffman_decoder where
  "END7_1 = HuffmanDecoder 1 [
     Partial END8_0, Partial END8_1]"
definition END5_11 :: huffman_decoder where
  "END5_11 = HuffmanDecoder 1 [
     Partial END7_0, Partial END7_1]"
definition END0_11111 :: huffman_decoder where
  "END0_11111 = HuffmanDecoder 2 [
     Partial END5_00, Partial END5_01, Partial END5_10, Partial END5_11]"
definition HPACK_STRING_decoder :: huffman_decoder where
  "HPACK_STRING_decoder = HuffmanDecoder 5 [
     Sym 48, Sym 49, Sym 50, Sym 97, Sym 99, Sym 101, Sym 105, Sym 111, Sym 115, Sym 116,
     Partial END0_01010, Partial END0_01011, Partial END0_01100, Partial END0_01101,
     Partial END0_01110, Partial END0_01111, Partial END0_10000, Partial END0_10001,
     Partial END0_10010, Partial END0_10011, Partial END0_10100, Partial END0_10101,
     Partial END0_10110, Partial END0_10111, Partial END0_11000, Partial END0_11001,
     Partial END0_11010, Partial END0_11011, Partial END0_11100, Partial END0_11101,
     Partial END0_11110, Partial END0_11111]"

lemmas decoder_defs =
  END0_01010_def END0_01011_def END0_01100_def END0_01101_def END0_01110_def
  END0_01111_def END0_10000_def END0_10001_def END0_10010_def END0_10011_def
  END0_10100_def END0_10101_def END0_10110_def END0_10111_def END0_11000_def
  END0_11001_def END0_11010_def END0_11011_def END0_11100_def END0_11101_def
  END0_11110_def END5_00_def END5_01_def END5_10_def END7_0_def END9A_1_def END8_0_def
  END9B_01_def END9B_10_def END13_10_def END14_0_def END19_0011_def END19_0100_def
  END19_0101_def END19_0110_def END19_0111_def END19_1000_def END19_1001_def
  END19_1010_01_def END19_1010_10_def END19_1010_11_def END19_1010_def END19_1011_def
  END19_1100_def END23A_100_def END23A_101_def END23A_110_def END23A_111_def
  END19_1101_def END19_1110_def END23B_0101_def END23B_0110_def END23B_0111_def
  END23B_1000_def END23B_1001_def END23B_1010_def END23B_1011_def END23B_1100_def
  END27A_111_def END23B_1101_def END23B_1110_def END27B_0001_def END27B_0010_def
  END27B_0011_def END27B_0100_def END27B_0101_def END27B_0110_def END27B_0111_def
  END27B_1000_def END27B_1001_def END27B_1010_def END27B_1011_def END27B_1100_def
  END27B_1101_def END27B_1110_def EOF_def END31_1_def END27B_1111_def END23B_1111_def
  END19_1111_def END15_1_def END14_1_def END13_11_def END9B_11_def END8_1_def END7_1_def
  END5_11_def END0_11111_def HPACK_STRING_decoder_def

section \<open>Encoder table\<close>

record huffman_encode_value =
  ev_buffer :: bytes
  ev_bit_count :: nat

definition code :: "nat \<Rightarrow> bytes \<Rightarrow> huffman_encode_value" where
  "code n bs = \<lparr>ev_buffer = bs, ev_bit_count = n\<rparr>"

definition HPACK_STRING_codes_low :: "huffman_encode_value list" where
  "HPACK_STRING_codes_low = [
     code 13 [255, 24], code 23 [255, 255, 88], code 28 [255, 255, 254, 2],
     code 28 [255, 255, 254, 3], code 28 [255, 255, 254, 4], code 28 [255, 255, 254, 5],
     code 28 [255, 255, 254, 6], code 28 [255, 255, 254, 7], code 28 [255, 255, 254, 8],
     code 24 [255, 255, 234], code 30 [255, 255, 255, 60], code 28 [255, 255, 254, 9],
     code 28 [255, 255, 254, 10], code 30 [255, 255, 255, 61], code 28 [255, 255, 254, 11],
     code 28 [255, 255, 254, 12], code 28 [255, 255, 254, 13], code 28 [255, 255, 254, 14],
     code 28 [255, 255, 254, 15], code 28 [255, 255, 255, 0], code 28 [255, 255, 255, 1],
     code 28 [255, 255, 255, 2], code 30 [255, 255, 255, 62], code 28 [255, 255, 255, 3],
     code 28 [255, 255, 255, 4], code 28 [255, 255, 255, 5], code 28 [255, 255, 255, 6],
     code 28 [255, 255, 255, 7], code 28 [255, 255, 255, 8], code 28 [255, 255, 255, 9],
     code 28 [255, 255, 255, 10], code 28 [255, 255, 255, 11], code 6 [20], code 10 [254, 0],
     code 10 [254, 1], code 12 [255, 10], code 13 [255, 25], code 6 [21], code 8 [248],
     code 11 [255, 2], code 10 [254, 2], code 10 [254, 3], code 8 [249], code 11 [255, 3],
     code 8 [250], code 6 [22], code 6 [23], code 6 [24], code 5 [0], code 5 [1], code 5 [2],
     code 6 [25], code 6 [26], code 6 [27], code 6 [28], code 6 [29], code 6 [30], code 6 [31],
     code 7 [92], code 8 [251], code 15 [255, 124], code 6 [32], code 12 [255, 11],
     code 10 [255, 0], code 13 [255, 26], code 6 [33], code 7 [93], code 7 [94], code 7 [95],
     code 7 [96], code 7 [97], code 7 [98], code 7 [99], code 7 [100], code 7 [101],
     code 7 [102], code 7 [103], code 7 [104], code 7 [105], code 7 [106], code 7 [107],
     code 7 [108], code 7 [109], code 7 [110], code 7 [111], code 7 [112], code 7 [113],
     code 7 [114], code 8 [252], code 7 [115], code 8 [253], code 13 [255, 27],
     code 19 [255, 254, 0], code 13 [255, 28], code 14 [255, 60], code 6 [34],
     code 15 [255, 125], code 5 [3], code 6 [35], code 5 [4], code 6 [36], code 5 [5],
     code 6 [37], code 6 [38], code 6 [39], code 5 [6], code 7 [116], code 7 [117],
     code 6 [40], code 6 [41], code 6 [42], code 5 [7], code 6 [43], code 7 [118], code 6 [44],
     code 5 [8], code 5 [9], code 6 [45], code 7 [119], code 7 [120], code 7 [121],
     code 7 [122], code 7 [123], code 15 [255, 126], code 11 [255, 4], code 14 [255, 61],
     code 13 [255, 29], code 28 [255, 255, 255, 12]]"

definition HPACK_STRING_codes_high :: "huffman_encode_value list" where
  "HPACK_STRING_codes_high = [
     code 20 [255, 254, 6], code 22 [255, 255, 18], code 20 [255, 254, 7],
     code 20 [255, 254, 8], code 22 [255, 255, 19], code 22 [255, 255, 20],
     code 22 [255, 255, 21], code 23 [255, 255, 89], code 22 [255, 255, 22],
     code 23 [255, 255, 90], code 23 [255, 255, 91], code 23 [255, 255, 92],
     code 23 [255, 255, 93], code 23 [255, 255, 94], code 24 [255, 255, 235],
     code 23 [255, 255, 95], code 24 [255, 255, 236], code 24 [255, 255, 237],
     code 22 [255, 255, 23], code 23 [255, 255, 96], code 24 [255, 255, 238],
     code 23 [255, 255, 97], code 23 [255, 255, 98], code 23 [255, 255, 99],
     code 23 [255, 255, 100], code 21 [255, 254, 28], code 22 [255, 255, 24],
     code 23 [255, 255, 101], code 22 [255, 255, 25], code 23 [255, 255, 102],
     code 23 [255, 255, 103], code 24 [255, 255, 239], code 22 [255, 255, 26],
     code 21 [255, 254, 29], code 20 [255, 254, 9], code 22 [255, 255, 27],
     code 22 [255, 255, 28], code 23 [255, 255, 104], code 23 [255, 255, 105],
     code 21 [255, 254, 30], code 23 [255, 255, 106], code 22 [255, 255, 29],
     code 22 [255, 255, 30], code 24 [255, 255, 240], code 21 [255, 254, 31],
     code 22 [255, 255, 31], code 23 [255, 255, 107], code 23 [255, 255, 108],
     code 21 [255, 255, 0], code 21 [255, 255, 1], code 22 [255, 255, 32],
     code 21 [255, 255, 2], code 23 [255, 255, 109], code 22 [255, 255, 33],
     code 23 [255, 255, 110], code 23 [255, 255, 111], code 20 [255, 254, 10],
     code 22 [255, 255, 34], code 22 [255, 255, 35], code 22 [255, 255, 36],
     code 23 [255, 255, 112], code 22 [255, 255, 37], code 22 [255, 255, 38],
     code 23 [255, 255, 113], code 26 [255, 255, 248, 0], code 26 [255, 255, 248, 1],
     code 20 [255, 254, 11], code 19 [255, 254, 1], code 22 [255, 255, 39],
     code 23 [255, 255, 114], code 22 [255, 255, 40], code 25 [255, 255, 246, 0],
     code 26 [255, 255, 248, 2], code 26 [255, 255, 248, 3], code 26 [255, 255, 249, 0],
     code 27 [255, 255, 251, 6], code 27 [255, 255, 251, 7], code 26 [255, 255, 249, 1],
     code 24 [255, 255, 241], code 25 [255, 255, 246, 1], code 19 [255, 254, 2],
     code 21 [255, 255, 3], code 26 [255, 255, 249, 2], code 27 [255, 255, 252, 0],
     code 27 [255, 255, 252, 1], code 26 [255, 255, 249, 3], code 27 [255, 255, 252, 2],
     code 24 [255, 255, 242], code 21 [255, 255, 4], code 21 [255, 255, 5],
     code 26 [255, 255, 250, 0], code 26 [255, 255, 250, 1], code 28 [255, 255, 255, 13],
     code 27 [255, 255, 252, 3], code 27 [255, 255, 252, 4], code 27 [255, 255, 252, 5],
     code 20 [255, 254, 12], code 24 [255, 255, 243], code 20 [255, 254, 13],
     code 21 [255, 255, 6], code 22 [255, 255, 41], code 21 [255, 255, 7],
     code 21 [255, 255, 8], code 23 [255, 255, 115], code 22 [255, 255, 42],
     code 22 [255, 255, 43], code 25 [255, 255, 247, 0], code 25 [255, 255, 247, 1],
     code 24 [255, 255, 244], code 24 [255, 255, 245], code 26 [255, 255, 250, 2],
     code 23 [255, 255, 116], code 26 [255, 255, 250, 3], code 27 [255, 255, 252, 6],
     code 26 [255, 255, 251, 0], code 26 [255, 255, 251, 1], code 27 [255, 255, 252, 7],
     code 27 [255, 255, 253, 0], code 27 [255, 255, 253, 1], code 27 [255, 255, 253, 2],
     code 27 [255, 255, 253, 3], code 28 [255, 255, 255, 14], code 27 [255, 255, 253, 4],
     code 27 [255, 255, 253, 5], code 27 [255, 255, 253, 6], code 27 [255, 255, 253, 7],
     code 27 [255, 255, 254, 0], code 26 [255, 255, 251, 2]]"

definition HPACK_STRING_codes :: "huffman_encode_value list" where
  "HPACK_STRING_codes = HPACK_STRING_codes_low @ HPACK_STRING_codes_high"

lemmas code_defs = HPACK_STRING_codes_def HPACK_STRING_codes_low_def HPACK_STRING_codes_high_def

end
