(* ===== verification/HuffmanDecode.thy ===== *)
theory HuffmanDecode
  imports HuffmanTables
begin

text \<open>
  Huffman decoding of string literals: the bit window of
  \<open>h3/src/qpack/prefix_string/bitwin.rs\<close> and the decoder of
  \<open>h3/src/qpack/prefix_string/decode.rs\<close>. Positions are \<open>u32\<close>; they are natural numbers
  here, and a multiplication or addition beyond 32 bits, which takes an input of at least
  512 MiB, is a panic. The decoder is shown to refine a walk over the bits of the input.
\<close>

section \<open>Model\<close>

record bit_window =
  bw_byte :: nat
  bw_bit :: nat
  bw_count :: nat

definition bit_window_new :: bit_window where
  "bit_window_new = \<lparr>bw_byte = 0, bw_bit = 0, bw_count = 0\<rparr>"

definition forwards :: "bit_window \<Rightarrow> nat \<Rightarrow> bit_window" where
  "forwards w step =
     (let b = bw_bit w + bw_count w in
      \<lparr>bw_byte = bw_byte w + b div 8, bw_bit = b mod 8, bw_count = step\<rparr>)"

definition opposite_bit_window :: "bit_window \<Rightarrow> bit_window" where
  "opposite_bit_window w =
     \<lparr>bw_byte = bw_byte w, bw_bit = bw_bit w, bw_count = 8 - bw_bit w mod 8\<rparr>"

text \<open>The bits are counted in \<open>u32\<close>.\<close>

definition read_bits :: "bytes \<Rightarrow> nat \<Rightarrow> nat \<Rightarrow> nat \<Rightarrow> u8 may_panic" where
  "read_bits src byte_offset bit_offset n =
     (if n = 0 \<or> n > 8 then Err ()
      else if length src * 8 \<ge> 2 ^ 32 \<or> byte_offset * 8 + bit_offset + n \<ge> 2 ^ 32 then Panic
      else if length src * 8 < byte_offset * 8 + bit_offset + n then Err ()
      else
        let byte1 = byte_offset + bit_offset div 8;
            bit1 = bit_offset - bit_offset div 8 * 8
        in
          if bit1 + n \<le> 8 then Ok (drop_bit (8 - n) (push_bit bit1 (src ! byte1)))
          else
            let res = push_bit 8 (ucast (src ! byte1)) OR ucast (src ! (byte1 + 1)) :: u16
            in Ok (ucast (drop_bit (16 - n) (push_bit bit1 res))))"

datatype huffman_error =
    MissingBits bit_window
  | Unhandled bit_window nat

definition check_eof :: "bit_window \<Rightarrow> bytes \<Rightarrow> (huffman_error, nat option) result" where
  "check_eof bit_pos input =
     (if bw_byte bit_pos + 1 > length input then Ok None
      else if bw_byte bit_pos + 1 = length input then
        (let side = opposite_bit_window bit_pos in
         (case read_bits input (bw_byte side) (bw_bit side) (bw_count side) of
            Err _ \<Rightarrow> Err (MissingBits side)
          | Panic \<Rightarrow> Panic
          | Ok rest \<Rightarrow>
              let eof_filler = ucast (push_bit (bw_count side - 1) (2 :: u16) - 1) in
              if rest AND eof_filler = eof_filler then Ok None else Err (MissingBits bit_pos)))
      else Err (MissingBits bit_pos))"

definition fetch_value :: "bit_window \<Rightarrow> bytes \<Rightarrow> (huffman_error, nat option) result" where
  "fetch_value bit_pos input =
     (case read_bits input (bw_byte bit_pos) (bw_bit bit_pos) (bw_count bit_pos) of
        Ok val \<Rightarrow> Ok (Some (unat val))
      | Err _ \<Rightarrow> check_eof bit_pos input
      | Panic \<Rightarrow> Panic)"

lemma table_entry_smaller:
  "i < length t \<Longrightarrow> t ! i = Partial d \<Longrightarrow> size d < size (HuffmanDecoder n t)"
  using size_list_estimation' [of "t ! i" t "size (t ! i)" size] nth_mem [of i t] by simp

text \<open>The position is moved also when decoding fails.\<close>

function decode_next :: "huffman_decoder \<Rightarrow> bit_window \<Rightarrow> bytes \<Rightarrow>
    (huffman_error, u8 option) result \<times> bit_window" where
  "decode_next (HuffmanDecoder lookup_n t) bit_pos0 input =
     (let bit_pos = forwards bit_pos0 lookup_n in
      case fetch_value bit_pos input of
        Err e \<Rightarrow> (Err e, bit_pos)
      | Panic \<Rightarrow> (Panic, bit_pos)
      | Ok None \<Rightarrow> (Ok None, bit_pos)
      | Ok (Some val) \<Rightarrow>
          if val < length t then
            (case t ! val of
               Sym x \<Rightarrow> (Ok (Some x), bit_pos)
             | Partial d \<Rightarrow> decode_next d bit_pos input)
          else (Err (Unhandled bit_pos val), bit_pos))"
  by pat_completeness auto

termination decode_next
  by (relation "measure (\<lambda>(d, bit_pos, input). size d)") (auto dest: table_entry_smaller)

declare decode_next.simps [simp del]

section \<open>Bits\<close>

text \<open>The bits of a byte string, the most significant bit of each byte first, and the value of a bit string.\<close>

definition bit_at :: "bytes \<Rightarrow> nat \<Rightarrow> bool" where
  "bit_at bs p = bit (bs ! (p div 8)) (7 - p mod 8)"

definition bits_of :: "bytes \<Rightarrow> bool list" where
  "bits_of bs = map (bit_at bs) [0..<8 * length bs]"

definition bits_val :: "bool list \<Rightarrow> nat" where
  "bits_val l = foldl (\<lambda>a b. 2 * a + of_bool b) 0 l"

datatype walked = Found u8 "bool list" | Short | Unknown

function walk :: "huffman_decoder \<Rightarrow> bool list \<Rightarrow> walked" where
  "walk (HuffmanDecoder n t) bits =
     (if n = 0 \<or> n > 8 \<or> length bits < n then Short
      else
        let val = bits_val (take n bits) in
        if val < length t then
          (case t ! val of
             Sym x \<Rightarrow> Found x (drop n bits)
           | Partial d \<Rightarrow> walk d (drop n bits))
        else Unknown)"
  by pat_completeness auto

termination walk
  by (relation "measure (\<lambda>(d, bits). size d)") (auto dest: table_entry_smaller)

text \<open>The bits of a code.\<close>

fun code_bits_loop :: "bytes \<Rightarrow> nat \<Rightarrow> bool list" where
  "code_bits_loop [] rest = []"
| "code_bits_loop (b # bs) rest =
     (let n = min rest 8 in map (bit b) (rev [0..<n]) @ code_bits_loop bs (rest - n))"

definition code_bits :: "huffman_encode_value \<Rightarrow> bool list" where
  "code_bits ev = code_bits_loop (ev_buffer ev) (ev_bit_count ev)"

lemma length_bits_of [simp]: "length (bits_of bs) = 8 * length bs"
  by (simp add: bits_of_def)

lemma nth_bits_of: "p < 8 * length bs \<Longrightarrow> bits_of bs ! p = bit_at bs p"
  by (simp add: bits_of_def)

lemma bits_val_snoc: "bits_val (l @ [b]) = 2 * bits_val l + of_bool b"
  by (simp add: bits_val_def)

lemma bits_val_horner: "bits_val l = horner_sum of_bool 2 (rev l)"
  by (induction l rule: rev_induct) (simp_all add: bits_val_snoc, simp add: bits_val_def)

lemma bits_val_word:
  assumes "\<And>k. bit (w :: 'a::len word) k \<longleftrightarrow> k < length l \<and> l ! (length l - 1 - k)"
  shows "unat w = bits_val l"
proof -
  have "rev l = map (bit (unat w)) [0..<length l]"
    by (rule nth_equalityI) (simp_all add: rev_nth bit_unsigned_iff assms impossible_bit)
  then have "bits_val l = take_bit (length l) (unat w)"
    by (simp add: bits_val_horner horner_sum_bit_eq_take_bit)
  also have "\<dots> = unat w"
    by (rule bit_eqI) (auto simp: bit_take_bit_iff bit_unsigned_iff assms)
  finally show ?thesis by simp
qed

definition input_ok :: "bytes \<Rightarrow> bool" where
  "input_ok src \<longleftrightarrow> length src < 2 ^ 28"

lemma read_bits_result:
  assumes "input_ok src" and "0 < n" and "n \<le> 8" and "byte * 8 + bt + n \<le> 8 * length src"
  shows "\<exists>w. read_bits src byte bt n = Ok w
    \<and> (\<forall>k. bit w k \<longleftrightarrow> k < n \<and> bit_at src (byte * 8 + bt + (n - 1 - k)))"
proof -
  define byte1 bit1 where "byte1 = byte + bt div 8" and "bit1 = bt mod 8"
  have b1: "bt - bt div 8 * 8 = bit1" and bit1: "bit1 < 8"
    by (simp_all add: bit1_def minus_div_mult_eq_mod)
  have pos: "byte * 8 + bt = byte1 * 8 + bit1"
    by (simp add: byte1_def bit1_def)
  have small: "\<not> length src * 8 \<ge> 2 ^ 32" "\<not> byte * 8 + bt + n \<ge> 2 ^ 32"
    using assms by (simp_all add: input_ok_def)
  have rb: "read_bits src byte bt n =
     (if bit1 + n \<le> 8 then Ok (drop_bit (8 - n) (push_bit bit1 (src ! byte1)))
      else Ok (ucast (drop_bit (16 - n)
        (push_bit bit1 (push_bit 8 (ucast (src ! byte1)) OR ucast (src ! (byte1 + 1)) :: u16)))))"
  proof -
    have "\<not> (n = 0 \<or> n > 8)" "\<not> (length src * 8 \<ge> 2 ^ 32 \<or> byte * 8 + bt + n \<ge> 2 ^ 32)"
      "\<not> length src * 8 < byte * 8 + bt + n"
      using assms small by auto
    then show ?thesis
      unfolding read_bits_def Let_def b1 byte1_def [symmetric] by (simp only: if_False)
  qed
  have at: "bit_at src (byte * 8 + bt + j) =
      (if bit1 + j < 8 then bit (src ! byte1) (7 - (bit1 + j)) else bit (src ! (byte1 + 1)) (15 - (bit1 + j)))"
    if "j < 8" for j
  proof (cases "bit1 + j < 8")
    case True
    have e: "byte1 * 8 + bit1 + j = byte1 * 8 + (bit1 + j)" by simp
    have "(byte1 * 8 + bit1 + j) div 8 = byte1" and "(byte1 * 8 + bit1 + j) mod 8 = bit1 + j"
      unfolding e using True by simp_all
    then show ?thesis using True by (simp add: bit_at_def pos)
  next
    case False
    define m where "m = bit1 + j - 8"
    have m: "m < 8" "bit1 + j = m + 8" using False that bit1 by (auto simp: m_def)
    have e: "byte1 * 8 + bit1 + j = (byte1 + 1) * 8 + m" using m by simp
    have "(byte1 * 8 + bit1 + j) div 8 = byte1 + 1" and "(byte1 * 8 + bit1 + j) mod 8 = m"
      unfolding e using m(1) mod_mult_self3 [of "byte1 + 1" 8 m] div_mult_self3 [of 8 m "byte1 + 1"]
      by simp_all
    then show ?thesis using False m by (simp add: bit_at_def pos)
  qed
  show ?thesis
  proof (cases "bit1 + n \<le> 8")
    case True
    define w where "w = drop_bit (8 - n) (push_bit bit1 (src ! byte1))"
    have "read_bits src byte bt n = Ok w"
      using True by (simp add: rb w_def)
    moreover have "bit w k \<longleftrightarrow> k < n \<and> bit_at src (byte * 8 + bt + (n - 1 - k))" for k
    proof (cases "k < n")
      case kn: True
      define j where "j = n - 1 - k"
      have j: "8 - n + k - bit1 = 7 - (bit1 + j)" "bit1 + j < 8" "bit1 \<le> 8 - n + k" "8 - n + k < 8" "j < 8"
        using kn True assms(3) by (auto simp: j_def)
      have "bit w k \<longleftrightarrow> bit (src ! byte1) (7 - (bit1 + j))"
        using j by (simp add: w_def bit_drop_bit_eq bit_push_bit_iff)
      then show ?thesis
        using kn at [of j] j by (simp add: j_def)
    next
      case False
      then show ?thesis using assms(3) by (simp add: w_def bit_drop_bit_eq bit_push_bit_iff bit_word_iff_drop_bit_and impossible_bit)
    qed
    ultimately show ?thesis by blast
  next
    case False
    define v where "v = (push_bit 8 (ucast (src ! byte1)) OR ucast (src ! (byte1 + 1)) :: u16)"
    define w where "w = (ucast (drop_bit (16 - n) (push_bit bit1 v)) :: u8)"
    have "read_bits src byte bt n = Ok w"
      using False by (simp add: rb w_def v_def)
    moreover have "bit w k \<longleftrightarrow> k < n \<and> bit_at src (byte * 8 + bt + (n - 1 - k))" for k
    proof (cases "k < n")
      case kn: True
      define j where "j = n - 1 - k"
      have j: "16 + k - (n + bit1) = 15 - (bit1 + j)" "bit1 \<le> 16 + k - n" "16 + k - n < 16" "k < 8"
        "bit1 + j < 16" "j < 8"
        using kn assms(3) bit1 by (auto simp: j_def)
      have vb: "bit v i \<longleftrightarrow> (if i < 8 then bit (src ! (byte1 + 1)) i else bit (src ! byte1) (i - 8))" if "i < 16" for i
        using that by (auto simp: v_def bit_or_iff bit_push_bit_iff bit_ucast_iff dest: bit_imp_le_length)
      have "bit w k \<longleftrightarrow> bit v (15 - (bit1 + j))"
        using j by (simp add: w_def bit_ucast_iff bit_drop_bit_eq bit_push_bit_iff)
      also have "\<dots> \<longleftrightarrow> bit_at src (byte * 8 + bt + j)"
        using vb [of "15 - (bit1 + j)"] at [of j] j by auto
      finally show ?thesis using kn by (simp add: j_def)
    next
      case False
      then have "\<not> 16 + k - n < 16" using assms(3) by simp
      then show ?thesis using False assms(3) by (simp add: w_def bit_ucast_iff bit_drop_bit_eq bit_push_bit_iff)
    qed
    ultimately show ?thesis by blast
  qed
qed

section \<open>The decoder walks over the bits\<close>

abbreviation start_pos :: "bit_window \<Rightarrow> nat" where
  "start_pos w \<equiv> bw_byte w * 8 + bw_bit w"

abbreviation end_pos :: "bit_window \<Rightarrow> nat" where
  "end_pos w \<equiv> bw_byte w * 8 + bw_bit w + bw_count w"

lemma forwards_pos [simp]:
  "bw_byte (forwards w n) * 8 + bw_bit (forwards w n) = end_pos w"
  "bw_count (forwards w n) = n"
  "bw_bit (forwards w n) < 8"
  by (simp_all add: forwards_def Let_def add_mult_distrib)

lemma read_bits_spec:
  assumes "input_ok src" and "0 < n" and "n \<le> 8" and "byte * 8 + bt + n \<le> 8 * length src"
  shows "\<exists>w. read_bits src byte bt n = Ok w
    \<and> unat w = bits_val (take n (drop (byte * 8 + bt) (bits_of src)))"
proof -
  obtain w where w: "read_bits src byte bt n = Ok w"
    "\<And>k. bit w k \<longleftrightarrow> k < n \<and> bit_at src (byte * 8 + bt + (n - 1 - k))"
    using read_bits_result [OF assms] by blast
  have l: "length (take n (drop (byte * 8 + bt) (bits_of src))) = n"
    using assms(4) by simp
  have "unat w = bits_val (take n (drop (byte * 8 + bt) (bits_of src)))"
    using assms(4) by (intro bits_val_word) (auto simp: w(2) l nth_bits_of)
  with w(1) show ?thesis by blast
qed

lemma read_bits_fails:
  assumes "input_ok src" and "n = 0 \<or> n > 8 \<or> 8 * length src < byte * 8 + bt + n"
    and "byte * 8 + bt \<le> 8 * length src"
  shows "read_bits src byte bt n = Err ()"
  using assms by (auto simp: read_bits_def input_ok_def)

lemma read_bits_OkD:
  "read_bits src byte bt n = Ok w \<Longrightarrow> 0 < n \<and> byte * 8 + bt + n \<le> 8 * length src"
  by (auto simp: read_bits_def Let_def split: if_splits)

lemma filler_mask: "1 \<le> n \<Longrightarrow> n \<le> 8 \<Longrightarrow> ucast (push_bit (n - 1) (2 :: u16) - 1) = (mask n :: u8)"
proof -
  assume n: "1 \<le> n" "n \<le> 8"
  have "push_bit (n - 1) (2 :: u16) = push_bit (n - 1) (push_bit 1 1)" by simp
  also have "\<dots> = push_bit n 1" using n by (simp only: push_bit_push_bit) simp
  finally have "push_bit (n - 1) (2 :: u16) - 1 = mask n" by (simp add: mask_eq_exp_minus_1)
  then have e: "ucast (push_bit (n - 1) (2 :: u16) - 1) = (ucast (mask n :: u16) :: u8)" by simp
  show ?thesis
    unfolding e using n by (intro bit_eqI) (auto simp: bit_ucast_iff bit_mask_iff)
qed

lemma mem_all_true: "x \<in> set l \<Longrightarrow> False \<notin> set l \<Longrightarrow> x"
  by (cases x) auto

text \<open>At the end of the input, with fewer bits left than asked for.\<close>

lemma check_eof_spec:
  assumes "input_ok input" and "bw_bit w < 8" and "start_pos w \<le> 8 * length input"
  shows "check_eof w input \<noteq> Panic" and "check_eof w input \<noteq> Ok (Some v)"
    and "8 * length input < start_pos w + 8 \<Longrightarrow> False \<notin> set (drop (start_pos w) (bits_of input)) \<Longrightarrow>
      check_eof w input = Ok None"
proof -
  define c where "c = 8 - bw_bit w mod 8"
  have c: "1 \<le> c" "c \<le> 8" "bw_bit w + c = 8" using assms(2) by (auto simp: c_def)
  then have c8: "8 - bw_bit w = c" by simp
  show "check_eof w input \<noteq> Panic" and "check_eof w input \<noteq> Ok (Some v)"
    using read_bits_result [OF assms(1), of c "bw_byte w" "bw_bit w"] c c8
    by (auto simp: check_eof_def Let_def opposite_bit_window_def simp flip: c_def split: result.splits)
  assume near: "8 * length input < start_pos w + 8" and ones: "False \<notin> set (drop (start_pos w) (bits_of input))"
  show "check_eof w input = Ok None"
  proof (cases "bw_byte w + 1 = length input")
    case True
    then have len: "start_pos w + c = 8 * length input" using c by simp
    then obtain r where r: "read_bits input (bw_byte w) (bw_bit w) c = Ok r"
      "\<And>k. bit r k \<longleftrightarrow> k < c \<and> bit_at input (start_pos w + (c - 1 - k))"
      using read_bits_result [OF assms(1), of c "bw_byte w" "bw_bit w"] c by auto
    have all: "bit_at input (start_pos w + j)" if "j < c" for j
    proof -
      have "drop (start_pos w) (bits_of input) ! j \<in> set (drop (start_pos w) (bits_of input))"
        using that len by (intro nth_mem) simp
      then have "drop (start_pos w) (bits_of input) ! j" using ones by (rule mem_all_true)
      then show ?thesis using that len by (simp add: nth_bits_of)
    qed
    have "bit r k \<longleftrightarrow> k < c" for k
      using r(2) [of k] all [of "c - 1 - k"] c(1) by auto
    then have "r = mask c"
      using c by (intro bit_eqI) (auto simp: bit_mask_iff)
    then show ?thesis
      using True r(1) filler_mask [OF c(1,2)]
      by (simp add: check_eof_def Let_def opposite_bit_window_def flip: c_def)
  next
    case False
    then have "bw_byte w + 1 > length input" using near assms(2) by linarith
    then show ?thesis by (simp add: check_eof_def)
  qed
qed

lemma decode_next_progress:
  "decode_next d w input = (Ok (Some x), w') \<Longrightarrow> end_pos w < end_pos w' \<and> end_pos w' \<le> 8 * length input"
proof (induction d w input rule: decode_next.induct)
  case (1 n t w input)
  define w1 where "w1 = forwards w n"
  obtain val where f: "fetch_value w1 input = Ok (Some val)"
    using 1(2) by (auto simp: decode_next.simps Let_def simp flip: w1_def
        split: result.splits option.splits if_splits)
  have "\<exists>b. read_bits input (bw_byte w1) (bw_bit w1) (bw_count w1) = Ok b"
    using f by (auto simp: fetch_value_def check_eof_def Let_def split: result.splits if_splits)
  then have rd: "0 < n \<and> end_pos w + n \<le> 8 * length input"
    using read_bits_OkD by (fastforce simp: w1_def)
  have e: "end_pos w1 = end_pos w + n" by (simp add: w1_def)
  show ?case
  proof (cases "t ! val")
    case (Partial d)
    then have "val < length t" and n1: "decode_next d w1 input = (Ok (Some x), w')"
      using 1(2) f by (auto simp: decode_next.simps Let_def simp flip: w1_def split: if_splits)
    then have "end_pos w1 < end_pos w' \<and> end_pos w' \<le> 8 * length input"
      using 1(1) [of w1 "Some val" val d] f Partial by (simp add: w1_def)
    then show ?thesis using rd e by simp
  next
    case (Sym y)
    then have "w' = w1"
      using 1(2) f by (auto simp: decode_next.simps Let_def simp flip: w1_def split: if_splits)
    then show ?thesis using rd e by simp
  qed
qed

lemma decode_next_walk:
  assumes "input_ok input" and "end_pos w \<le> 8 * length input" and "decode_next d w input = (r, w')"
  shows "case walk d (drop (end_pos w) (bits_of input)) of
     Found x rest \<Rightarrow> r = Ok (Some x) \<and> rest = drop (end_pos w') (bits_of input)
   | Unknown \<Rightarrow> \<exists>e. r = Err e
   | Short \<Rightarrow> r \<noteq> Panic \<and> (\<forall>x. r \<noteq> Ok (Some x))
       \<and> (8 * length input < end_pos w + 8 \<longrightarrow> False \<notin> set (drop (end_pos w) (bits_of input)) \<longrightarrow> r = Ok None)"
  using assms
proof (induction d w input rule: decode_next.induct)
  case (1 n t w input)
  define w1 where "w1 = forwards w n"
  define bits where "bits = drop (end_pos w) (bits_of input)"
  have p1: "start_pos w1 = end_pos w" "bw_count w1 = n" "bw_bit w1 < 8" by (simp_all add: w1_def)
  have len: "length bits = 8 * length input - end_pos w" by (simp add: bits_def)
  show ?case
  proof (cases "n = 0 \<or> n > 8 \<or> length bits < n")
    case True
    then have "read_bits input (bw_byte w1) (bw_bit w1) n = Err ()"
      using 1(2,3) p1 len by (intro read_bits_fails) auto
    then have f: "fetch_value w1 input = check_eof w1 input"
      using p1 by (simp add: fetch_value_def)
    note eof = check_eof_spec [OF 1(2) p1(3), unfolded p1(1), OF 1(3)]
    have "walk (HuffmanDecoder n t) bits = Short" using True by auto
    moreover have "r \<noteq> Panic \<and> (\<forall>x. r \<noteq> Ok (Some x))
       \<and> (8 * length input < end_pos w + 8 \<longrightarrow> False \<notin> set bits \<longrightarrow> r = Ok None)"
      using 1(4) eof f by (cases "check_eof w1 input")
        (auto simp: decode_next.simps Let_def bits_def simp flip: w1_def split: option.splits)
    ultimately show ?thesis by (simp add: bits_def)
  next
    case False
    define val where "val = bits_val (take n bits)"
    have fits: "start_pos w1 + n \<le> 8 * length input" using p1(1) False len 1(3) by linarith
    then obtain b where b: "read_bits input (bw_byte w1) (bw_bit w1) n = Ok b" "unat b = val"
      using read_bits_spec [OF 1(2), of n "bw_byte w1" "bw_bit w1"] False
      unfolding val_def bits_def p1(1) by auto
    then have f: "fetch_value w1 input = Ok (Some val)"
      using p1 by (simp add: fetch_value_def)
    have e1: "end_pos w1 = end_pos w + n" using p1 by simp
    then have d1: "drop (end_pos w1) (bits_of input) = drop n bits" by (simp add: bits_def add.commute)
    show ?thesis
    proof (cases "val < length t")
      case True
      show ?thesis
      proof (cases "t ! val")
        case (Sym x)
        then have "walk (HuffmanDecoder n t) bits = Found x (drop n bits)"
          using False True by (simp add: Let_def flip: val_def)
        moreover have "r = Ok (Some x)" "w' = w1"
          using 1(4) f True Sym by (simp_all add: decode_next.simps Let_def flip: w1_def)
        ultimately show ?thesis using d1 by (simp add: bits_def)
      next
        case (Partial d)
        then have wk: "walk (HuffmanDecoder n t) bits = walk d (drop n bits)"
          using False True by (simp add: Let_def flip: val_def)
        have nx: "decode_next d w1 input = (r, w')"
          using 1(4) f True Partial by (simp add: decode_next.simps Let_def flip: w1_def)
        have le: "end_pos w1 \<le> 8 * length input" using fits p1(1) unfolding e1 by simp
        have ih: "case walk d (drop n bits) of
           Found x rest \<Rightarrow> r = Ok (Some x) \<and> rest = drop (end_pos w') (bits_of input)
         | Unknown \<Rightarrow> \<exists>e. r = Err e
         | Short \<Rightarrow> r \<noteq> Panic \<and> (\<forall>x. r \<noteq> Ok (Some x))
             \<and> (8 * length input < end_pos w1 + 8 \<longrightarrow> False \<notin> set (drop n bits) \<longrightarrow> r = Ok None)"
          by (rule 1(1) [OF w1_def f refl True Partial 1(2) le nx, unfolded d1])
        have "False \<notin> set bits \<Longrightarrow> False \<notin> set (drop n bits)"
          by (auto dest: in_set_dropD)
        then show ?thesis
          using ih e1 unfolding wk [unfolded bits_def] by (auto simp: bits_def split: walked.splits)
      qed
    next
      case False
      then have "walk (HuffmanDecoder n t) bits = Unknown"
        using \<open>\<not> (n = 0 \<or> n > 8 \<or> length bits < n)\<close> by (simp add: Let_def flip: val_def)
      moreover have "\<exists>e. r = Err e"
        using 1(4) f False by (auto simp: decode_next.simps Let_def simp flip: w1_def)
      ultimately show ?thesis by (simp add: bits_def)
    qed
  qed
qed

section \<open>Decoding a string\<close>

text \<open>
  Collecting the bytes of \<open>hpack_decode\<close>, as \<open>prefix_string::decode\<close> does: the first error
  ends it. Every symbol takes at least one bit.
\<close>

function hpack_decode_loop :: "bit_window \<Rightarrow> bytes \<Rightarrow> (huffman_error, bytes) result" where
  "hpack_decode_loop bit_pos content =
     (case decode_next HPACK_STRING_decoder bit_pos content of
        (Ok (Some x), bit_pos1) \<Rightarrow> map_ok ((#) x) (hpack_decode_loop bit_pos1 content)
      | (Ok None, _) \<Rightarrow> Ok []
      | (Err e, _) \<Rightarrow> Err e
      | (Panic, _) \<Rightarrow> Panic)"
  by pat_completeness auto

termination hpack_decode_loop
proof (relation "measure (\<lambda>(w, input). 8 * length input - end_pos w)", goal_cases)
  case (2 w input r w' o x)
  then have "decode_next HPACK_STRING_decoder w input = (Ok (Some x), w')" by simp
  then show ?case using decode_next_progress by fastforce
qed simp

declare hpack_decode_loop.simps [simp del]

definition hpack_decode :: "bytes \<Rightarrow> (huffman_error, bytes) result" where
  "hpack_decode content = hpack_decode_loop bit_window_new content"

section \<open>The code\<close>

lemma walk_append:
  "walk d bits = Found x r \<Longrightarrow> walk d (bits @ later) = Found x (r @ later)"
proof (induction d bits rule: walk.induct)
  case (1 n t bits)
  then have g: "\<not> (n = 0 \<or> n > 8 \<or> length bits < n)" by (auto split: if_splits)
  define val where "val = bits_val (take n bits)"
  have tk: "take n (bits @ later) = take n bits" "drop n (bits @ later) = drop n bits @ later" using g by simp_all
  show ?case
    using 1 g by (auto simp: Let_def tk simp flip: val_def split: if_splits decode_value.splits)
qed

text \<open>Every code leads to its symbol, and no shorter string of ones to any: evaluated on the tables.\<close>

definition code_found :: "nat \<Rightarrow> bool" where
  "code_found n \<longleftrightarrow> walk HPACK_STRING_decoder (code_bits (HPACK_STRING_codes ! n)) = Found (word_of_nat n) []"

lemma codes_found_1: "list_all code_found [0..<64]" by code_simp
lemma codes_found_2: "list_all code_found [64..<128]" by code_simp
lemma codes_found_3: "list_all code_found [128..<192]" by code_simp
lemma codes_found_4: "list_all code_found [192..<256]" by code_simp

lemma ones_short: "list_all (\<lambda>k. walk HPACK_STRING_decoder (replicate k True) = Short) [0..<8]"
  by code_simp

definition code_of :: "u8 \<Rightarrow> bool list" where
  "code_of x = code_bits (HPACK_STRING_codes ! unat x)"

lemma walk_code: "walk HPACK_STRING_decoder (code_of x @ rest) = Found x rest"
proof -
  have "unat x < 256" by (rule unat_u8_bound)
  then have "code_found (unat x)"
    using codes_found_1 codes_found_2 codes_found_3 codes_found_4
    by (cases "unat x < 64"; cases "unat x < 128"; cases "unat x < 192")
      (auto simp only: list_all_iff set_upt atLeastLessThan_iff not_less)
  then have "walk HPACK_STRING_decoder (code_of x) = Found x []"
    by (simp add: code_found_def code_of_def)
  from walk_append [OF this, of rest] show ?thesis by simp
qed

lemma walk_padding: "k < 8 \<Longrightarrow> walk HPACK_STRING_decoder (replicate k True) = Short"
  using ones_short by (auto simp only: list_all_iff set_upt atLeastLessThan_iff)

lemma hpack_decode_loop_spec:
  assumes "input_ok input" and "end_pos w \<le> 8 * length input" and "k < 8"
    and "drop (end_pos w) (bits_of input) = concat (map code_of xs) @ replicate k True"
  shows "hpack_decode_loop w input = Ok xs"
  using assms(2-)
proof (induction xs arbitrary: w)
  case Nil
  then have d: "drop (end_pos w) (bits_of input) = replicate k True" by simp
  from arg_cong [where f = length, OF d] have "8 * length input - end_pos w = k" by simp
  then have near: "8 * length input < end_pos w + 8" using Nil(2) by linarith
  obtain r w' where n: "decode_next HPACK_STRING_decoder w input = (r, w')"
    by (cases "decode_next HPACK_STRING_decoder w input")
  have "r = Ok None"
    using decode_next_walk [OF assms(1) Nil(1) n] near walk_padding [OF Nil(2)] unfolding d
    by (auto dest: in_set_replicate [THEN iffD1])
  then show ?case using n by (simp add: hpack_decode_loop.simps)
next
  case (Cons x xs)
  then have d: "drop (end_pos w) (bits_of input) = code_of x @ (concat (map code_of xs) @ replicate k True)"
    by simp
  obtain r w' where n: "decode_next HPACK_STRING_decoder w input = (r, w')"
    by (cases "decode_next HPACK_STRING_decoder w input")
  have r: "r = Ok (Some x)" and rest: "drop (end_pos w') (bits_of input) = concat (map code_of xs) @ replicate k True"
    using decode_next_walk [OF assms(1) Cons(2) n] unfolding d walk_code by simp_all
  have "end_pos w' \<le> 8 * length input"
    using decode_next_progress n r by blast
  then have "hpack_decode_loop w' input = Ok xs"
    using Cons.IH Cons.prems(2) rest by blast
  then show ?case using n r by (simp add: hpack_decode_loop.simps [of w])
qed

lemma hpack_decode_no_Panic:
  assumes "input_ok input" and "end_pos w \<le> 8 * length input"
  shows "hpack_decode_loop w input \<noteq> Panic"
  using assms
proof (induction w input rule: hpack_decode_loop.induct)
  case (1 w input)
  obtain r w' where n: "decode_next HPACK_STRING_decoder w input = (r, w')"
    by (cases "decode_next HPACK_STRING_decoder w input")
  note dw = decode_next_walk [OF 1(2,3) n]
  have np: "r \<noteq> Panic" using dw by (auto split: walked.splits)
  show ?case
  proof (cases "\<exists>x. r = Ok (Some x)")
    case True
    then obtain x where r: "r = Ok (Some x)" by blast
    then have "end_pos w' \<le> 8 * length input" using decode_next_progress n by blast
    then have "hpack_decode_loop w' input \<noteq> Panic"
      using 1(1) [OF n [symmetric] r refl 1(2)] by blast
    then show ?thesis using n r by (simp add: hpack_decode_loop.simps [of w])
  next
    case False
    then show ?thesis
      using n np by (cases r) (auto simp: hpack_decode_loop.simps [of w] split: option.splits)
  qed
qed

text \<open>
  Decoding inverts the code. For every string of bytes, an input whose bits are the
  codes of these bytes followed by at most seven one bits decodes to the string.
\<close>

theorem hpack_decode_correct:
  assumes "input_ok input" and "k < 8"
    and "bits_of input = concat (map code_of xs) @ replicate k True"
  shows "hpack_decode input = Ok xs"
  using hpack_decode_loop_spec [of input bit_window_new k xs] assms
  by (simp add: hpack_decode_def bit_window_new_def)

theorem hpack_decode_correct_witness: "hpack_decode [0x1F] = Ok [97]"
proof (rule hpack_decode_correct)
  show "bits_of [0x1F] = concat (map code_of [97]) @ replicate 3 True" by code_simp
qed (simp_all add: input_ok_def)

text \<open>
  Padding is not checked. A whole byte of ones, more than the seven bits that padding
  may have, decodes to nothing instead of being an error.
\<close>

theorem overlong_padding_is_accepted: "hpack_decode [0xFF] = Ok [] \<and> hpack_decode [0x1F, 0xFF] = Ok [97]"
  by (simp add: hpack_decode_def hpack_decode_loop.simps decode_next.simps bit_window_new_def forwards_def
    Let_def fetch_value_def read_bits_def check_eof_def HPACK_STRING_decoder_def END0_11111_def END5_11_def END7_1_def END8_1_def END9B_11_def)

end
