(* ===== verification/HuffmanEncode.thy ===== *)
theory HuffmanEncode
  imports HuffmanDecode
begin

text \<open>
  Huffman encoding of string literals, \<open>h3/src/qpack/prefix_string/encode.rs\<close>: codes are
  written bit by bit into a buffer that is extended with bytes of ones. The capacity of the
  buffer is not modelled. The bits of the result are shown to be the codes followed by fewer
  than eight ones, whence decoding returns what was encoded.
\<close>

section \<open>Model\<close>

definition PAD_RIGHT :: "u8 list" where
  "PAD_RIGHT = [0, 1, 3, 7, 15, 31, 63, 127, 255]"

definition PAD_LEFT :: "u8 list" where
  "PAD_LEFT = [0, 128, 192, 224, 240, 248, 252, 254, 255]"

text \<open>The debug assertions and the bounds of the slice are panics.\<close>

definition write_bits :: "bytes \<Rightarrow> bit_window \<Rightarrow> u8 \<Rightarrow> bytes may_panic" where
  "write_bits out pos val =
     (let i = bw_byte pos; b = bw_bit pos; n = bw_count pos in
      assert_then (b < 8 \<and> n \<le> 8 \<and> n > 0 \<and> i < length out)
        (assert_then (out ! i OR PAD_LEFT ! b = 255)
          (if b + n \<le> 8 then
             let pad_left = out ! i OR PAD_RIGHT ! (8 - b);
                 shifted = push_bit (8 - b - n) val OR PAD_LEFT ! b;
                 pad_right = PAD_RIGHT ! (8 - n - b)
             in Ok (out[i := (pad_left AND shifted) OR pad_right])
           else
             let split = 8 - b;
                 pad_left = out ! i OR PAD_RIGHT ! split;
                 shifted = drop_bit (n - split) val OR PAD_LEFT ! b;
                 rem = 8 - (n - split)
             in assert_then (i + 1 < length out)
                  (Ok (out[i := pad_left AND shifted, i + 1 := push_bit rem val OR PAD_RIGHT ! rem])))))"

record huffman_encoder =
  buffer_pos :: bit_window
  buffer :: bytes

definition huffman_encoder_new :: huffman_encoder where
  "huffman_encoder_new = \<lparr>buffer_pos = bit_window_new, buffer = []\<rparr>"

definition ensure_free_space :: "huffman_encoder \<Rightarrow> nat \<Rightarrow> huffman_encoder" where
  "ensure_free_space e bit_count =
     (let end_range = forwards (forwards (buffer_pos e) bit_count) 0 in
      if length (buffer e) > bw_byte end_range then e
      else
        let forward = bw_byte end_range - length (buffer e) + (if bw_bit end_range > 0 then 1 else 0)
        in e\<lparr>buffer := buffer e @ replicate forward 255\<rparr>)"

fun put_loop :: "huffman_encoder \<Rightarrow> bytes \<Rightarrow> nat \<Rightarrow> huffman_encoder may_panic" where
  "put_loop e [] rest = Ok e"
| "put_loop e (part # parts) rest =
     (let pos = forwards (buffer_pos e) (if rest < 8 then rest else 8) in
      and_then (usub rest (bw_count pos)) (\<lambda>rest1.
        and_then (write_bits (buffer e) pos part) (\<lambda>out.
          put_loop (e\<lparr>buffer_pos := pos, buffer := out\<rparr>) parts rest1)))"

definition put :: "huffman_encoder \<Rightarrow> u8 \<Rightarrow> huffman_encoder may_panic" where
  "put e c =
     (let huffman_encode_value = HPACK_STRING_codes ! unat c in
      put_loop (ensure_free_space e (ev_bit_count huffman_encode_value))
        (ev_buffer huffman_encode_value) (ev_bit_count huffman_encode_value))"

definition ends :: "huffman_encoder \<Rightarrow> bytes" where
  "ends e = buffer e"

fun put_all :: "huffman_encoder \<Rightarrow> bytes \<Rightarrow> huffman_encoder may_panic" where
  "put_all e [] = Ok e"
| "put_all e (c # cs) = and_then (put e c) (\<lambda>e1. put_all e1 cs)"

definition hpack_encode :: "bytes \<Rightarrow> bytes may_panic" where
  "hpack_encode s = map_ok ends (put_all huffman_encoder_new s)"

section \<open>Writing bits\<close>

lemma pads:
  assumes "k \<le> 8"
  shows "PAD_RIGHT ! k = mask k" and "PAD_LEFT ! k = NOT (mask (8 - k))"
proof -
  have "k \<in> {0, 1, 2, 3, 4, 5, 6, 7, 8}" using assms by auto
  then show "PAD_RIGHT ! k = mask k" and "PAD_LEFT ! k = NOT (mask (8 - k))"
    by (auto simp: PAD_RIGHT_def PAD_LEFT_def mask_eq_exp_minus_1)
qed

lemma bit_at_update:
  "i < length out \<Longrightarrow> bit_at (out[i := w]) q = (if q div 8 = i then bit w (7 - q mod 8) else bit_at out q)"
  by (auto simp: bit_at_def)

lemma write_bits_spec:
  assumes "bw_bit pos < 8" and "0 < bw_count pos" and "bw_count pos \<le> 8"
    and "end_pos pos \<le> 8 * length out"
    and ones: "\<And>q. start_pos pos \<le> q \<Longrightarrow> q < 8 * length out \<Longrightarrow> bit_at out q"
  shows "\<exists>out'. write_bits out pos val = Ok out' \<and> length out' = length out
    \<and> (\<forall>q < 8 * length out. bit_at out' q \<longleftrightarrow>
          (if q < start_pos pos then bit_at out q
           else if q < end_pos pos then bit val (bw_count pos - 1 - (q - start_pos pos))
           else True))"
proof -
  define i b n where "i = bw_byte pos" and "b = bw_bit pos" and "n = bw_count pos"
  have b: "b < 8" and n: "0 < n" "n \<le> 8" and fits: "i * 8 + b + n \<le> 8 * length out"
    using assms(1-4) by (simp_all add: i_def b_def n_def)
  then have i: "i < length out" by simp
  have ones': "bit_at out q" if "i * 8 + b \<le> q" "q < 8 * length out" for q
    using ones that by (simp add: i_def b_def)
  have x: "bit (out ! i) m" if "m < 8 - b" for m
  proof -
    have "(i * 8 + (7 - m)) div 8 = i" and "(i * 8 + (7 - m)) mod 8 = 7 - m" by auto
    moreover have "bit_at out (i * 8 + (7 - m))"
      using that i by (intro ones') simp_all
    ultimately show ?thesis using that by (simp add: bit_at_def)
  qed
  have dbg: "out ! i OR PAD_LEFT ! b = 255"
  proof -
    have ff: "(255 :: u8) = mask 8" by (simp add: mask_eq_exp_minus_1)
    show ?thesis
      unfolding ff using x b by (intro bit_eqI) (auto simp: pads bit_or_iff bit_not_iff bit_mask_iff)
  qed
  have pos: "q = q div 8 * 8 + q mod 8" for q :: nat by simp
  show ?thesis
  proof (cases "b + n \<le> 8")
    case True
    define w where "w = ((out ! i OR PAD_RIGHT ! (8 - b)) AND (push_bit (8 - b - n) val OR PAD_LEFT ! b))
      OR PAD_RIGHT ! (8 - n - b)"
    have wr: "write_bits out pos val = Ok (out[i := w])"
      using b n i dbg True
      by (simp add: write_bits_def Let_def assert_then_def w_def flip: i_def b_def n_def)
    have wb: "bit w m \<longleftrightarrow> (if 8 - b \<le> m then bit (out ! i) m
        else if 8 - b - n \<le> m then bit val (m - (8 - b - n)) else True)" if "m < 8" for m
      using that b n True by (auto simp: w_def pads bit_or_iff bit_and_iff bit_not_iff bit_mask_iff bit_push_bit_iff)
    have "bit_at (out[i := w]) q \<longleftrightarrow>
        (if q < i * 8 + b then bit_at out q
         else if q < i * 8 + b + n then bit val (n - 1 - (q - (i * 8 + b))) else True)"
      if q: "q < 8 * length out" for q
    proof (cases "q div 8 = i")
      case same: True
      define r where "r = q mod 8"
      have qr: "q = i * 8 + r" "r < 8" using pos [of q] same by (simp_all add: r_def)
      have "bit_at (out[i := w]) q = bit w (7 - r)"
        using same i by (simp add: bit_at_update r_def)
      moreover have "bit_at out q = bit (out ! i) (7 - r)"
        using same by (simp add: bit_at_def r_def)
      moreover have "7 - r - (8 - b - n) = n - 1 - (r - b)" if "b \<le> r" "r < b + n"
        using that True by simp
      ultimately show ?thesis
        using wb [of "7 - r"] qr b n True by auto
    next
      case other: False
      then have "q < i * 8 + b \<or> i * 8 + b + n \<le> q"
        using True pos [of q] mod_less_divisor [of 8 q] by linarith
      then show ?thesis using other i ones' [of q] q by (auto simp: bit_at_update)
    qed
    then show ?thesis
      using wr by (simp add: i_def b_def n_def)
  next
    case False
    define h where "h = n - (8 - b)"
    have h: "1 \<le> h" "h \<le> 7" "n = 8 - b + h" using False b n by (auto simp: h_def)
    have i1: "i + 1 < length out" using fits False by linarith
    define w1 where "w1 = (out ! i OR PAD_RIGHT ! (8 - b)) AND (drop_bit h val OR PAD_LEFT ! b)"
    define w2 where "w2 = push_bit (8 - h) val OR PAD_RIGHT ! (8 - h)"
    have wr: "write_bits out pos val = Ok (out[i := w1, i + 1 := w2])"
      using b n i i1 dbg False
      by (simp add: write_bits_def Let_def assert_then_def w1_def w2_def h_def flip: i_def b_def n_def)
    have wb1: "bit w1 m \<longleftrightarrow> (if 8 - b \<le> m then bit (out ! i) m else bit val (h + m))" if "m < 8" for m
      using that b by (auto simp: w1_def pads bit_or_iff bit_and_iff bit_not_iff bit_mask_iff bit_drop_bit_eq)
    have wb2: "bit w2 m \<longleftrightarrow> (if 8 - h \<le> m then bit val (m - (8 - h)) else True)" if "m < 8" for m
      using that h by (auto simp: w2_def pads bit_or_iff bit_mask_iff bit_push_bit_iff)
    have "bit_at (out[i := w1, i + 1 := w2]) q \<longleftrightarrow>
        (if q < i * 8 + b then bit_at out q
         else if q < i * 8 + b + n then bit val (n - 1 - (q - (i * 8 + b))) else True)"
      if q: "q < 8 * length out" for q
    proof -
      define r where "r = q mod 8"
      have r: "r < 8" by (simp add: r_def)
      consider "q div 8 = i" | "q div 8 = i + 1" | "q div 8 \<noteq> i" "q div 8 \<noteq> i + 1" by blast
      then show ?thesis
      proof cases
        case 1
        then have qr: "q = i * 8 + r" using pos [of q] by (simp add: r_def)
        have "bit_at (out[i := w1, i + 1 := w2]) q = bit w1 (7 - r)"
          using 1 i i1 by (simp add: bit_at_update r_def)
        moreover have "bit_at out q = bit (out ! i) (7 - r)"
          using 1 by (simp add: bit_at_def r_def)
        moreover have "h + (7 - r) = n - 1 - (r - b)" if "b \<le> r"
          using that h b r by simp
        ultimately show ?thesis
          using wb1 [of "7 - r"] qr r b h by auto
      next
        case 2
        then have qr: "q = i * 8 + 8 + r" using pos [of q] by (simp add: r_def)
        have "bit_at (out[i := w1, i + 1 := w2]) q = bit w2 (7 - r)"
          using 2 i i1 by (simp add: bit_at_update r_def)
        moreover have "7 - r - (8 - h) = n - 1 - (8 + r - b)" if "r < h"
          using that h b by simp
        moreover have "q - (i * 8 + b) = 8 + r - b" using qr b by simp
        ultimately show ?thesis
          using wb2 [of "7 - r"] qr r b h by auto
      next
        case 3
        then have "q < i * 8 + b \<or> i * 8 + b + n \<le> q"
          using h(2,3) b pos [of q] mod_less_divisor [of 8 q] by linarith
        then show ?thesis using 3 i i1 ones' [of q] q by (auto simp: bit_at_update)
      qed
    qed
    then show ?thesis
      using wr by (simp add: i_def b_def n_def)
  qed
qed

text \<open>The same on bit strings.\<close>

lemma write_bits_bits:
  assumes "bw_bit pos < 8" and "0 < bw_count pos" and "bw_count pos \<le> 8"
    and "bits_of out = dn @ replicate k True" and "start_pos pos = length dn" and "bw_count pos \<le> k"
  shows "\<exists>out'. write_bits out pos val = Ok out' \<and> length out' = length out
    \<and> bits_of out' = (dn @ map (bit val) (rev [0..<bw_count pos])) @ replicate (k - bw_count pos) True"
proof -
  define n where "n = bw_count pos"
  have len: "8 * length out = length dn + k"
    using arg_cong [OF assms(4), of length] by simp
  have at: "bit_at out q = (dn @ replicate k True) ! q" if "q < 8 * length out" for q
    using nth_bits_of [OF that] assms(4) by simp
  have "bit_at out q" if "start_pos pos \<le> q" "q < 8 * length out" for q
    using at [OF that(2)] that len assms(5) by (simp add: nth_append)
  then obtain out' where out': "write_bits out pos val = Ok out'" "length out' = length out"
    "\<And>q. q < 8 * length out \<Longrightarrow> bit_at out' q \<longleftrightarrow>
          (if q < start_pos pos then bit_at out q
           else if q < end_pos pos then bit val (bw_count pos - 1 - (q - start_pos pos))
           else True)"
    using write_bits_spec [OF assms(1-3), of out val] len assms(5,6) by auto
  have "bits_of out' = (dn @ map (bit val) (rev [0..<n])) @ replicate (k - n) True"
  proof (rule nth_equalityI)
    show "length (bits_of out') = length ((dn @ map (bit val) (rev [0..<n])) @ replicate (k - n) True)"
      using out'(2) len assms(6) by (simp add: n_def)
  next
    fix q assume "q < length (bits_of out')"
    then have q: "q < 8 * length out" using out'(2) by simp
    then have "bits_of out' ! q = bit_at out' q" using nth_bits_of [of q out'] out'(2) by simp
    then show "bits_of out' ! q = ((dn @ map (bit val) (rev [0..<n])) @ replicate (k - n) True) ! q"
      using out'(3) [OF q] at [OF q] len assms(5,6) q
      by (auto simp: nth_append rev_nth n_def)
  qed
  then show ?thesis using out' by (simp add: n_def)
qed

lemma bits_of_append: "bits_of (bs @ cs) = bits_of bs @ bits_of cs"
proof (rule nth_equalityI)
  fix q assume "q < length (bits_of (bs @ cs))"
  then have q: "q < 8 * length (bs @ cs)" by simp
  show "bits_of (bs @ cs) ! q = (bits_of bs @ bits_of cs) ! q"
  proof (cases "q < 8 * length bs")
    case True
    then have "q div 8 < length bs" by (simp add: div_less_iff_less_mult mult.commute)
    then show ?thesis
      using True q by (simp add: nth_append nth_bits_of bit_at_def)
  next
    case False
    define p where "p = q - 8 * length bs"
    have e: "q = p + length bs * 8" using False by (simp add: p_def)
    have "q div 8 = length bs + p div 8" "q mod 8 = p mod 8" unfolding e by simp_all
    moreover have "p < 8 * length cs" using q False by (simp add: p_def)
    ultimately show ?thesis
      using False q by (simp add: nth_append nth_bits_of bit_at_def flip: p_def)
  qed
qed simp

lemma bits_of_ones: "bits_of (replicate j 255) = replicate (8 * j) True"
proof (rule nth_equalityI)
  fix q assume "q < length (bits_of (replicate j 255))"
  then have q: "q < 8 * j" by simp
  have ff: "(255 :: u8) = mask 8" by (simp add: mask_eq_exp_minus_1)
  have "q div 8 < j" using q by (simp add: div_less_iff_less_mult mult.commute)
  then show "bits_of (replicate j 255) ! q = replicate (8 * j) True ! q"
    using q by (simp add: nth_bits_of bit_at_def ff bit_mask_iff)
qed simp

section \<open>Encoding\<close>

text \<open>The encoder holds \<open>dn\<close> and fewer than eight ones behind it.\<close>

definition enc_inv :: "huffman_encoder \<Rightarrow> bool list \<Rightarrow> bool" where
  "enc_inv e dn \<longleftrightarrow> end_pos (buffer_pos e) = length dn
     \<and> (\<exists>k < 8. bits_of (buffer e) = dn @ replicate k True)"

lemma enc_inv_new: "enc_inv huffman_encoder_new []"
  by (simp add: enc_inv_def huffman_encoder_new_def bit_window_new_def bits_of_def)

lemma ensure_free_space_spec:
  assumes "enc_inv e dn" and "0 < n"
  shows "\<exists>k. n \<le> k \<and> k < n + 8 \<and> buffer_pos (ensure_free_space e n) = buffer_pos e
    \<and> bits_of (buffer (ensure_free_space e n)) = dn @ replicate k True"
proof -
  obtain j where j: "j < 8" "bits_of (buffer e) = dn @ replicate j True"
    and p: "end_pos (buffer_pos e) = length dn"
    using assms(1) by (auto simp: enc_inv_def)
  define w where "w = forwards (forwards (buffer_pos e) n) 0"
  have w: "bw_byte w * 8 + bw_bit w = length dn + n" "bw_bit w < 8"
    using p by (simp_all add: w_def)
  have len: "8 * length (buffer e) = length dn + j"
    using arg_cong [OF j(2), of length] by simp
  show ?thesis
  proof (cases "length (buffer e) > bw_byte w")
    case True
    then have "n \<le> j \<and> j < n + 8"
      using w len j(1) by linarith
    then show ?thesis
      using True j(2) by (auto simp: ensure_free_space_def Let_def simp flip: w_def)
  next
    case False
    define f where "f = bw_byte w - length (buffer e) + (if bw_bit w > 0 then 1 else 0)"
    have "8 * f + j \<ge> n \<and> 8 * f + j < n + 8"
      using w len False by (auto simp: f_def)
    moreover have "bits_of (buffer e @ replicate f 255) = dn @ replicate (j + 8 * f) True"
      by (simp add: bits_of_append bits_of_ones j(2) replicate_add)
    moreover have "ensure_free_space e n = e\<lparr>buffer := buffer e @ replicate f 255\<rparr>"
      using False by (simp add: ensure_free_space_def Let_def f_def flip: w_def)
    ultimately show ?thesis by (intro exI [of _ "j + 8 * f"]) simp
  qed
qed

text \<open>Every byte of a code holds at least one of its bits, and the last one the rest.\<close>

fun code_wf :: "bytes \<Rightarrow> nat \<Rightarrow> bool" where
  "code_wf [] rest = (rest = 0)"
| "code_wf (b # bs) rest = (rest > 0 \<and> code_wf bs (rest - min rest 8))"

lemma codes_wf: "list_all (\<lambda>ev. code_wf (ev_buffer ev) (ev_bit_count ev) \<and> ev_bit_count ev > 0) HPACK_STRING_codes"
  by code_simp

lemma codes_length: "length HPACK_STRING_codes = 256"
  by code_simp

lemma code_bits_loop_length: "code_wf bs rest \<Longrightarrow> length (code_bits_loop bs rest) = rest"
  by (induction bs rest rule: code_bits_loop.induct) (auto simp: Let_def)

lemma put_loop_spec:
  assumes "code_wf parts rest" and "rest \<le> k"
    and "bits_of (buffer e) = dn @ replicate k True" and "end_pos (buffer_pos e) = length dn"
  shows "\<exists>e'. put_loop e parts rest = Ok e'
    \<and> bits_of (buffer e') = (dn @ code_bits_loop parts rest) @ replicate (k - rest) True
    \<and> end_pos (buffer_pos e') = length (dn @ code_bits_loop parts rest)"
  using assms
proof (induction e parts rest arbitrary: dn k rule: put_loop.induct)
  case (1 e rest)
  then show ?case by simp
next
  case (2 e part parts rest)
  define n where "n = min rest 8"
  have n: "(if rest < 8 then rest else 8) = n" "0 < n" "n \<le> 8" "n \<le> rest"
    using 2(2) by (auto simp: n_def)
  define pos where "pos = forwards (buffer_pos e) n"
  have p: "start_pos pos = length dn" "bw_count pos = n" "bw_bit pos < 8"
    using 2(5) by (simp_all add: pos_def)
  have "bw_count pos \<le> k" using n(4) 2(3) p(2) by simp
  then obtain out where out: "write_bits (buffer e) pos part = Ok out"
    "bits_of out = (dn @ map (bit part) (rev [0..<n])) @ replicate (k - n) True"
    using write_bits_bits [OF p(3) _ _ 2(4) p(1), of part] n p(2) by auto
  define e1 where "e1 = e\<lparr>buffer_pos := pos, buffer := out\<rparr>"
  have "\<exists>e'. put_loop e1 parts (rest - n) = Ok e'
    \<and> bits_of (buffer e') = ((dn @ map (bit part) (rev [0..<n])) @ code_bits_loop parts (rest - n))
        @ replicate (k - n - (rest - n)) True
    \<and> end_pos (buffer_pos e') = length ((dn @ map (bit part) (rev [0..<n])) @ code_bits_loop parts (rest - n))"
  proof (unfold e1_def, rule 2(1))
    show "code_wf parts (rest - n)" using 2(2) by (simp add: n_def)
    show "rest - n \<le> k - n" using 2(3) by simp
    show "bits_of (buffer (e\<lparr>buffer_pos := pos, buffer := out\<rparr>))
      = (dn @ map (bit part) (rev [0..<n])) @ replicate (k - n) True" by (simp add: out(2))
    show "end_pos (buffer_pos (e\<lparr>buffer_pos := pos, buffer := out\<rparr>)) = length (dn @ map (bit part) (rev [0..<n]))"
      using p by simp
  qed (use n(1) out(1) p(2) in \<open>simp_all add: pos_def\<close>)
  moreover have "put_loop e (part # parts) rest = put_loop e1 parts (rest - n)"
    using n out(1) p(2) by (simp add: Let_def e1_def flip: pos_def)
  moreover have "k - n - (rest - n) = k - rest" using n(4) by simp
  ultimately show ?case by (simp add: Let_def flip: n_def)
qed

lemma put_spec:
  assumes "enc_inv e dn"
  shows "\<exists>e'. put e c = Ok e' \<and> enc_inv e' (dn @ code_of c)"
proof -
  define ev where "ev = HPACK_STRING_codes ! unat c"
  have "ev \<in> set HPACK_STRING_codes"
    using codes_length unat_u8_bound [of c] by (simp add: ev_def)
  then have wf: "code_wf (ev_buffer ev) (ev_bit_count ev)" "ev_bit_count ev > 0"
    using codes_wf by (simp_all add: list_all_iff)
  define e1 where "e1 = ensure_free_space e (ev_bit_count ev)"
  obtain k where k: "ev_bit_count ev \<le> k" "k < ev_bit_count ev + 8" "buffer_pos e1 = buffer_pos e"
    "bits_of (buffer e1) = dn @ replicate k True"
    using ensure_free_space_spec [OF assms wf(2)] by (auto simp: e1_def)
  have p: "end_pos (buffer_pos e1) = length dn" using assms k(3) by (simp add: enc_inv_def)
  obtain e' where e': "put_loop e1 (ev_buffer ev) (ev_bit_count ev) = Ok e'"
    "bits_of (buffer e') = (dn @ code_of c) @ replicate (k - ev_bit_count ev) True"
    "end_pos (buffer_pos e') = length (dn @ code_of c)"
    using put_loop_spec [OF wf(1) k(1,4) p] by (auto simp: code_of_def code_bits_def ev_def)
  have "k - ev_bit_count ev < 8" using k(2) wf(2) by linarith
  then have "enc_inv e' (dn @ code_of c)"
    using e'(2,3) unfolding enc_inv_def by blast
  moreover have "put e c = Ok e'"
    using e'(1) by (simp add: put_def Let_def e1_def ev_def)
  ultimately show ?thesis by blast
qed

lemma put_all_spec:
  "enc_inv e dn \<Longrightarrow> \<exists>e'. put_all e xs = Ok e' \<and> enc_inv e' (dn @ concat (map code_of xs))"
proof (induction xs arbitrary: e dn)
  case (Cons x xs)
  obtain e1 where "put e x = Ok e1" "enc_inv e1 (dn @ code_of x)"
    using put_spec [OF Cons.prems] by blast
  then show ?case using Cons.IH by fastforce
qed simp

lemma hpack_encode_spec:
  "\<exists>bs k. hpack_encode xs = Ok bs \<and> k < 8 \<and> bits_of bs = concat (map code_of xs) @ replicate k True"
  using put_all_spec [OF enc_inv_new, of xs] by (auto simp: hpack_encode_def ends_def enc_inv_def res_simps)



lemma codes_short: "list_all (\<lambda>ev. ev_bit_count ev \<le> 30) HPACK_STRING_codes"
  by code_simp

lemma code_of_length: "length (code_of c) \<le> 30"
proof -
  have "HPACK_STRING_codes ! unat c \<in> set HPACK_STRING_codes"
    using codes_length unat_u8_bound [of c] by simp
  then show ?thesis
    using codes_wf codes_short code_bits_loop_length by (simp add: list_all_iff code_of_def code_bits_def)
qed

lemma hpack_encode_length:
  assumes "hpack_encode xs = Ok bs"
  shows "length bs \<le> 4 * length xs"
proof -
  obtain k where k: "k < 8" "bits_of bs = concat (map code_of xs) @ replicate k True"
    using hpack_encode_spec [of xs] assms by auto
  have "length (concat (map code_of xs)) \<le> 30 * length xs"
  proof (induction xs)
    case (Cons x xs)
    then show ?case using code_of_length [of x] by simp
  qed simp
  moreover have "8 * length bs = length (concat (map code_of xs)) + k"
    using arg_cong [OF k(2), of length] by simp
  moreover have "length (concat (map code_of xs)) = 0" if "length xs = 0" using that by simp
  ultimately show ?thesis using k(1) by (cases "length xs = 0") arith+
qed

end
