(* ===== verification/FieldLines.thy ===== *)
theory FieldLines
  imports PrefixString
begin

text \<open>
  The encoded field section of QPACK, \<open>h3/src/qpack/block.rs\<close> and
  \<open>h3/src/qpack/parse_error.rs\<close>: the prefix with the required insert count and the base, and
  the five representations of a field line. An encoder returns the bytes it appends; a
  decoder returns its value and the bytes it leaves.
\<close>

section \<open>Errors and the kind of a line\<close>

datatype parse_error =
    PInteger int_error
  | PString string_error
  | InvalidPrefix u8
  | InvalidBase int

datatype header_block_field =
    HBIndexed
  | HBIndexedWithPostBase
  | HBLiteralWithNameRef
  | HBLiteralWithPostBaseNameRef
  | HBLiteral
  | HBUnknown

definition header_block_field_decode :: "u8 \<Rightarrow> header_block_field" where
  "header_block_field_decode first =
     (if first AND 0x80 \<noteq> 0 then HBIndexed
      else if first AND 0xF0 = 0x10 then HBIndexedWithPostBase
      else if first AND 0xC0 = 0x40 then HBLiteralWithNameRef
      else if first AND 0xF0 = 0 then HBLiteralWithPostBaseNameRef
      else if first AND 0xE0 = 0x20 then HBLiteral
      else HBUnknown)"

section \<open>The prefix of a section\<close>

record header_prefix =
  hp_encoded_insert_count :: nat
  hp_sign_negative :: bool
  hp_delta_base :: nat

definition header_prefix_new :: "nat \<Rightarrow> nat \<Rightarrow> nat \<Rightarrow> nat \<Rightarrow> ('e, header_prefix) result" where
  "header_prefix_new required base inserted max_table_size =
     (if max_table_size = 0 \<or> required = 0
      then Ok \<lparr>hp_encoded_insert_count = 0, hp_sign_negative = False, hp_delta_base = 0\<rparr>
      else
        assert_then (required \<le> inserted)
          (let (sign_negative, delta_base) =
                 (if required > base then (True, required - base - 1) else (False, base - required));
               max_entries = max_table_size div 32
           in
             assert_then (2 * max_entries \<noteq> 0)
               (Ok \<lparr>hp_encoded_insert_count = required mod (2 * max_entries) + 1,
                    hp_sign_negative = sign_negative, hp_delta_base = delta_base\<rparr>)))"

definition as_isize :: "nat \<Rightarrow> int" where
  "as_isize n = (if n < 2 ^ 63 then int n else int n - 2 ^ 64)"

definition isub :: "int \<Rightarrow> int \<Rightarrow> ('e, int) result" where
  "isub a b = (if - (2 ^ 63) \<le> a - b \<and> a - b < 2 ^ 63 then Ok (a - b) else Panic)"

definition required_insert_count :: "nat \<Rightarrow> nat \<Rightarrow> nat \<Rightarrow> ('e, nat) result" where
  "required_insert_count encoded inserted max_table_size =
     (if encoded = 0 then Ok 0
      else
        let insert_count = encoded - 1; max_entries = max_table_size div 32 in
        assert_then (2 * max_entries \<noteq> 0)
          (let wrapped = inserted mod (2 * max_entries) in
           and_then (uadd insert_count max_entries) (\<lambda>a.
           and_then (if wrapped \<ge> a
                     then and_then (uadd insert_count (2 * max_entries)) (\<lambda>i. Ok (i, wrapped))
                     else if wrapped + max_entries < insert_count
                     then Ok (insert_count, wrapped + 2 * max_entries)
                     else Ok (insert_count, wrapped)) (\<lambda>(i, w).
           and_then (uadd i inserted) (\<lambda>s. usub s w)))))"

definition header_prefix_get :: "header_prefix \<Rightarrow> nat \<Rightarrow> nat \<Rightarrow> (parse_error, nat \<times> nat) result" where
  "header_prefix_get hp inserted max_table_size =
     (if max_table_size = 0 then Ok (0, 0)
      else
        and_then (required_insert_count (hp_encoded_insert_count hp) inserted max_table_size) (\<lambda>required.
        and_then
          (if required = 0 then Ok 0
           else if \<not> hp_sign_negative hp then uadd required (hp_delta_base hp)
           else
             and_then (uadd (hp_delta_base hp) 1) (\<lambda>d.
               if d > required
               then and_then (isub (as_isize required) (as_isize (hp_delta_base hp))) (\<lambda>x.
                    and_then (isub x 1) (\<lambda>b. Err (InvalidBase b)))
               else and_then (usub required (hp_delta_base hp)) (\<lambda>r. usub r 1)))
          (\<lambda>base. Ok (required, base))))"

definition header_prefix_decode :: "bytes \<Rightarrow> (parse_error, header_prefix \<times> bytes) result" where
  "header_prefix_decode buf =
     and_then (map_err PInteger (prefix_int_decode 8 buf)) (\<lambda>((_, encoded_insert_count), buf1).
     and_then (map_err PInteger (prefix_int_decode 7 buf1)) (\<lambda>((sign_negative, delta_base), buf2).
       if encoded_insert_count > usize_max then Err (PInteger Overflow)
       else if delta_base > usize_max then Err (PInteger Overflow)
       else Ok (\<lparr>hp_encoded_insert_count = encoded_insert_count,
                 hp_sign_negative = (sign_negative = 1), hp_delta_base = delta_base\<rparr>, buf2)))"

definition header_prefix_encode :: "header_prefix \<Rightarrow> ('e, bytes) result" where
  "header_prefix_encode hp =
     (let sign_bit = (if hp_sign_negative hp then 1 else 0) in
      and_then (unwrap (prefix_int_encode 8 0 (hp_encoded_insert_count hp))) (\<lambda>b1.
      and_then (unwrap (prefix_int_encode 7 sign_bit (hp_delta_base hp))) (\<lambda>b2.
        Ok (b1 @ b2))))"

section \<open>Field lines\<close>

text \<open>The check that a decoded integer fits \<open>usize\<close>, repeated in every decoder.\<close>

definition checked_usize :: "nat \<Rightarrow> (parse_error, nat) result" where
  "checked_usize i = (if i > usize_max then Err (PInteger Overflow) else Ok i)"

datatype indexed = IndexedStatic nat | IndexedDynamic nat

definition indexed_decode :: "bytes \<Rightarrow> (parse_error, indexed \<times> bytes) result" where
  "indexed_decode buf =
     and_then (map_err PInteger (prefix_int_decode 6 buf)) (\<lambda>((f, i), buf1).
       if f = 3 then and_then (checked_usize i) (\<lambda>i. Ok (IndexedStatic i, buf1))
       else if f = 2 then and_then (checked_usize i) (\<lambda>i. Ok (IndexedDynamic i, buf1))
       else Err (InvalidPrefix f))"

fun indexed_encode :: "indexed \<Rightarrow> ('e, bytes) result" where
  "indexed_encode (IndexedStatic i) = unwrap (prefix_int_encode 6 3 i)"
| "indexed_encode (IndexedDynamic i) = unwrap (prefix_int_encode 6 2 i)"

definition indexed_post_base_decode :: "bytes \<Rightarrow> (parse_error, nat \<times> bytes) result" where
  "indexed_post_base_decode buf =
     and_then (map_err PInteger (prefix_int_decode 4 buf)) (\<lambda>((f, i), buf1).
       if f = 1 then and_then (checked_usize i) (\<lambda>i. Ok (i, buf1))
       else Err (InvalidPrefix f))"

definition indexed_post_base_encode :: "nat \<Rightarrow> ('e, bytes) result" where
  "indexed_post_base_encode i = unwrap (prefix_int_encode 4 1 i)"

datatype literal_name_ref = LitStatic nat bytes | LitDynamic nat bytes

definition literal_name_ref_decode :: "bytes \<Rightarrow> (parse_error, literal_name_ref \<times> bytes) result" where
  "literal_name_ref_decode buf =
     and_then (map_err PInteger (prefix_int_decode 4 buf)) (\<lambda>((f, i), buf1).
       if f AND 5 = 5
       then and_then (checked_usize i) (\<lambda>i.
            and_then (map_err PString (prefix_string_decode 8 buf1)) (\<lambda>(v, buf2).
              Ok (LitStatic i v, buf2)))
       else if f AND 5 = 4
       then and_then (checked_usize i) (\<lambda>i.
            and_then (map_err PString (prefix_string_decode 8 buf1)) (\<lambda>(v, buf2).
              Ok (LitDynamic i v, buf2)))
       else Err (InvalidPrefix f))"

fun literal_name_ref_encode :: "literal_name_ref \<Rightarrow> (string_error, bytes) result" where
  "literal_name_ref_encode (LitStatic index val) =
     and_then (unwrap (prefix_int_encode 4 5 index)) (\<lambda>b1.
     and_then (prefix_string_encode 8 0 val) (\<lambda>b2. Ok (b1 @ b2)))"
| "literal_name_ref_encode (LitDynamic index val) =
     and_then (unwrap (prefix_int_encode 4 4 index)) (\<lambda>b1.
     and_then (prefix_string_encode 8 0 val) (\<lambda>b2. Ok (b1 @ b2)))"

record literal_post_base =
  lpb_index :: nat
  lpb_value :: bytes

definition literal_post_base_decode :: "bytes \<Rightarrow> (parse_error, literal_post_base \<times> bytes) result" where
  "literal_post_base_decode buf =
     and_then (map_err PInteger (prefix_int_decode 3 buf)) (\<lambda>((f, i), buf1).
       if f AND 0xF0 = 0
       then and_then (checked_usize i) (\<lambda>i.
            and_then (map_err PString (prefix_string_decode 8 buf1)) (\<lambda>(v, buf2).
              Ok (\<lparr>lpb_index = i, lpb_value = v\<rparr>, buf2)))
       else Err (InvalidPrefix f))"

definition literal_post_base_encode :: "literal_post_base \<Rightarrow> (string_error, bytes) result" where
  "literal_post_base_encode l =
     and_then (unwrap (prefix_int_encode 3 0 (lpb_index l))) (\<lambda>b1.
     and_then (prefix_string_encode 8 0 (lpb_value l)) (\<lambda>b2. Ok (b1 @ b2)))"

record literal =
  lit_name :: bytes
  lit_value :: bytes

definition literal_decode :: "bytes \<Rightarrow> (parse_error, literal \<times> bytes) result" where
  "literal_decode buf =
     (case buf of
        [] \<Rightarrow> Err (PInteger IntUnexpectedEnd)
      | b # _ \<Rightarrow>
          if b AND 0xE0 \<noteq> 0x20 then Err (InvalidPrefix b)
          else
            and_then (map_err PString (prefix_string_decode 4 buf)) (\<lambda>(n, buf1).
            and_then (map_err PString (prefix_string_decode 8 buf1)) (\<lambda>(v, buf2).
              Ok (\<lparr>lit_name = n, lit_value = v\<rparr>, buf2))))"

definition literal_encode :: "literal \<Rightarrow> (string_error, bytes) result" where
  "literal_encode l =
     and_then (prefix_string_encode 4 2 (lit_name l)) (\<lambda>b1.
     and_then (prefix_string_encode 8 0 (lit_value l)) (\<lambda>b2. Ok (b1 @ b2)))"

section \<open>First bytes\<close>

text \<open>An index as the encoder writes it; far above any number of insertions.\<close>

definition index_ok :: "nat \<Rightarrow> bool" where
  "index_ok i \<longleftrightarrow> i < 2 ^ 62"

lemma index_ok_usize: "index_ok i \<Longrightarrow> i \<le> usize_max"
  by (simp add: index_ok_def usize_max_def)

lemma checked_usize_ok [simp]: "index_ok i \<Longrightarrow> checked_usize i = Ok i"
  by (simp add: checked_usize_def index_ok_usize not_less)

definition int_bytes :: "nat \<Rightarrow> u8 \<Rightarrow> nat \<Rightarrow> bytes" where
  "int_bytes sz flags v = (case prefix_int_encode sz flags v of Ok bs \<Rightarrow> bs | _ \<Rightarrow> [])"

definition first_is :: "nat \<Rightarrow> u8 \<Rightarrow> bytes \<Rightarrow> bool" where
  "first_is sz flags bs \<longleftrightarrow> bs \<noteq> [] \<and> drop_bit sz (hd bs) = flags"

lemma int_bytes_simps:
  assumes "prefix_int_ok sz flags v"
  shows "prefix_int_encode sz flags v = Ok (int_bytes sz flags v)"
    and "prefix_int_decode sz (int_bytes sz flags v @ rest) = Ok ((flags, v), rest)"
    and "first_is sz flags (int_bytes sz flags v)"
proof -
  obtain bs where bs: "prefix_int_encode sz flags v = Ok bs" "bs \<noteq> []"
    using prefix_int_dec_enc [OF assms] by blast
  then show enc: "prefix_int_encode sz flags v = Ok (int_bytes sz flags v)"
    by (simp add: int_bytes_def)
  have dec: "prefix_int_decode sz (int_bytes sz flags v @ r) = Ok ((flags, v), r)" for r
    using prefix_int_dec_enc [OF assms, of r] bs by (auto simp: int_bytes_def)
  then show "prefix_int_decode sz (int_bytes sz flags v @ rest) = Ok ((flags, v), rest)" .
  obtain b tl where b: "int_bytes sz flags v = b # tl" using bs by (cases bs) (auto simp: int_bytes_def)
  have "1 \<le> sz" "sz \<le> 8" using assms by (auto simp: prefix_int_ok_def)
  from prefix_int_decode_unfold [OF this, of b tl] dec [of "[]"] b
  have "drop_bit sz b = flags" by (auto simp: res_simps split: if_splits)
  then show "first_is sz flags (int_bytes sz flags v)" by (simp add: first_is_def b)
qed

lemma and_push_bit: "b AND push_bit n k = push_bit n (drop_bit n b AND k)" for b :: "'a::len word"
  by (rule bit_eqI) (auto simp: bit_simps)

lemma string_bytes_first:
  assumes "string_prefix_ok sz flags" and "string_ok s"
  shows "first_is (sz - 1) (push_bit 1 flags OR 1) (string_bytes sz flags s)"
proof -
  have sz: "2 \<le> sz" "sz \<le> 8" and fl: "unat flags < 2 ^ (8 - sz)"
    using assms(1) by (auto simp: string_prefix_ok_def)
  obtain bs enc where enc: "hpack_encode s = Ok enc"
    and bs: "prefix_int_encode (sz - 1) (push_bit 1 flags OR 1) (length enc) = Ok bs"
      "string_bytes sz flags s = bs @ enc"
    using string_bytes_simps(1) [OF assms] sz by (auto simp: prefix_string_encode_def res_simps)
  have "(2 :: nat) ^ (8 - sz) \<le> 2 ^ 6" using sz by (intro power_increasing) simp_all
  then have fb: "unat (push_bit 1 flags OR 1 :: u8) = 2 * unat flags + 1"
    using fl flag_bit [of flags] by simp
  have "(2 :: nat) ^ (8 - (sz - 1)) = 2 * 2 ^ (8 - sz)"
    using sz by (simp flip: power_Suc add: Suc_diff_le)
  moreover have "length enc < 2 ^ 28"
    using hpack_encode_length [OF enc] assms(2) by (simp add: string_ok_def)
  ultimately have "prefix_int_ok (sz - 1) (push_bit 1 flags OR 1) (length enc)"
    using sz fl fb by (auto simp: prefix_int_ok_def)
  from int_bytes_simps(1,3) [OF this] bs show ?thesis by (auto simp: first_is_def)
qed

text \<open>The kind of a line follows from the flags in its first byte.\<close>

lemma first_kind:
  "drop_bit 6 b = (3 :: u8) \<Longrightarrow> header_block_field_decode b = HBIndexed"
  "drop_bit 6 b = (2 :: u8) \<Longrightarrow> header_block_field_decode b = HBIndexed"
  "drop_bit 4 b = (1 :: u8) \<Longrightarrow> header_block_field_decode b = HBIndexedWithPostBase"
  "drop_bit 4 b = (5 :: u8) \<Longrightarrow> header_block_field_decode b = HBLiteralWithNameRef"
  "drop_bit 4 b = (4 :: u8) \<Longrightarrow> header_block_field_decode b = HBLiteralWithNameRef"
  "drop_bit 3 b = (0 :: u8) \<Longrightarrow> header_block_field_decode b = HBLiteralWithPostBaseNameRef"
  "drop_bit 3 b = (5 :: u8) \<Longrightarrow> header_block_field_decode b = HBLiteral"
  "drop_bit 3 b = (5 :: u8) \<Longrightarrow> b AND 0xE0 = 0x20"
proof -
  have m: "0x80 = (push_bit 6 2 :: u8)" "0x80 = (push_bit 4 8 :: u8)" "0xF0 = (push_bit 4 15 :: u8)"
    "0xC0 = (push_bit 4 12 :: u8)" "0x80 = (push_bit 3 16 :: u8)" "0xF0 = (push_bit 3 30 :: u8)"
    "0xC0 = (push_bit 3 24 :: u8)" "0xE0 = (push_bit 3 28 :: u8)" "0xE0 = (push_bit 4 14 :: u8)" by simp_all
  note a6 = and_push_bit [of b 6] and a4 = and_push_bit [of b 4] and a3 = and_push_bit [of b 3]
  show "drop_bit 6 b = (3 :: u8) \<Longrightarrow> header_block_field_decode b = HBIndexed"
    using a6 [of 2] by (simp add: header_block_field_decode_def)
  show "drop_bit 6 b = (2 :: u8) \<Longrightarrow> header_block_field_decode b = HBIndexed"
    using a6 [of 2] by (simp add: header_block_field_decode_def)
  show "drop_bit 4 b = (1 :: u8) \<Longrightarrow> header_block_field_decode b = HBIndexedWithPostBase"
    using a4 [of 8] a4 [of 15] by (simp add: header_block_field_decode_def)
  show "drop_bit 4 b = (5 :: u8) \<Longrightarrow> header_block_field_decode b = HBLiteralWithNameRef"
    using a4 [of 8] a4 [of 15] a4 [of 12] by (simp add: header_block_field_decode_def)
  show "drop_bit 4 b = (4 :: u8) \<Longrightarrow> header_block_field_decode b = HBLiteralWithNameRef"
    using a4 [of 8] a4 [of 15] a4 [of 12] by (simp add: header_block_field_decode_def)
  show "drop_bit 3 b = (0 :: u8) \<Longrightarrow> header_block_field_decode b = HBLiteralWithPostBaseNameRef"
    using a3 [of 16] a3 [of 30] a3 [of 24] by (simp add: header_block_field_decode_def)
  show "drop_bit 3 b = (5 :: u8) \<Longrightarrow> header_block_field_decode b = HBLiteral"
    using a3 [of 16] a3 [of 30] a3 [of 24] a3 [of 28] by (simp add: header_block_field_decode_def)
  show "drop_bit 3 b = (5 :: u8) \<Longrightarrow> b AND 0xE0 = 0x20"
    using a3 [of 28] by simp
qed

section \<open>Round trips\<close>

named_theorems line_simps \<open>round trips of field lines and instructions\<close>

lemma line_prefix_ok:
  "index_ok i \<Longrightarrow> prefix_int_ok 6 3 i" "index_ok i \<Longrightarrow> prefix_int_ok 6 2 i"
  "index_ok i \<Longrightarrow> prefix_int_ok 4 1 i" "index_ok i \<Longrightarrow> prefix_int_ok 4 5 i"
  "index_ok i \<Longrightarrow> prefix_int_ok 4 4 i" "index_ok i \<Longrightarrow> prefix_int_ok 3 0 i"
  "index_ok i \<Longrightarrow> prefix_int_ok 8 0 i" "index_ok i \<Longrightarrow> prefix_int_ok 7 0 i"
  "index_ok i \<Longrightarrow> prefix_int_ok 7 1 i" "index_ok i \<Longrightarrow> prefix_int_ok 5 0 i"
  "index_ok i \<Longrightarrow> prefix_int_ok 5 1 i" "index_ok i \<Longrightarrow> prefix_int_ok 6 0 i"
  "index_ok i \<Longrightarrow> prefix_int_ok 6 1 i"
  by (simp_all add: prefix_int_ok_def index_ok_def)

lemma line_string_ok [simp]:
  "string_prefix_ok 8 0" "string_prefix_ok 4 2" "string_prefix_ok 6 1"
  by (simp_all add: string_prefix_ok_def)

fun indexed_ok :: "indexed \<Rightarrow> bool" where
  "indexed_ok (IndexedStatic i) = index_ok i"
| "indexed_ok (IndexedDynamic i) = index_ok i"

fun literal_name_ref_ok :: "literal_name_ref \<Rightarrow> bool" where
  "literal_name_ref_ok (LitStatic i v) \<longleftrightarrow> index_ok i \<and> string_ok v"
| "literal_name_ref_ok (LitDynamic i v) \<longleftrightarrow> index_ok i \<and> string_ok v"

definition line_start :: "header_block_field \<Rightarrow> bytes \<Rightarrow> bool" where
  "line_start k bs \<longleftrightarrow> bs \<noteq> [] \<and> header_block_field_decode (hd bs) = k"

lemma line_start_append: "line_start k bs \<Longrightarrow> line_start k (bs @ cs)"
  by (simp add: line_start_def)

lemma indexed_dec_enc:
  assumes "indexed_ok x"
  shows "\<exists>bs. indexed_encode x = Ok bs \<and> line_start HBIndexed bs \<and>
    (\<forall>rest. indexed_decode (bs @ rest) = Ok (x, rest))"
proof (cases x)
  case (IndexedStatic i)
  then have i: "index_ok i" using assms by simp
  note b = int_bytes_simps [OF line_prefix_ok(1) [OF i]]
  show ?thesis using IndexedStatic b i
    by (auto simp: indexed_decode_def line_start_def first_is_def intro: first_kind)
next
  case (IndexedDynamic i)
  then have i: "index_ok i" using assms by simp
  note b = int_bytes_simps [OF line_prefix_ok(2) [OF i]]
  show ?thesis using IndexedDynamic b i
    by (auto simp: indexed_decode_def line_start_def first_is_def intro: first_kind)
qed

lemma indexed_post_base_dec_enc:
  assumes i: "index_ok i"
  shows "\<exists>bs. indexed_post_base_encode i = Ok bs \<and> line_start HBIndexedWithPostBase bs \<and>
    (\<forall>rest. indexed_post_base_decode (bs @ rest) = Ok (i, rest))"
  using int_bytes_simps [OF line_prefix_ok(3) [OF i]] i
  by (auto simp: indexed_post_base_decode_def indexed_post_base_encode_def line_start_def first_is_def
      intro: first_kind)

lemma literal_name_ref_dec_enc:
  assumes "literal_name_ref_ok x"
  shows "\<exists>bs. literal_name_ref_encode x = Ok bs \<and> line_start HBLiteralWithNameRef bs \<and>
    (\<forall>rest. literal_name_ref_decode (bs @ rest) = Ok (x, rest))"
proof (cases x)
  case (LitStatic i v)
  then have i: "index_ok i" and v: "string_ok v" using assms by simp_all
  note b = int_bytes_simps [OF line_prefix_ok(4) [OF i]] string_bytes_simps [OF line_string_ok(1) v]
  show ?thesis using LitStatic b i
    by (auto simp: literal_name_ref_decode_def line_start_def first_is_def intro: first_kind)
next
  case (LitDynamic i v)
  then have i: "index_ok i" and v: "string_ok v" using assms by simp_all
  note b = int_bytes_simps [OF line_prefix_ok(5) [OF i]] string_bytes_simps [OF line_string_ok(1) v]
  show ?thesis using LitDynamic b i
    by (auto simp: literal_name_ref_decode_def line_start_def first_is_def intro: first_kind)
qed

lemma literal_post_base_dec_enc:
  assumes i: "index_ok (lpb_index l)" and v: "string_ok (lpb_value l)"
  shows "\<exists>bs. literal_post_base_encode l = Ok bs \<and> line_start HBLiteralWithPostBaseNameRef bs \<and>
    (\<forall>rest. literal_post_base_decode (bs @ rest) = Ok (l, rest))"
  using int_bytes_simps [OF line_prefix_ok(6) [OF i]] string_bytes_simps [OF line_string_ok(1) v] i
  by (auto simp: literal_post_base_decode_def literal_post_base_encode_def line_start_def first_is_def
      intro: first_kind)

lemma literal_dec_enc:
  assumes n: "string_ok (lit_name l)" and v: "string_ok (lit_value l)"
  shows "\<exists>bs. literal_encode l = Ok bs \<and> line_start HBLiteral bs \<and>
    (\<forall>rest. literal_decode (bs @ rest) = Ok (l, rest))"
proof -
  note b = string_bytes_simps [OF line_string_ok(2) n] string_bytes_simps [OF line_string_ok(1) v]
  have "push_bit 1 2 OR 1 = (5 :: u8)" by simp
  with string_bytes_first [OF line_string_ok(2) n]
  have f: "first_is 3 5 (string_bytes 4 2 (lit_name l))" by simp
  obtain c cs where c: "string_bytes 4 2 (lit_name l) = c # cs"
    using b(3) by (cases "string_bytes 4 2 (lit_name l)") auto
  then have "drop_bit 3 c = 5" using f by (simp add: first_is_def)
  note c5 = first_kind(7,8) [OF this]
  have "literal_decode ((string_bytes 4 2 (lit_name l) @ string_bytes 8 0 (lit_value l)) @ rest) = Ok (l, rest)" for rest
    using b(2) [of "string_bytes 8 0 (lit_value l) @ rest"] b(5) [of rest] c c5(2)
    by (simp add: literal_decode_def)
  then show ?thesis using b c c5(1) by (auto simp: literal_encode_def line_start_def)
qed

section \<open>The required insert count\<close>

text \<open>The algorithm of RFC 9204, section 4.5.1.1, as the specification; \<open>None\<close> is its error.\<close>

definition rfc_required_insert_count :: "nat \<Rightarrow> nat \<Rightarrow> nat \<Rightarrow> nat option" where
  "rfc_required_insert_count encoded inserted max_entries =
     (let full_range = 2 * max_entries in
      if encoded = 0 then Some 0
      else if encoded > full_range then None
      else
        let max_value = inserted + max_entries;
            max_wrapped = max_value div full_range * full_range;
            req = max_wrapped + encoded - 1
        in
          if req > max_value
          then if req \<le> full_range then None
               else if req - full_range = 0 then None else Some (req - full_range)
          else if req = 0 then None else Some req)"

lemma required_insert_count_arith:
  fixes A B F m ic w t :: nat
  assumes "F = 2 * m" and "ic < F" and "w < F" and "t = B + w" and "t < 2 ^ 62" and "m \<le> 2 ^ 30"
    and "A + ic \<le> t + m" and "t < A + ic + m" and "A = B \<or> A = B + F \<or> B = A + F"
  shows "and_then (uadd ic m) (\<lambda>a.
      and_then (if w \<ge> a then and_then (uadd ic F) (\<lambda>i. Ok (i, w))
                else if w + m < ic then Ok (ic, w + F) else Ok (ic, w)) (\<lambda>(i, w).
      and_then (uadd i t) (\<lambda>s. usub s w))) = (Ok (A + ic) :: ('e, nat) result)"
proof -
  have "usize_max = 18446744073709551615" by (simp add: usize_max_def)
  then show ?thesis using assms(1-8) assms(9) by (elim disjE) (auto simp: uadd_def usub_def)
qed

lemma required_insert_count_window:
  assumes "32 \<le> max_table_size" and "max_table_size \<le> 2 ^ 30" and "inserted < 2 ^ 62"
    and "r \<le> inserted + max_table_size div 32" and "inserted < r + max_table_size div 32"
  shows "required_insert_count (r mod (2 * (max_table_size div 32)) + 1) inserted max_table_size
    = (Ok r :: ('e, nat) result)"
proof -
  define m where "m = max_table_size div 32"
  define F where "F = 2 * m"
  have m: "0 < m" "m \<le> 2 ^ 30" using assms(1,2) by (auto simp: m_def div_le_dividend intro: order.trans)
  define ic where "ic = r mod F"
  define w where "w = inserted mod F"
  define A where "A = r div F * F"
  define B where "B = inserted div F * F"
  have F: "0 < F" using m by (simp add: F_def)
  have r: "r = A + ic" and t: "inserted = B + w" and icF: "ic < F" and wF: "w < F"
    using F by (simp_all add: A_def B_def ic_def w_def)
  have win: "r \<le> inserted + m" "inserted < r + m" using assms(4,5) by (simp_all add: m_def)
  have mono: "Suc a * F \<le> b * F" if "a < b" for a b :: nat
    using that by (intro mult_right_mono) simp_all
  consider (same) "A = B" | (above) "A = B + F" | (below) "B = A + F"
  proof -
    consider "r div F = inserted div F" | "inserted div F < r div F" | "r div F < inserted div F" by linarith
    then show ?thesis
    proof cases
      case 2
      have "r div F = Suc (inserted div F)"
      proof (rule ccontr)
        assume "r div F \<noteq> Suc (inserted div F)"
        with 2 have "Suc (Suc (inserted div F)) * F \<le> A" unfolding A_def by (intro mult_right_mono) simp_all
        then have "B + F + F \<le> A" by (simp add: B_def)
        with r t wF win F_def show False by linarith
      qed
      then show ?thesis using that(2) by (simp add: A_def B_def)
    next
      case 3
      have "inserted div F = Suc (r div F)"
      proof (rule ccontr)
        assume "inserted div F \<noteq> Suc (r div F)"
        with 3 have "Suc (Suc (r div F)) * F \<le> B" unfolding B_def by (intro mult_right_mono) simp_all
        then have "A + F + F \<le> B" by (simp add: A_def)
        with r t icF win F_def show False by linarith
      qed
      then show ?thesis using that(3) by (simp add: A_def B_def)
    qed (use that(1) in \<open>simp add: A_def B_def\<close>)
  qed
  then have AB: "A = B \<or> A = B + F \<or> B = A + F" by cases auto
  have "required_insert_count (ic + 1) inserted max_table_size = (Ok (A + ic) :: ('e, nat) result)"
    using required_insert_count_arith [OF F_def icF wF t assms(3) m(2) _ _ AB] win r F
    unfolding required_insert_count_def m_def [symmetric] Let_def F_def [symmetric] w_def [symmetric] diff_add_inverse2
    by (simp add: assert_then_def)
  then have "required_insert_count (ic + 1) inserted max_table_size = (Ok r :: ('e, nat) result)"
    by (simp only: r [symmetric])
  then show ?thesis by (simp only: m_def [symmetric] F_def [symmetric] ic_def [symmetric])
qed

lemma rfc_required_window:
  assumes "rfc_required_insert_count encoded inserted m = Some r" and "encoded \<noteq> 0"
  shows "0 < r" and "r \<le> inserted + m" and "inserted < r + m" and "encoded = r mod (2 * m) + 1"
proof -
  define F where "F = 2 * m"
  define W where "W = (inserted + m) div F * F"
  have F: "0 < F" "encoded \<le> F" using assms by (auto simp: rfc_required_insert_count_def F_def Let_def split: if_splits)
  define rem where "rem = (inserted + m) mod F"
  have split: "inserted + m = W + rem" and lt: "rem < F"
    using F by (simp_all add: W_def rem_def)
  have cases: "r = W + encoded - 1 \<and> r \<le> inserted + m \<or>
      r = W + encoded - 1 - F \<and> inserted + m < W + encoded - 1 \<and> F < W + encoded - 1"
    and pos: "0 < r"
    using assms F by (auto simp: rfc_required_insert_count_def F_def [symmetric] W_def [symmetric] Let_def split: if_splits)
  show "0 < r" by (rule pos)
  show "r \<le> inserted + m" and "inserted < r + m"
    using cases split lt F assms(2) by (auto simp: F_def)
  have WF: "F \<le> W" if "F < W + encoded - 1"
  proof (rule ccontr)
    assume "\<not> F \<le> W"
    then have "W = 0" by (simp add: W_def not_le)
    with that F show False by simp
  qed
  have "r mod F = (encoded - 1) mod F"
    using cases
  proof
    assume "r = W + encoded - 1 \<and> r \<le> inserted + m"
    then have "r = (encoded - 1) + (inserted + m) div F * F" using assms(2) by (simp add: W_def)
    then show ?thesis by simp
  next
    assume *: "r = W + encoded - 1 - F \<and> inserted + m < W + encoded - 1 \<and> F < W + encoded - 1"
    then have "r + F = (encoded - 1) + W" using assms(2) by auto
    then have "r + F = (encoded - 1) + (inserted + m) div F * F" by (simp only: W_def)
    then have "(r + F) mod F = (encoded - 1) mod F" by simp
    then show ?thesis by simp
  qed
  then show "encoded = r mod (2 * m) + 1" using F assms(2) by (simp add: F_def)
qed

text \<open>
  C33: the code computes the required insert count that RFC 9204 prescribes, wherever the
  algorithm of the RFC gives one, for every table that can hold an entry.
\<close>
theorem required_insert_count_rfc:
  assumes "32 \<le> max_table_size" and "max_table_size \<le> 2 ^ 30" and "inserted < 2 ^ 62"
    and "rfc_required_insert_count encoded inserted (max_table_size div 32) = Some r"
  shows "required_insert_count encoded inserted max_table_size = Ok r"
proof (cases "encoded = 0")
  case True
  then show ?thesis
    using assms(4) by (simp add: rfc_required_insert_count_def required_insert_count_def)
next
  case False
  note w = rfc_required_window [OF assms(4) False]
  show ?thesis using required_insert_count_window [OF assms(1-3) w(2,3)] w(4) by simp
qed

theorem required_insert_count_rfc_witness:
  "required_insert_count 4 10 100 = Ok 9"
  by (rule required_insert_count_rfc) (simp_all add: rfc_required_insert_count_def)

text \<open>
  A prefix the algorithm of the RFC rejects is not rejected by the code: it panics on a
  count the decoder cannot have reached, and on every count for a table of less than 32 bytes.
\<close>
theorem malformed_prefix_panics:
  assumes "n \<noteq> 0" and "max_table_size \<noteq> 0" and "max_table_size < 32"
  shows "header_prefix_get \<lparr>hp_encoded_insert_count = n, hp_sign_negative = s, hp_delta_base = d\<rparr>
      inserted max_table_size = Panic \<and>
    header_prefix_get \<lparr>hp_encoded_insert_count = 5, hp_sign_negative = False, hp_delta_base = 0\<rparr> 0 100 = Panic \<and>
    rfc_required_insert_count 5 0 (100 div 32) = None"
proof (intro conjI)
  show "header_prefix_get \<lparr>hp_encoded_insert_count = n, hp_sign_negative = s, hp_delta_base = d\<rparr>
      inserted max_table_size = Panic"
    using assms by (simp add: header_prefix_get_def required_insert_count_def assert_then_def)
  show "header_prefix_get \<lparr>hp_encoded_insert_count = 5, hp_sign_negative = False, hp_delta_base = 0\<rparr> 0 100 = Panic"
    by (simp add: header_prefix_get_def required_insert_count_def assert_then_def uadd_def usub_def usize_max_def)
  show "rfc_required_insert_count 5 0 (100 div 32) = None"
    by (simp add: rfc_required_insert_count_def)
qed

theorem malformed_prefix_panics_witness:
  "header_prefix_get \<lparr>hp_encoded_insert_count = 1, hp_sign_negative = False, hp_delta_base = 0\<rparr> 0 31 = Panic"
  using malformed_prefix_panics [of 1 31 False 0 0] by simp

lemma header_prefix_get_new:
  assumes "32 \<le> max_table_size" and "max_table_size \<le> 2 ^ 30" and "inserted < 2 ^ 62"
    and "0 < required" and "required \<le> inserted" and "inserted < required + max_table_size div 32"
    and "base \<le> inserted"
  shows "\<exists>hp. (header_prefix_new required base inserted max_table_size :: ('e, header_prefix) result) = Ok hp \<and>
    header_prefix_get hp inserted max_table_size = Ok (required, base) \<and>
    index_ok (hp_encoded_insert_count hp) \<and> index_ok (hp_delta_base hp)"
proof -
  let ?F = "2 * (max_table_size div 32)"
  have F: "?F \<noteq> 0" "?F < 2 ^ 31" using assms(1,2) by auto
  have rq: "required_insert_count (required mod ?F + 1) inserted max_table_size = (Ok required :: (parse_error, nat) result)"
    using required_insert_count_window [OF assms(1-3) _ assms(6)] assms(5) by simp
  have "required mod ?F < ?F" using F by (intro mod_less_divisor) simp
  from order.strict_trans [OF this F(2)] have "required mod ?F < 2 ^ 31" .
  moreover have "usize_max = 18446744073709551615" by (simp add: usize_max_def)
  ultimately show ?thesis
    using assms F rq
    by (auto simp: header_prefix_new_def header_prefix_get_def assert_then_def Let_def index_ok_def
        simp del: One_nat_def)
qed

lemma header_prefix_get_zero:
  "(header_prefix_new 0 base inserted max_table_size :: ('e, header_prefix) result) =
     Ok \<lparr>hp_encoded_insert_count = 0, hp_sign_negative = False, hp_delta_base = 0\<rparr>"
  "header_prefix_get \<lparr>hp_encoded_insert_count = 0, hp_sign_negative = False, hp_delta_base = 0\<rparr> inserted m = Ok (0, 0)"
  by (simp_all add: header_prefix_new_def header_prefix_get_def required_insert_count_def)

lemma header_prefix_dec_enc:
  assumes "index_ok (hp_encoded_insert_count hp)" and "index_ok (hp_delta_base hp)"
  shows "\<exists>bs. (header_prefix_encode hp :: ('e, bytes) result) = Ok bs \<and>
    (\<forall>rest. header_prefix_decode (bs @ rest) = Ok (hp, rest))"
proof -
  let ?s = "if hp_sign_negative hp then 1 else 0 :: u8"
  note a = int_bytes_simps [OF line_prefix_ok(7) [OF assms(1)]]
  have "prefix_int_ok 7 ?s (hp_delta_base hp)" using line_prefix_ok(8,9) [OF assms(2)] by simp
  note b = int_bytes_simps [OF this]
  have enc: "(header_prefix_encode hp :: ('e, bytes) result) =
      Ok (int_bytes 8 0 (hp_encoded_insert_count hp) @ int_bytes 7 ?s (hp_delta_base hp))"
    using a(1) b(1) unfolding header_prefix_encode_def Let_def by simp
  have "header_prefix_decode ((int_bytes 8 0 (hp_encoded_insert_count hp) @ int_bytes 7 ?s (hp_delta_base hp)) @ rest)
      = Ok (hp, rest)" for rest
    using a(2) [of "int_bytes 7 ?s (hp_delta_base hp) @ rest"] b(2) [of rest] assms
    by (cases hp) (simp add: header_prefix_decode_def index_ok_usize not_less)
  then show ?thesis using enc by blast
qed

end
