(* ===== verification/Instructions.thy ===== *)
theory Instructions
  imports FieldLines
begin

text \<open>
  The instructions of the QPACK encoder and decoder streams, \<open>h3/src/qpack/stream.rs\<close>. A
  decoder answers \<open>None\<close> when the bytes end before the instruction does; otherwise it returns
  the instruction and the bytes behind it. The lemmas show the round trips, that the first
  byte names the instruction, and where a round trip fails.
\<close>

section \<open>Results that may be incomplete\<close>

fun int_or_more :: "(int_error, 'a) result \<Rightarrow> (parse_error, 'a option) result" where
  "int_or_more (Ok x) = Ok (Some x)"
| "int_or_more (Err IntUnexpectedEnd) = Ok None"
| "int_or_more (Err Overflow) = Err (PInteger Overflow)"
| "int_or_more Panic = Panic"

fun string_or_more :: "(string_error, 'a) result \<Rightarrow> (parse_error, 'a option) result" where
  "string_or_more (Ok x) = Ok (Some x)"
| "string_or_more (Err e) = (if e = SUnexpectedEnd then Ok None else Err (PString e))"
| "string_or_more Panic = Panic"

fun opt_then :: "('e, 'a option) result \<Rightarrow> ('a \<Rightarrow> ('e, 'b option) result) \<Rightarrow> ('e, 'b option) result" where
  "opt_then (Ok (Some x)) f = f x"
| "opt_then (Ok None) f = Ok None"
| "opt_then (Err e) f = Err e"
| "opt_then Panic f = Panic"

section \<open>Encoder instructions\<close>

datatype encoder_instruction =
    EIDynamicTableSizeUpdate
  | EIInsertWithNameRef
  | EIInsertWithoutNameRef
  | EIDuplicate
  | EIUnknown

definition encoder_instruction_decode :: "u8 \<Rightarrow> encoder_instruction" where
  "encoder_instruction_decode first =
     (if first AND 0x80 \<noteq> 0 then EIInsertWithNameRef
      else if first AND 0x40 = 0x40 then EIInsertWithoutNameRef
      else if first AND 0xE0 = 0 then EIDuplicate
      else if first AND 0x20 = 0x20 then EIDynamicTableSizeUpdate
      else EIUnknown)"

datatype insert_with_name_ref = InsStatic nat bytes | InsDynamic nat bytes

definition insert_with_name_ref_decode ::
  "bytes \<Rightarrow> (parse_error, (insert_with_name_ref \<times> bytes) option) result" where
  "insert_with_name_ref_decode buf =
     opt_then (int_or_more (prefix_int_decode 6 buf)) (\<lambda>((f, index), buf1).
       if f AND 2 \<noteq> 2 then Err (InvalidPrefix f)
       else
         and_then (checked_usize index) (\<lambda>index.
         opt_then (string_or_more (prefix_string_decode 8 buf1)) (\<lambda>(v, buf2).
           if f AND 1 = 1 then Ok (Some (InsStatic index v, buf2))
           else Ok (Some (InsDynamic index v, buf2)))))"

fun insert_with_name_ref_encode :: "insert_with_name_ref \<Rightarrow> (string_error, bytes) result" where
  "insert_with_name_ref_encode (InsStatic index val) =
     and_then (unwrap (prefix_int_encode 6 3 index)) (\<lambda>b1.
     and_then (prefix_string_encode 8 0 val) (\<lambda>b2. Ok (b1 @ b2)))"
| "insert_with_name_ref_encode (InsDynamic index val) =
     and_then (unwrap (prefix_int_encode 6 2 index)) (\<lambda>b1.
     and_then (prefix_string_encode 8 0 val) (\<lambda>b2. Ok (b1 @ b2)))"

record insert_without_name_ref =
  iwn_name :: bytes
  iwn_value :: bytes

definition insert_without_name_ref_decode ::
  "bytes \<Rightarrow> (parse_error, (insert_without_name_ref \<times> bytes) option) result" where
  "insert_without_name_ref_decode buf =
     opt_then (string_or_more (prefix_string_decode 6 buf)) (\<lambda>(n, buf1).
     opt_then (string_or_more (prefix_string_decode 8 buf1)) (\<lambda>(v, buf2).
       Ok (Some (\<lparr>iwn_name = n, iwn_value = v\<rparr>, buf2))))"

definition insert_without_name_ref_encode :: "insert_without_name_ref \<Rightarrow> (string_error, bytes) result" where
  "insert_without_name_ref_encode i =
     and_then (prefix_string_encode 6 1 (iwn_name i)) (\<lambda>b1.
     and_then (prefix_string_encode 8 0 (iwn_value i)) (\<lambda>b2. Ok (b1 @ b2)))"

definition duplicate_decode :: "bytes \<Rightarrow> (parse_error, (nat \<times> bytes) option) result" where
  "duplicate_decode buf =
     opt_then (int_or_more (prefix_int_decode 5 buf)) (\<lambda>((f, x), buf1).
       if f = 0 then and_then (checked_usize x) (\<lambda>x. Ok (Some (x, buf1)))
       else Err (InvalidPrefix f))"

definition duplicate_encode :: "nat \<Rightarrow> ('e, bytes) result" where
  "duplicate_encode index = unwrap (prefix_int_encode 5 0 index)"

definition size_update_decode :: "bytes \<Rightarrow> (parse_error, (nat \<times> bytes) option) result" where
  "size_update_decode buf =
     opt_then (int_or_more (prefix_int_decode 5 buf)) (\<lambda>((f, x), buf1).
       if f = 1 then and_then (checked_usize x) (\<lambda>x. Ok (Some (x, buf1)))
       else Err (InvalidPrefix f))"

definition size_update_encode :: "nat \<Rightarrow> ('e, bytes) result" where
  "size_update_encode n = unwrap (prefix_int_encode 5 1 n)"

section \<open>Decoder instructions\<close>

datatype decoder_instruction = DIHeaderAck | DIStreamCancel | DIInsertCountIncrement | DIUnknown

definition decoder_instruction_decode :: "u8 \<Rightarrow> decoder_instruction" where
  "decoder_instruction_decode first =
     (if first AND 0xC0 = 0 then DIInsertCountIncrement
      else if first AND 0x80 \<noteq> 0 then DIHeaderAck
      else if first AND 0x40 = 0x40 then DIStreamCancel
      else DIUnknown)"

definition insert_count_increment_decode :: "bytes \<Rightarrow> (parse_error, (nat \<times> bytes) option) result" where
  "insert_count_increment_decode buf =
     opt_then (int_or_more (prefix_int_decode 6 buf)) (\<lambda>((f, x), buf1).
       if f = 0
       then if x > 64 then Err (PInteger Overflow) else Ok (Some (x, buf1))
       else Err (InvalidPrefix f))"

definition insert_count_increment_encode :: "u8 \<Rightarrow> ('e, bytes) result" where
  "insert_count_increment_encode n = unwrap (prefix_int_encode 6 0 (unat n))"

definition header_ack_decode :: "bytes \<Rightarrow> (parse_error, (nat \<times> bytes) option) result" where
  "header_ack_decode buf =
     opt_then (int_or_more (prefix_int_decode 7 buf)) (\<lambda>((f, x), buf1).
       if f = 1 then Ok (Some (x, buf1)) else Err (InvalidPrefix f))"

definition header_ack_encode :: "nat \<Rightarrow> ('e, bytes) result" where
  "header_ack_encode stream_id = unwrap (prefix_int_encode 7 1 stream_id)"

definition stream_cancel_decode :: "bytes \<Rightarrow> (parse_error, (nat \<times> bytes) option) result" where
  "stream_cancel_decode buf =
     opt_then (int_or_more (prefix_int_decode 6 buf)) (\<lambda>((f, x), buf1).
       if f = 1 then Ok (Some (x, buf1)) else Err (InvalidPrefix f))"

definition stream_cancel_encode :: "nat \<Rightarrow> ('e, bytes) result" where
  "stream_cancel_encode stream_id = unwrap (prefix_int_encode 6 1 stream_id)"

section \<open>The first byte\<close>

lemma first_encoder_instruction:
  "drop_bit 6 b = (3 :: u8) \<Longrightarrow> encoder_instruction_decode b = EIInsertWithNameRef"
  "drop_bit 6 b = (2 :: u8) \<Longrightarrow> encoder_instruction_decode b = EIInsertWithNameRef"
  "drop_bit 5 b = (3 :: u8) \<Longrightarrow> encoder_instruction_decode b = EIInsertWithoutNameRef"
  "drop_bit 5 b = (0 :: u8) \<Longrightarrow> encoder_instruction_decode b = EIDuplicate"
  "drop_bit 5 b = (1 :: u8) \<Longrightarrow> encoder_instruction_decode b = EIDynamicTableSizeUpdate"
proof -
  note a6 = and_push_bit [of b 6] and a5 = and_push_bit [of b 5]
  show "drop_bit 6 b = (3 :: u8) \<Longrightarrow> encoder_instruction_decode b = EIInsertWithNameRef"
    using a6 [of 2] by (simp add: encoder_instruction_decode_def)
  show "drop_bit 6 b = (2 :: u8) \<Longrightarrow> encoder_instruction_decode b = EIInsertWithNameRef"
    using a6 [of 2] by (simp add: encoder_instruction_decode_def)
  show "drop_bit 5 b = (3 :: u8) \<Longrightarrow> encoder_instruction_decode b = EIInsertWithoutNameRef"
    using a5 [of 4] a5 [of 2] by (simp add: encoder_instruction_decode_def)
  show "drop_bit 5 b = (0 :: u8) \<Longrightarrow> encoder_instruction_decode b = EIDuplicate"
    using a5 [of 4] a5 [of 2] a5 [of 7] by (simp add: encoder_instruction_decode_def)
  show "drop_bit 5 b = (1 :: u8) \<Longrightarrow> encoder_instruction_decode b = EIDynamicTableSizeUpdate"
    using a5 [of 4] a5 [of 2] a5 [of 7] a5 [of 1] by (simp add: encoder_instruction_decode_def)
qed

lemma first_decoder_instruction:
  "drop_bit 6 b = (0 :: u8) \<Longrightarrow> decoder_instruction_decode b = DIInsertCountIncrement"
  "drop_bit 7 b = (1 :: u8) \<Longrightarrow> decoder_instruction_decode b = DIHeaderAck"
  "drop_bit 6 b = (1 :: u8) \<Longrightarrow> decoder_instruction_decode b = DIStreamCancel"
proof -
  note a6 = and_push_bit [of b 6] and a7 = and_push_bit [of b 7]
  show "drop_bit 6 b = (0 :: u8) \<Longrightarrow> decoder_instruction_decode b = DIInsertCountIncrement"
    using a6 [of 3] by (simp add: decoder_instruction_decode_def)
  show "drop_bit 7 b = (1 :: u8) \<Longrightarrow> decoder_instruction_decode b = DIHeaderAck"
  proof -
    assume d: "drop_bit 7 b = 1"
    then have "b AND 0x80 \<noteq> 0" using a7 [of 1] by simp
    moreover have "b AND 0xC0 \<noteq> 0"
    proof
      assume "b AND 0xC0 = 0"
      then have "b AND (0xC0 AND 0x80) = 0" by (simp only: and.assoc [symmetric]) simp
      with \<open>b AND 0x80 \<noteq> 0\<close> show False by simp
    qed
    ultimately show ?thesis by (simp add: decoder_instruction_decode_def)
  qed
  show "drop_bit 6 b = (1 :: u8) \<Longrightarrow> decoder_instruction_decode b = DIStreamCancel"
    using a6 [of 3] a6 [of 2] a6 [of 1] by (simp add: decoder_instruction_decode_def)
qed

section \<open>Round trips\<close>

definition enc_start :: "encoder_instruction \<Rightarrow> bytes \<Rightarrow> bool" where
  "enc_start k bs \<longleftrightarrow> bs \<noteq> [] \<and> encoder_instruction_decode (hd bs) = k"

definition dec_start :: "decoder_instruction \<Rightarrow> bytes \<Rightarrow> bool" where
  "dec_start k bs \<longleftrightarrow> bs \<noteq> [] \<and> decoder_instruction_decode (hd bs) = k"

fun insert_with_name_ref_ok :: "insert_with_name_ref \<Rightarrow> bool" where
  "insert_with_name_ref_ok (InsStatic i v) \<longleftrightarrow> index_ok i \<and> string_ok v"
| "insert_with_name_ref_ok (InsDynamic i v) \<longleftrightarrow> index_ok i \<and> string_ok v"

lemma insert_with_name_ref_dec_enc:
  assumes "insert_with_name_ref_ok x"
  shows "\<exists>bs. insert_with_name_ref_encode x = Ok bs \<and> enc_start EIInsertWithNameRef bs \<and>
    (\<forall>rest. insert_with_name_ref_decode (bs @ rest) = Ok (Some (x, rest)))"
proof (cases x)
  case (InsStatic i v)
  then have i: "index_ok i" and v: "string_ok v" using assms by simp_all
  note b = int_bytes_simps [OF line_prefix_ok(1) [OF i]] string_bytes_simps [OF line_string_ok(1) v]
  show ?thesis using InsStatic b i
    by (auto simp: insert_with_name_ref_decode_def enc_start_def first_is_def
        intro: first_encoder_instruction)
next
  case (InsDynamic i v)
  then have i: "index_ok i" and v: "string_ok v" using assms by simp_all
  note b = int_bytes_simps [OF line_prefix_ok(2) [OF i]] string_bytes_simps [OF line_string_ok(1) v]
  show ?thesis using InsDynamic b i
    by (auto simp: insert_with_name_ref_decode_def enc_start_def first_is_def
        intro: first_encoder_instruction)
qed

lemma insert_without_name_ref_dec_enc:
  assumes n: "string_ok (iwn_name x)" and v: "string_ok (iwn_value x)"
  shows "\<exists>bs. insert_without_name_ref_encode x = Ok bs \<and> enc_start EIInsertWithoutNameRef bs \<and>
    (\<forall>rest. insert_without_name_ref_decode (bs @ rest) = Ok (Some (x, rest)))"
proof -
  note b = string_bytes_simps [OF line_string_ok(3) n] string_bytes_simps [OF line_string_ok(1) v]
  have "push_bit 1 1 OR 1 = (3 :: u8)" by simp
  with string_bytes_first [OF line_string_ok(3) n]
  have "first_is 5 3 (string_bytes 6 1 (iwn_name x))" by simp
  then have "enc_start EIInsertWithoutNameRef (string_bytes 6 1 (iwn_name x))"
    by (auto simp: enc_start_def first_is_def intro: first_encoder_instruction)
  with b show ?thesis
    by (auto simp: insert_without_name_ref_decode_def insert_without_name_ref_encode_def enc_start_def)
qed

lemma duplicate_dec_enc:
  assumes i: "index_ok i"
  shows "\<exists>bs. (duplicate_encode i :: ('e, bytes) result) = Ok bs \<and> enc_start EIDuplicate bs \<and>
    (\<forall>rest. duplicate_decode (bs @ rest) = Ok (Some (i, rest)))"
  using int_bytes_simps [OF line_prefix_ok(10) [OF i]] i
  by (auto simp: duplicate_decode_def duplicate_encode_def enc_start_def first_is_def
      intro: first_encoder_instruction)

lemma size_update_dec_enc:
  assumes i: "index_ok i"
  shows "\<exists>bs. (size_update_encode i :: ('e, bytes) result) = Ok bs \<and> enc_start EIDynamicTableSizeUpdate bs \<and>
    (\<forall>rest. size_update_decode (bs @ rest) = Ok (Some (i, rest)))"
  using int_bytes_simps [OF line_prefix_ok(11) [OF i]] i
  by (auto simp: size_update_decode_def size_update_encode_def enc_start_def first_is_def
      intro: first_encoder_instruction)

lemma header_ack_dec_enc:
  assumes i: "index_ok i"
  shows "\<exists>bs. (header_ack_encode i :: ('e, bytes) result) = Ok bs \<and> dec_start DIHeaderAck bs \<and>
    (\<forall>rest. header_ack_decode (bs @ rest) = Ok (Some (i, rest)))"
  using int_bytes_simps [OF line_prefix_ok(9) [OF i]]
  by (auto simp: header_ack_decode_def header_ack_encode_def dec_start_def first_is_def
      intro: first_decoder_instruction)

lemma stream_cancel_dec_enc:
  assumes i: "index_ok i"
  shows "\<exists>bs. (stream_cancel_encode i :: ('e, bytes) result) = Ok bs \<and> dec_start DIStreamCancel bs \<and>
    (\<forall>rest. stream_cancel_decode (bs @ rest) = Ok (Some (i, rest)))"
  using int_bytes_simps [OF line_prefix_ok(13) [OF i]]
  by (auto simp: stream_cancel_decode_def stream_cancel_encode_def dec_start_def first_is_def
      intro: first_decoder_instruction)

lemma insert_count_increment_dec_enc:
  "\<exists>bs. (insert_count_increment_encode n :: ('e, bytes) result) = Ok bs \<and> dec_start DIInsertCountIncrement bs \<and>
    (\<forall>rest. insert_count_increment_decode (bs @ rest) =
       (if unat n \<le> 64 then Ok (Some (unat n, rest)) else Err (PInteger Overflow)))"
proof -
  have "index_ok (unat n)" using unat_u8_bound [of n] by (simp add: index_ok_def)
  from int_bytes_simps [OF line_prefix_ok(12) [OF this]] show ?thesis
    by (auto simp: insert_count_increment_decode_def insert_count_increment_encode_def dec_start_def
        first_is_def intro: first_decoder_instruction)
qed

text \<open>
  An insert count increment the decoder writes is read back exactly up to 64; from 65
  to 255 the encoder's parser rejects what the decoder's writer produced.
\<close>
theorem insert_count_increment_limit:
  "\<exists>bs. (insert_count_increment_encode n :: ('e, bytes) result) = Ok bs \<and>
    insert_count_increment_decode (bs @ rest) =
       (if unat n \<le> 64 then Ok (Some (unat n, rest)) else Err (PInteger Overflow))"
  using insert_count_increment_dec_enc [of n] by blast

end
