(* ===== verification/QpackDecoder.thy ===== *)
theory QpackDecoder
  imports DynamicTable Instructions
begin

text \<open>
  The QPACK decoder, \<open>h3/src/qpack/decoder.rs\<close>: field sections with and without the dynamic
  tbl, and the receiving side of the encoder stream. Readers are contiguous buffers. The
  loops end because every line and every instruction takes at least one byte.
\<close>

section \<open>Errors\<close>

datatype decoder_error =
    DInvalidInteger int_error
  | DInvalidString string_error
  | DInvalidIndex vas_error
  | DDynamicTable dynamic_error
  | DInvalidStaticIndex nat
  | DUnknownPrefix u8
  | DMissingRefs nat
  | DBadBaseIndex int
  | DUnexpectedEnd
  | DHeaderTooLong nat
  | DBufSize

fun decoder_error_from_parse :: "parse_error \<Rightarrow> decoder_error" where
  "decoder_error_from_parse (PInteger x) = DInvalidInteger x"
| "decoder_error_from_parse (PString x) = DInvalidString x"
| "decoder_error_from_parse (InvalidPrefix p) = DUnknownPrefix p"
| "decoder_error_from_parse (InvalidBase b) = DBadBaseIndex b"

fun decoder_error_from_static :: "static_error \<Rightarrow> decoder_error" where
  "decoder_error_from_static (StaticUnknown i) = DInvalidStaticIndex i"

abbreviation d_parse :: "(parse_error, 'a) result \<Rightarrow> (decoder_error, 'a) result" where
  "d_parse \<equiv> map_err decoder_error_from_parse"

abbreviation d_static :: "(static_error, 'a) result \<Rightarrow> (decoder_error, 'a) result" where
  "d_static \<equiv> map_err decoder_error_from_static"

abbreviation d_table :: "(dynamic_error, 'a) result \<Rightarrow> (decoder_error, 'a) result" where
  "d_table \<equiv> map_err DDynamicTable"

record decoded =
  dec_fields :: "header_field list"
  dec_dyn_ref :: bool
  dec_mem_size :: nat

section \<open>Decoders consume their input\<close>

named_theorems consumes \<open>what is left is shorter than the input\<close>

lemma prefix_int_decode_consumes:
  assumes "prefix_int_decode sz buf = Ok ((f, v), rest)"
  shows "length rest < length buf"
proof -
  have "1 \<le> sz \<and> sz \<le> 8"
    using assms by (cases buf) (auto simp: prefix_int_decode_def res_simps u8_decode_def)
  then obtain p where "buf = p @ rest" "p \<noteq> []"
    using prefix_int_decode_spec [of sz buf] assms by auto
  then show ?thesis by simp
qed

lemma prefix_string_decode_consumes:
  assumes "prefix_string_decode sz buf = Ok (s, rest)"
  shows "length rest < length buf"
  using prefix_string_decode_suffix [OF assms] by auto

lemma line_consumes [consumes]:
  "indexed_decode buf = Ok (x, rest) \<Longrightarrow> length rest < length buf"
  "indexed_post_base_decode buf = Ok (i, rest) \<Longrightarrow> length rest < length buf"
  "literal_name_ref_decode buf = Ok (n, rest) \<Longrightarrow> length rest < length buf"
  "literal_post_base_decode buf = Ok (q, rest) \<Longrightarrow> length rest < length buf"
  "literal_decode buf = Ok (l, rest) \<Longrightarrow> length rest < length buf"
proof -
  note c = prefix_int_decode_consumes prefix_string_decode_consumes
  show "indexed_decode buf = Ok (x, rest) \<Longrightarrow> length rest < length buf"
    by (auto simp: indexed_decode_def checked_usize_def res_simps dest!: c split: if_splits)
  show "indexed_post_base_decode buf = Ok (i, rest) \<Longrightarrow> length rest < length buf"
    by (auto simp: indexed_post_base_decode_def checked_usize_def res_simps dest!: c split: if_splits)
  show "literal_name_ref_decode buf = Ok (n, rest) \<Longrightarrow> length rest < length buf"
    by (auto simp: literal_name_ref_decode_def checked_usize_def res_simps dest!: c split: if_splits)
  show "literal_post_base_decode buf = Ok (q, rest) \<Longrightarrow> length rest < length buf"
    by (auto simp: literal_post_base_decode_def checked_usize_def res_simps dest!: c split: if_splits)
  show "literal_decode buf = Ok (l, rest) \<Longrightarrow> length rest < length buf"
    by (auto simp: literal_decode_def res_simps dest!: c split: if_splits list.splits)
qed

lemma opt_then_Some [res_simps]:
  "opt_then r f = Ok (Some y) \<longleftrightarrow> (\<exists>x. r = Ok (Some x) \<and> f x = Ok (Some y))"
  by (cases "(r, f)" rule: opt_then.cases) auto

lemma or_more_Some [res_simps]:
  "int_or_more q = Ok (Some x) \<longleftrightarrow> q = Ok x"
  "string_or_more r = Ok (Some x) \<longleftrightarrow> r = Ok x"
  by (cases q rule: int_or_more.cases; simp) (cases r; simp)

lemma instruction_consumes [consumes]:
  "insert_with_name_ref_decode buf = Ok (Some (x, rest)) \<Longrightarrow> length rest < length buf"
  "insert_without_name_ref_decode buf = Ok (Some (y, rest)) \<Longrightarrow> length rest < length buf"
  "duplicate_decode buf = Ok (Some (i, rest)) \<Longrightarrow> length rest < length buf"
  "size_update_decode buf = Ok (Some (i, rest)) \<Longrightarrow> length rest < length buf"
  "insert_count_increment_decode buf = Ok (Some (i, rest)) \<Longrightarrow> length rest < length buf"
  "header_ack_decode buf = Ok (Some (i, rest)) \<Longrightarrow> length rest < length buf"
  "stream_cancel_decode buf = Ok (Some (i, rest)) \<Longrightarrow> length rest < length buf"
proof -
  note c = prefix_int_decode_consumes prefix_string_decode_consumes
  show "insert_with_name_ref_decode buf = Ok (Some (x, rest)) \<Longrightarrow> length rest < length buf"
    by (auto simp: insert_with_name_ref_decode_def checked_usize_def res_simps dest!: c split: if_splits)
  show "insert_without_name_ref_decode buf = Ok (Some (y, rest)) \<Longrightarrow> length rest < length buf"
    by (auto simp: insert_without_name_ref_decode_def res_simps dest!: c)
  show "duplicate_decode buf = Ok (Some (i, rest)) \<Longrightarrow> length rest < length buf"
    by (auto simp: duplicate_decode_def checked_usize_def res_simps dest!: c split: if_splits)
  show "size_update_decode buf = Ok (Some (i, rest)) \<Longrightarrow> length rest < length buf"
    by (auto simp: size_update_decode_def checked_usize_def res_simps dest!: c split: if_splits)
  show "insert_count_increment_decode buf = Ok (Some (i, rest)) \<Longrightarrow> length rest < length buf"
    by (auto simp: insert_count_increment_decode_def res_simps dest!: c split: if_splits)
  show "header_ack_decode buf = Ok (Some (i, rest)) \<Longrightarrow> length rest < length buf"
    by (auto simp: header_ack_decode_def res_simps dest!: c split: if_splits)
  show "stream_cancel_decode buf = Ok (Some (i, rest)) \<Longrightarrow> length rest < length buf"
    by (auto simp: stream_cancel_decode_def res_simps dest!: c split: if_splits)
qed

section \<open>Field sections\<close>

definition parse_header_field :: "table_decoder \<Rightarrow> bytes \<Rightarrow> (decoder_error, header_field \<times> bytes) result" where
  "parse_header_field tbl buf =
     (case buf of
        [] \<Rightarrow> Panic
      | first # _ \<Rightarrow>
          (case header_block_field_decode first of
             HBIndexed \<Rightarrow>
               and_then (d_parse (indexed_decode buf)) (\<lambda>(i, rest).
                 case i of
                   IndexedStatic index \<Rightarrow> map_ok (\<lambda>f. (f, rest)) (d_static (static_get index))
                 | IndexedDynamic index \<Rightarrow> map_ok (\<lambda>f. (f, rest)) (d_table (td_get_relative tbl index)))
           | HBIndexedWithPostBase \<Rightarrow>
               and_then (d_parse (indexed_post_base_decode buf)) (\<lambda>(index, rest).
                 map_ok (\<lambda>f. (f, rest)) (d_table (td_get_postbase tbl index)))
           | HBLiteralWithNameRef \<Rightarrow>
               and_then (d_parse (literal_name_ref_decode buf)) (\<lambda>(l, rest).
                 case l of
                   LitStatic index v \<Rightarrow>
                     map_ok (\<lambda>f. (with_value f v, rest)) (d_static (static_get index))
                 | LitDynamic index v \<Rightarrow>
                     map_ok (\<lambda>f. (with_value f v, rest)) (d_table (td_get_relative tbl index)))
           | HBLiteralWithPostBaseNameRef \<Rightarrow>
               and_then (d_parse (literal_post_base_decode buf)) (\<lambda>(l, rest).
                 map_ok (\<lambda>f. (with_value f (lpb_value l), rest)) (d_table (td_get_postbase tbl (lpb_index l))))
           | HBLiteral \<Rightarrow>
               and_then (d_parse (literal_decode buf)) (\<lambda>(l, rest).
                 Ok (header_field_new (lit_name l) (lit_value l), rest))
           | HBUnknown \<Rightarrow> Err (DUnknownPrefix first)))"

lemma parse_header_field_consumes [consumes]:
  "parse_header_field tbl buf = Ok (f, rest) \<Longrightarrow> length rest < length buf"
  by (auto simp: parse_header_field_def res_simps split: list.split_asm header_block_field.split_asm)
    (auto dest!: consumes simp: res_simps split: indexed.split_asm literal_name_ref.split_asm)+

function decode_header_loop ::
  "table_decoder \<Rightarrow> bytes \<Rightarrow> nat \<Rightarrow> header_field list \<Rightarrow> (decoder_error, nat \<times> header_field list) result"
where
  "decode_header_loop tbl buf msize fs =
     (if buf = [] then Ok (msize, fs)
      else
        case parse_header_field tbl buf of
          Ok (field, rest) \<Rightarrow>
            and_then (uadd msize (mem_size field)) (\<lambda>msize1.
              decode_header_loop tbl rest msize1 (fs @ [field]))
        | Err e \<Rightarrow> Err e
        | Panic \<Rightarrow> Panic)"
  by pat_completeness auto

termination decode_header_loop
  by (relation "measure (\<lambda>(tbl, buf, msize, fs). length buf)") (auto dest: consumes)

declare decode_header_loop.simps [simp del]

definition decode_header :: "dynamic_table \<Rightarrow> bytes \<Rightarrow> (decoder_error, decoded) result" where
  "decode_header tbl buf =
     and_then (d_parse (header_prefix_decode buf)) (\<lambda>(prefix, rest).
     and_then (d_parse (header_prefix_get prefix (total_inserted tbl) (max_mem_size tbl)))
       (\<lambda>(required_ref, base).
       if required_ref > total_inserted tbl then Err (DMissingRefs required_ref)
       else
         and_then (decode_header_loop (table_decoder_new tbl base) rest 0 []) (\<lambda>(msize, fs).
           Ok \<lparr>dec_fields = fs, dec_dyn_ref = (required_ref > 0), dec_mem_size = msize\<rparr>)))"

definition stateless_field :: "bytes \<Rightarrow> (decoder_error, header_field \<times> bytes) result" where
  "stateless_field buf =
     (case buf of
        [] \<Rightarrow> Panic
      | first # _ \<Rightarrow>
          (case header_block_field_decode first of
             HBIndexedWithPostBase \<Rightarrow> Err (DMissingRefs 0)
           | HBLiteralWithPostBaseNameRef \<Rightarrow> Err (DMissingRefs 0)
           | HBIndexed \<Rightarrow>
               and_then (d_parse (indexed_decode buf)) (\<lambda>(i, rest).
                 case i of
                   IndexedStatic index \<Rightarrow> map_ok (\<lambda>f. (f, rest)) (d_static (static_get index))
                 | IndexedDynamic _ \<Rightarrow> Err (DMissingRefs 0))
           | HBLiteralWithNameRef \<Rightarrow>
               and_then (d_parse (literal_name_ref_decode buf)) (\<lambda>(l, rest).
                 case l of
                   LitDynamic _ _ \<Rightarrow> Err (DMissingRefs 0)
                 | LitStatic index v \<Rightarrow>
                     map_ok (\<lambda>f. (with_value f v, rest)) (d_static (static_get index)))
           | HBLiteral \<Rightarrow>
               and_then (d_parse (literal_decode buf)) (\<lambda>(l, rest).
                 Ok (header_field_new (lit_name l) (lit_value l), rest))
           | HBUnknown \<Rightarrow> Err (DUnknownPrefix first)))"

lemma stateless_field_consumes [consumes]:
  "stateless_field buf = Ok (f, rest) \<Longrightarrow> length rest < length buf"
  by (auto simp: stateless_field_def res_simps split: list.split_asm header_block_field.split_asm)
    (auto dest!: consumes simp: res_simps split: indexed.split_asm literal_name_ref.split_asm)+

function decode_stateless_loop ::
  "bytes \<Rightarrow> nat \<Rightarrow> nat \<Rightarrow> header_field list \<Rightarrow> (decoder_error, nat \<times> header_field list) result"
where
  "decode_stateless_loop buf max_size msize fs =
     (if buf = [] then Ok (msize, fs)
      else
        case stateless_field buf of
          Ok (field, rest) \<Rightarrow>
            and_then (uadd msize (mem_size field)) (\<lambda>msize1.
              if msize1 > max_size then Err (DHeaderTooLong msize1)
              else decode_stateless_loop rest max_size msize1 (fs @ [field]))
        | Err e \<Rightarrow> Err e
        | Panic \<Rightarrow> Panic)"
  by pat_completeness auto

termination decode_stateless_loop
  by (relation "measure (\<lambda>(buf, max_size, msize, fs). length buf)") (auto dest: consumes)

declare decode_stateless_loop.simps [simp del]

definition decode_stateless :: "bytes \<Rightarrow> nat \<Rightarrow> (decoder_error, decoded) result" where
  "decode_stateless buf max_size =
     and_then (d_parse (header_prefix_decode buf)) (\<lambda>(prefix, rest).
     and_then (d_parse (header_prefix_get prefix 0 0)) (\<lambda>(required_ref, _).
       if required_ref > 0 then Err (DMissingRefs required_ref)
       else
         and_then (decode_stateless_loop rest max_size 0 []) (\<lambda>(msize, fs).
           Ok \<lparr>dec_fields = fs, dec_dyn_ref = False, dec_mem_size = msize\<rparr>)))"

section \<open>The encoder stream\<close>

datatype instruction = Insert header_field | TableSizeUpdate nat

fun map_some :: "('a \<Rightarrow> 'b) \<Rightarrow> ('a \<times> 'r) option \<Rightarrow> ('b \<times> 'r) option" where
  "map_some f None = None"
| "map_some f (Some (x, r)) = Some (f x, r)"

definition parse_instruction ::
  "dynamic_table \<Rightarrow> bytes \<Rightarrow> (decoder_error, (instruction \<times> bytes) option) result" where
  "parse_instruction tbl read =
     (case read of
        [] \<Rightarrow> Ok None
      | first # _ \<Rightarrow>
          (case encoder_instruction_decode first of
             EIUnknown \<Rightarrow> Err (DUnknownPrefix first)
           | EIDynamicTableSizeUpdate \<Rightarrow>
               map_ok (map_some TableSizeUpdate) (d_parse (size_update_decode read))
           | EIInsertWithoutNameRef \<Rightarrow>
               map_ok (map_some (\<lambda>x. Insert (header_field_new (iwn_name x) (iwn_value x))))
                 (d_parse (insert_without_name_ref_decode read))
           | EIDuplicate \<Rightarrow>
               and_then (d_parse (duplicate_decode read)) (\<lambda>d.
                 case d of
                   Some (index, rest) \<Rightarrow>
                     map_ok (\<lambda>f. Some (Insert f, rest)) (d_table (table_get_relative tbl index))
                 | None \<Rightarrow> Ok None)
           | EIInsertWithNameRef \<Rightarrow>
               and_then (d_parse (insert_with_name_ref_decode read)) (\<lambda>d.
                 case d of
                   Some (InsStatic index v, rest) \<Rightarrow>
                     map_ok (\<lambda>f. Some (Insert (with_value f v), rest)) (d_static (static_get index))
                 | Some (InsDynamic index v, rest) \<Rightarrow>
                     map_ok (\<lambda>f. Some (Insert (with_value f v), rest)) (d_table (table_get_relative tbl index))
                 | None \<Rightarrow> Ok None)))"

lemma map_some_Some [simp]: "map_some f q = Some (y, r) \<longleftrightarrow> (\<exists>x. q = Some (x, r) \<and> y = f x)"
  "Some (y, r) = map_some f q \<longleftrightarrow> (\<exists>x. q = Some (x, r) \<and> y = f x)"
  by (cases "(f, q)" rule: map_some.cases; auto)+

lemma parse_instruction_consumes [consumes]:
  "parse_instruction tbl read = Ok (Some (i, rest)) \<Longrightarrow> length rest < length read"
  by (auto simp: parse_instruction_def res_simps split: list.split_asm encoder_instruction.split_asm)
    (auto dest!: consumes simp: res_simps
      split: option.split_asm prod.split_asm insert_with_name_ref.split_asm)+

definition apply_instruction :: "instruction \<Rightarrow> dynamic_table \<Rightarrow>
    (dynamic_error, unit) result \<times> dynamic_table" where
  "apply_instruction i tbl =
     (case i of Insert field \<Rightarrow> table_put tbl field | TableSizeUpdate n \<Rightarrow> set_max_size tbl n)"

function on_encoder_recv_loop ::
  "dynamic_table \<Rightarrow> bytes \<Rightarrow> (decoder_error, unit) result \<times> dynamic_table \<times> bytes"
where
  "on_encoder_recv_loop tbl read =
     (case parse_instruction tbl read of
        Ok None \<Rightarrow> (Ok (), tbl, read)
      | Ok (Some (i, rest)) \<Rightarrow>
          (case apply_instruction i tbl of
             (Ok _, tbl1) \<Rightarrow> on_encoder_recv_loop tbl1 rest
           | (Err e, tbl1) \<Rightarrow> (Err (DDynamicTable e), tbl1, rest)
           | (Panic, tbl1) \<Rightarrow> (Panic, tbl1, rest))
      | Err e \<Rightarrow> (Err e, tbl, read)
      | Panic \<Rightarrow> (Panic, tbl, read))"
  by pat_completeness auto

termination on_encoder_recv_loop
  by (relation "measure (\<lambda>(tbl, read). length read)") (auto dest: consumes)

declare on_encoder_recv_loop.simps [simp del]

text \<open>The result, the table, what is left of the encoder stream, and the bytes written.\<close>

definition on_encoder_recv ::
  "dynamic_table \<Rightarrow> bytes \<Rightarrow> (decoder_error, nat) result \<times> dynamic_table \<times> bytes \<times> bytes" where
  "on_encoder_recv tbl read =
     (case on_encoder_recv_loop tbl read of
        (Ok _, tbl1, rest) \<Rightarrow>
          if total_inserted tbl1 \<noteq> total_inserted tbl
          then
            (case usub (total_inserted tbl1) (total_inserted tbl) of
               Ok n \<Rightarrow>
                 if n > 255 then (Err DBufSize, tbl1, rest, [])
                 else
                   (case insert_count_increment_encode (word_of_nat n) of
                      Ok bs \<Rightarrow> (Ok (total_inserted tbl1), tbl1, rest, bs)
                    | Err e \<Rightarrow> (Err e, tbl1, rest, [])
                    | Panic \<Rightarrow> (Panic, tbl1, rest, []))
             | Err e \<Rightarrow> (Err e, tbl1, rest, [])
             | Panic \<Rightarrow> (Panic, tbl1, rest, []))
          else (Ok (total_inserted tbl1), tbl1, rest, [])
      | (Err e, tbl1, rest) \<Rightarrow> (Err e, tbl1, rest, [])
      | (Panic, tbl1, rest) \<Rightarrow> (Panic, tbl1, rest, []))"

definition ack_header :: "nat \<Rightarrow> ('e, bytes) result" where
  "ack_header stream_id = header_ack_encode stream_id"

definition stream_canceled :: "nat \<Rightarrow> ('e, bytes) result" where
  "stream_canceled stream_id = stream_cancel_encode stream_id"

end
