(* ===== verification/QpackEncoder.thy ===== *)
theory QpackEncoder
  imports DynamicTable Instructions QpackDecoder
begin

text \<open>
  The QPACK encoder, \<open>h3/src/qpack/encoder.rs\<close>: field sections with and without the dynamic
  table, the instructions it sends on the encoder stream and the receiving side of the
  decoder stream. The two output buffers and the borrowed table are threaded through the
  encoding of a section, so that what an error leaves behind is there.
\<close>

section \<open>Errors and state\<close>

datatype encoder_error =
    EInsertion dynamic_error
  | EInvalidString string_error
  | EInvalidInteger int_error
  | EUnknownDecoderInstruction u8

text \<open>\<open>InvalidBase\<close> is \<open>unreachable!\<close>, a panic.\<close>

fun e_parse :: "(parse_error, 'a) result \<Rightarrow> (encoder_error, 'a) result" where
  "e_parse (Ok x) = Ok x"
| "e_parse (Err (PInteger x)) = Err (EInvalidInteger x)"
| "e_parse (Err (PString x)) = Err (EInvalidString x)"
| "e_parse (Err (InvalidPrefix x)) = Err (EUnknownDecoderInstruction x)"
| "e_parse (Err (InvalidBase b)) = Panic"
| "e_parse Panic = Panic"

record encode_state =
  es_table :: table_encoder
  es_block :: bytes
  es_encoder :: bytes

definition put_block :: "(string_error, bytes) result \<Rightarrow> encode_state \<Rightarrow>
    (encoder_error, unit) result \<times> encode_state" where
  "put_block r s =
     st_then (map_err EInvalidString r, s) (\<lambda>bs s. (Ok (), s\<lparr>es_block := es_block s @ bs\<rparr>))"

definition put_encoder :: "(string_error, bytes) result \<Rightarrow> encode_state \<Rightarrow>
    (encoder_error, unit) result \<times> encode_state" where
  "put_encoder r s =
     st_then (map_err EInvalidString r, s) (\<lambda>bs s. (Ok (), s\<lparr>es_encoder := es_encoder s @ bs\<rparr>))"

section \<open>Encoding a field section\<close>

fun encode_insertion :: "dynamic_insertion_result \<Rightarrow> header_field \<Rightarrow> encode_state \<Rightarrow>
    (encoder_error, nat option) result \<times> encode_state" where
  "encode_insertion (Duplicated relative postbase absolute) field s =
     st_then (put_encoder (duplicate_encode relative) s) (\<lambda>_ s.
     st_then (put_block (indexed_post_base_encode postbase) s) (\<lambda>_ s. (Ok (Some absolute), s)))"
| "encode_insertion (Inserted postbase absolute) field s =
     st_then (put_encoder (insert_without_name_ref_encode
         \<lparr>iwn_name = hf_name field, iwn_value = hf_value field\<rparr>) s) (\<lambda>_ s.
     st_then (put_block (indexed_post_base_encode postbase) s) (\<lambda>_ s. (Ok (Some absolute), s)))"
| "encode_insertion (InsertedWithStaticNameRef postbase index absolute) field s =
     st_then (put_encoder (insert_with_name_ref_encode (InsStatic index (hf_value field))) s) (\<lambda>_ s.
     st_then (put_block (indexed_post_base_encode postbase) s) (\<lambda>_ s. (Ok (Some absolute), s)))"
| "encode_insertion (InsertedWithNameRef postbase relative absolute) field s =
     st_then (put_encoder (insert_with_name_ref_encode (InsDynamic relative (hf_value field))) s) (\<lambda>_ s.
     st_then (put_block (indexed_post_base_encode postbase) s) (\<lambda>_ s. (Ok (Some absolute), s)))"
| "encode_insertion (NotInserted (LookupStatic index)) field s =
     st_then (put_block (literal_name_ref_encode (LitStatic index (hf_value field))) s) (\<lambda>_ s. (Ok None, s))"
| "encode_insertion (NotInserted (LookupRelative index absolute)) field s =
     st_then (put_block (literal_name_ref_encode (LitDynamic index (hf_value field))) s) (\<lambda>_ s.
       (Ok (Some absolute), s))"
| "encode_insertion (NotInserted (LookupPostBase index absolute)) field s =
     st_then (put_block (literal_post_base_encode \<lparr>lpb_index = index, lpb_value = hf_value field\<rparr>) s) (\<lambda>_ s.
       (Ok (Some absolute), s))"
| "encode_insertion (NotInserted NotFound) field s =
     st_then (put_block (literal_encode \<lparr>lit_name = hf_name field, lit_value = hf_value field\<rparr>) s) (\<lambda>_ s.
       (Ok None, s))"

definition encode_field :: "header_field \<Rightarrow> encode_state \<Rightarrow> (encoder_error, nat option) result \<times> encode_state" where
  "encode_field field s =
     (case static_find field of
        Some index \<Rightarrow>
          st_then (put_block (indexed_encode (IndexedStatic index)) s) (\<lambda>_ s. (Ok None, s))
      | None \<Rightarrow>
          (case te_find (es_table s) field of
             (LookupRelative index absolute, e1) \<Rightarrow>
               st_then (put_block (indexed_encode (IndexedDynamic index)) (s\<lparr>es_table := e1\<rparr>)) (\<lambda>_ s.
                 (Ok (Some absolute), s))
           | (_, e1) \<Rightarrow>
               (case te_insert e1 field of
                  (r, e2) \<Rightarrow>
                    st_then (map_err EInsertion r, s\<lparr>es_table := e2\<rparr>) (\<lambda>r s. encode_insertion r field s))))"

fun encode_fields :: "header_field list \<Rightarrow> nat \<Rightarrow> encode_state \<Rightarrow> (encoder_error, nat) result \<times> encode_state" where
  "encode_fields [] required_ref s = (Ok required_ref, s)"
| "encode_fields (field # fs) required_ref s =
     st_then (encode_field field s) (\<lambda>reference s.
       encode_fields fs
         (case reference of Some r \<Rightarrow> max required_ref r | None \<Rightarrow> required_ref) s)"

text \<open>The result, the table, and what was appended to the block and to the encoder stream.\<close>

definition qpack_encode :: "dynamic_table \<Rightarrow> nat \<Rightarrow> header_field list \<Rightarrow>
    (encoder_error, nat) result \<times> dynamic_table \<times> bytes \<times> bytes" where
  "qpack_encode tbl stream_id fs =
     (case table_encoder_new tbl stream_id of
        Ok e \<Rightarrow>
          (case encode_fields fs 0 \<lparr>es_table = e, es_block = [], es_encoder = []\<rparr> of
             (Ok required_ref, s) \<Rightarrow>
               (let e1 = es_table s in
                case and_then (header_prefix_new required_ref (te_base e1) (te_total_inserted e1) (te_max_size e1))
                       header_prefix_encode of
                  Ok bs \<Rightarrow> (Ok required_ref, te_drop (te_commit e1 required_ref), bs @ es_block s, es_encoder s)
                | Err err \<Rightarrow> (Err err, te_drop e1, [], es_encoder s)
                | Panic \<Rightarrow> (Panic, te_drop e1, [], es_encoder s))
           | (Err err, s) \<Rightarrow> (Err err, te_drop (es_table s), [], es_encoder s)
           | (Panic, s) \<Rightarrow> (Panic, te_drop (es_table s), [], es_encoder s))
      | Err err \<Rightarrow> (Err err, tbl, [], [])
      | Panic \<Rightarrow> (Panic, tbl, [], []))"

section \<open>Without the dynamic table\<close>

definition stateless_line :: "header_field \<Rightarrow> (encoder_error, bytes) result" where
  "stateless_line field =
     (case static_find field of
        Some index \<Rightarrow> indexed_encode (IndexedStatic index)
      | None \<Rightarrow>
          (case static_find_name (hf_name field) of
             Some index \<Rightarrow>
               map_err EInvalidString (literal_name_ref_encode (LitStatic index (hf_value field)))
           | None \<Rightarrow>
               map_err EInvalidString
                 (literal_encode \<lparr>lit_name = hf_name field, lit_value = hf_value field\<rparr>)))"

fun encode_stateless_loop :: "header_field list \<Rightarrow> nat \<Rightarrow> (encoder_error, nat \<times> bytes) result" where
  "encode_stateless_loop [] sz = Ok (sz, [])"
| "encode_stateless_loop (field # fs) sz =
     and_then (stateless_line field) (\<lambda>bs.
     and_then (uadd sz (mem_size field)) (\<lambda>sz1.
     and_then (encode_stateless_loop fs sz1) (\<lambda>(total_size, more_bytes).
       Ok (total_size, bs @ more_bytes))))"

definition encode_stateless :: "header_field list \<Rightarrow> (encoder_error, nat \<times> bytes) result" where
  "encode_stateless fs =
     and_then (and_then (header_prefix_new 0 0 0 0) header_prefix_encode) (\<lambda>prefix.
     and_then (encode_stateless_loop fs 0) (\<lambda>(sz, block). Ok (sz, prefix @ block)))"

section \<open>The decoder stream\<close>

datatype action = ReceivedRefIncrement nat | Untrack nat | StreamCancel nat

definition action_parse :: "bytes \<Rightarrow> (encoder_error, (action \<times> bytes) option) result" where
  "action_parse read =
     (case read of
        [] \<Rightarrow> Ok None
      | first # _ \<Rightarrow>
          (case decoder_instruction_decode first of
             DIUnknown \<Rightarrow> Err (EUnknownDecoderInstruction first)
           | DIInsertCountIncrement \<Rightarrow>
               map_ok (map_some ReceivedRefIncrement) (e_parse (insert_count_increment_decode read))
           | DIHeaderAck \<Rightarrow> map_ok (map_some Untrack) (e_parse (header_ack_decode read))
           | DIStreamCancel \<Rightarrow> map_ok (map_some StreamCancel) (e_parse (stream_cancel_decode read))))"

lemma e_parse_Ok [res_simps]: "e_parse r = Ok x \<longleftrightarrow> r = Ok x"
  by (cases r rule: e_parse.cases) auto

lemma action_parse_consumes [consumes]:
  "action_parse read = Ok (Some (a, rest)) \<Longrightarrow> length rest < length read"
  by (auto simp: action_parse_def res_simps split: list.split_asm decoder_instruction.split_asm)
    (auto dest!: consumes)+

definition apply_action :: "action \<Rightarrow> dynamic_table \<Rightarrow> (dynamic_error, unit) result \<times> dynamic_table" where
  "apply_action a tbl =
     (case a of
        Untrack stream_id \<Rightarrow> untrack_block tbl stream_id
      | StreamCancel stream_id \<Rightarrow>
          (case untrack_block tbl stream_id of
             (Ok _, tbl1) \<Rightarrow>
               (case untrack_block tbl1 stream_id of
                  (Panic, tbl2) \<Rightarrow> (Panic, tbl2)
                | (_, tbl2) \<Rightarrow> (Ok (), tbl2))
           | (Err _, tbl1) \<Rightarrow> (Ok (), tbl1)
           | (Panic, tbl1) \<Rightarrow> (Panic, tbl1))
      | ReceivedRefIncrement increment \<Rightarrow> update_largest_received tbl increment)"

function on_decoder_recv ::
  "dynamic_table \<Rightarrow> bytes \<Rightarrow> (encoder_error, unit) result \<times> dynamic_table \<times> bytes"
where
  "on_decoder_recv tbl read =
     (case action_parse read of
        Ok None \<Rightarrow> (Ok (), tbl, read)
      | Ok (Some (a, rest)) \<Rightarrow>
          (case apply_action a tbl of
             (Ok _, tbl1) \<Rightarrow> on_decoder_recv tbl1 rest
           | (Err e, tbl1) \<Rightarrow> (Err (EInsertion e), tbl1, rest)
           | (Panic, tbl1) \<Rightarrow> (Panic, tbl1, rest))
      | Err e \<Rightarrow> (Err e, tbl, read)
      | Panic \<Rightarrow> (Panic, tbl, read))"
  by pat_completeness auto

termination on_decoder_recv
  by (relation "measure (\<lambda>(tbl, read). length read)") (auto dest: consumes)

declare on_decoder_recv.simps [simp del]

definition set_dynamic_table_size :: "dynamic_table \<Rightarrow> nat \<Rightarrow>
    (encoder_error, bytes) result \<times> dynamic_table" where
  "set_dynamic_table_size tbl n =
     (case set_max_size tbl n of
        (Ok _, tbl1) \<Rightarrow> (size_update_encode n, tbl1)
      | (Err e, tbl1) \<Rightarrow> (Err (EInsertion e), tbl1)
      | (Panic, tbl1) \<Rightarrow> (Panic, tbl1))"

section \<open>Stateless round trip\<close>

definition field_ok :: "header_field \<Rightarrow> bool" where
  "field_ok f \<longleftrightarrow> string_ok (hf_name f) \<and> string_ok (hf_value f)"

definition fields_mem_size :: "header_field list \<Rightarrow> nat" where
  "fields_mem_size fs = sum_list (map mem_size fs)"

lemma static_index_ok: "i < 99 \<Longrightarrow> index_ok i"
  by (simp add: index_ok_def)

lemma stateless_line_dec_enc:
  assumes "field_ok f"
  shows "\<exists>bs. stateless_line f = Ok bs \<and> bs \<noteq> [] \<and> (\<forall>rest. stateless_field (bs @ rest) = Ok (f, rest))"
proof -
  have nv: "string_ok (hf_name f)" "string_ok (hf_value f)" using assms by (auto simp: field_ok_def)
  show ?thesis
  proof (cases "static_find f")
    case (Some i)
    then have i: "i < 99" "static_get i = Ok f" using static_find_Some_iff static_find_get by auto
    obtain bs where bs: "(indexed_encode (IndexedStatic i) :: (encoder_error, bytes) result) = Ok bs" "line_start HBIndexed bs"
        "\<And>rest. indexed_decode (bs @ rest) = Ok (IndexedStatic i, rest)"
      using indexed_dec_enc [of "IndexedStatic i"] static_index_ok [OF i(1)] by auto
    then obtain b tl where "bs = b # tl" "header_block_field_decode b = HBIndexed"
      by (cases bs) (auto simp: line_start_def)
    with bs(3) have "stateless_field (bs @ rest) = Ok (f, rest)" for rest
      using i(2) bs(3) [of rest] by (simp add: stateless_field_def)
    with Some bs(1) \<open>bs = b # tl\<close> show ?thesis by (auto simp: stateless_line_def)
  next
    case None
    show ?thesis
    proof (cases "static_find_name (hf_name f)")
      case (Some i)
      then have i: "i < 99" "hf_name (PREDEFINED_HEADERS ! i) = hf_name f" using static_find_name_Some by auto
      let ?l = "LitStatic i (hf_value f)"
      obtain bs where bs: "literal_name_ref_encode ?l = Ok bs" "line_start HBLiteralWithNameRef bs"
          "\<And>rest. literal_name_ref_decode (bs @ rest) = Ok (?l, rest)"
        using literal_name_ref_dec_enc [of ?l] static_index_ok [OF i(1)] nv by auto
      then obtain b tl where b: "bs = b # tl" "header_block_field_decode b = HBLiteralWithNameRef"
        by (cases bs) (auto simp: line_start_def)
      have "stateless_field (bs @ rest) = Ok (f, rest)" for rest
        using i b bs(3) [of rest] by (simp add: stateless_field_def with_value_def)
      with None Some bs(1) b show ?thesis by (auto simp: stateless_line_def)
    next
      case none: None
      let ?l = "\<lparr>lit_name = hf_name f, lit_value = hf_value f\<rparr>"
      obtain bs where bs: "literal_encode ?l = Ok bs" "line_start HBLiteral bs"
          "\<And>rest. literal_decode (bs @ rest) = Ok (?l, rest)"
        using literal_dec_enc [of ?l] nv by auto
      then obtain b tl where b: "bs = b # tl" "header_block_field_decode b = HBLiteral"
        by (cases bs) (auto simp: line_start_def)
      have "stateless_field (bs @ rest) = Ok (f, rest)" for rest
        using b bs(3) [of rest] by (simp add: stateless_field_def header_field_new_def)
      with None none bs(1) b show ?thesis by (auto simp: stateless_line_def)
    qed
  qed
qed

text \<open>The size at which the limit is exceeded, if it is.\<close>

fun excess :: "nat \<Rightarrow> nat \<Rightarrow> header_field list \<Rightarrow> nat option" where
  "excess max_size msize [] = None"
| "excess max_size msize (f # fs) =
     (if msize + mem_size f > max_size then Some (msize + mem_size f)
      else excess max_size (msize + mem_size f) fs)"

lemma fields_mem_size_simps [simp]:
  "fields_mem_size [] = 0"
  "fields_mem_size (f # fs) = mem_size f + fields_mem_size fs"
  by (simp_all add: fields_mem_size_def)

lemma excess_spec:
  assumes "msize \<le> max_size"
  shows "case excess max_size msize fs of
     None \<Rightarrow> msize + fields_mem_size fs \<le> max_size
   | Some n \<Rightarrow> max_size < n \<and> n \<le> msize + fields_mem_size fs"
  using assms
proof (induction fs arbitrary: msize)
  case (Cons f fs)
  show ?case using Cons.IH [of "msize + mem_size f"] by (auto split: option.splits)
qed simp

lemma stateless_loop_dec_enc:
  assumes "\<forall>f \<in> set fs. field_ok f" and "sz + fields_mem_size fs \<le> usize_max"
  shows "\<exists>bs. encode_stateless_loop fs sz = Ok (sz + fields_mem_size fs, bs) \<and>
    (\<forall>msize acc max_size. msize + fields_mem_size fs \<le> usize_max \<longrightarrow>
      decode_stateless_loop bs max_size msize acc =
       (case excess max_size msize fs of
          None \<Rightarrow> Ok (msize + fields_mem_size fs, acc @ fs)
        | Some n \<Rightarrow> Err (DHeaderTooLong n)))"
  using assms
proof (induction fs arbitrary: sz)
  case Nil
  then show ?case by (simp add: decode_stateless_loop.simps)
next
  case (Cons f fs)
  obtain b1 where b1: "stateless_line f = Ok b1" "b1 \<noteq> []" "\<And>rest. stateless_field (b1 @ rest) = Ok (f, rest)"
    using stateless_line_dec_enc [of f] Cons.prems(1) by auto
  obtain b2 where b2: "encode_stateless_loop fs (sz + mem_size f) = Ok (sz + mem_size f + fields_mem_size fs, b2)"
    "\<And>msize acc max_size. msize + fields_mem_size fs \<le> usize_max \<Longrightarrow>
      decode_stateless_loop b2 max_size msize acc =
       (case excess max_size msize fs of
          None \<Rightarrow> Ok (msize + fields_mem_size fs, acc @ fs)
        | Some n \<Rightarrow> Err (DHeaderTooLong n))"
    using Cons.IH [of "sz + mem_size f"] Cons.prems by (auto simp: add.assoc)
  have "encode_stateless_loop (f # fs) sz = Ok (sz + fields_mem_size (f # fs), b1 @ b2)"
    using b1(1) b2(1) Cons.prems(2) by (simp add: add.assoc)
  moreover have "decode_stateless_loop (b1 @ b2) max_size msize acc =
       (case excess max_size msize (f # fs) of
          None \<Rightarrow> Ok (msize + fields_mem_size (f # fs), acc @ f # fs)
        | Some n \<Rightarrow> Err (DHeaderTooLong n))"
    if "msize + fields_mem_size (f # fs) \<le> usize_max" for msize acc max_size
    using that b1(2) b1(3) [of b2] b2(2) [of "msize + mem_size f" max_size "acc @ [f]"]
    by (subst decode_stateless_loop.simps) (auto simp: add.assoc split: option.split)
  ultimately show ?case by blast
qed

lemma empty_prefix:
  "\<exists>bs. and_then (header_prefix_new 0 0 0 0) header_prefix_encode = (Ok bs :: ('e, bytes) result) \<and>
    (\<forall>rest. header_prefix_decode (bs @ rest) =
      Ok (\<lparr>hp_encoded_insert_count = 0, hp_sign_negative = False, hp_delta_base = 0\<rparr>, rest))"
  using header_prefix_dec_enc [of "\<lparr>hp_encoded_insert_count = 0, hp_sign_negative = False, hp_delta_base = 0\<rparr>"]
  by (simp add: header_prefix_new_def index_ok_def)

lemma stateless_roundtrip_spec:
  assumes "\<forall>f \<in> set fs. field_ok f" and "fields_mem_size fs \<le> usize_max"
  shows "\<exists>block. encode_stateless fs = Ok (fields_mem_size fs, block) \<and>
    (if fields_mem_size fs \<le> max_size
     then decode_stateless block max_size =
       Ok \<lparr>dec_fields = fs, dec_dyn_ref = False, dec_mem_size = fields_mem_size fs\<rparr>
     else \<exists>n. max_size < n \<and> n \<le> fields_mem_size fs \<and>
       decode_stateless block max_size = Err (DHeaderTooLong n))"
proof -
  obtain p where p: "and_then (header_prefix_new 0 0 0 0) header_prefix_encode = (Ok p :: (encoder_error, bytes) result)"
      "\<And>rest. header_prefix_decode (p @ rest) =
        Ok (\<lparr>hp_encoded_insert_count = 0, hp_sign_negative = False, hp_delta_base = 0\<rparr>, rest)"
    using empty_prefix by blast
  obtain bs where bs: "encode_stateless_loop fs 0 = Ok (fields_mem_size fs, bs)"
    "decode_stateless_loop bs max_size 0 [] =
       (case excess max_size 0 fs of None \<Rightarrow> Ok (fields_mem_size fs, fs) | Some n \<Rightarrow> Err (DHeaderTooLong n))"
    using stateless_loop_dec_enc [OF assms(1), of 0] assms(2) by (auto split: option.split)
  have enc: "encode_stateless fs = Ok (fields_mem_size fs, p @ bs)"
    using p(1) bs(1) by (simp add: encode_stateless_def)
  have dec: "decode_stateless (p @ bs) max_size =
      (case excess max_size 0 fs of
         None \<Rightarrow> Ok \<lparr>dec_fields = fs, dec_dyn_ref = False, dec_mem_size = fields_mem_size fs\<rparr>
       | Some n \<Rightarrow> Err (DHeaderTooLong n))"
    using p(2) [of bs] bs(2) by (auto simp: decode_stateless_def header_prefix_get_def split: option.split)
  show ?thesis
    using enc dec excess_spec [of 0 max_size fs] by (auto split: option.splits)
qed

text \<open>
  C18: a field section encoded without the dynamic table decodes to the same fields in the
  same order, with the size the encoder reported, when the limit allows it; otherwise decoding
  stops with the size that exceeded the limit, before the fields behind it are kept.
\<close>
theorem stateless_roundtrip:
  assumes "\<forall>f \<in> set fs. field_ok f" and "fields_mem_size fs \<le> usize_max"
  shows "\<exists>block. encode_stateless fs = Ok (fields_mem_size fs, block) \<and>
    (if fields_mem_size fs \<le> max_size
     then decode_stateless block max_size =
       Ok \<lparr>dec_fields = fs, dec_dyn_ref = False, dec_mem_size = fields_mem_size fs\<rparr>
     else \<exists>n. max_size < n \<and> n \<le> fields_mem_size fs \<and>
       decode_stateless block max_size = Err (DHeaderTooLong n))"
  using assms by (rule stateless_roundtrip_spec)

theorem stateless_roundtrip_witness:
  "\<exists>block. encode_stateless [\<lparr>hf_name = ascii '':method'', hf_value = ascii ''GET''\<rparr>,
      \<lparr>hf_name = [120], hf_value = [121, 122]\<rparr>] = Ok (77, block) \<and>
    decode_stateless block 77 = Ok \<lparr>dec_fields = [\<lparr>hf_name = ascii '':method'', hf_value = ascii ''GET''\<rparr>,
      \<lparr>hf_name = [120], hf_value = [121, 122]\<rparr>], dec_dyn_ref = False, dec_mem_size = 77\<rparr>"
  using stateless_roundtrip [of "[\<lparr>hf_name = ascii '':method'', hf_value = ascii ''GET''\<rparr>,
      \<lparr>hf_name = [120], hf_value = [121, 122]\<rparr>]" 77]
  by (simp add: field_ok_def string_ok_def mem_size_def ESTIMATED_OVERHEAD_BYTES_def usize_max_def)

end
