(* ===== verification/TableInvariant.thy ===== *)
theory TableInvariant
  imports DynamicTable
begin

text \<open>
  The invariant of the dynamic table of \<open>h3/src/qpack/dynamic.rs\<close> and what each operation
  does to the abstract table, the map from absolute indices to entries: eviction removes the
  oldest addresses and nothing else, insertion adds one, a tracked address is never removed,
  the size limit holds, and no operation panics.
\<close>

section \<open>Abstraction and invariant\<close>

definition dt_addr :: "dynamic_table \<Rightarrow> nat \<Rightarrow> header_field option" where
  "dt_addr t a =
     (if vas_live (dt_vas t) a then Some (dt_fields t ! vas_pos (dt_vas t) a) else None)"

definition fields_size :: "header_field list \<Rightarrow> nat" where
  "fields_size fs = sum_list (map mem_size fs)"

definition dt_maps_ok :: "dynamic_table \<Rightarrow> bool" where
  "dt_maps_ok t \<longleftrightarrow>
     (\<forall>f a. dt_field_map t f = Some a \<longrightarrow> dt_addr t a = Some f) \<and>
     (\<forall>n a. dt_name_map t n = Some a \<longrightarrow> map_option hf_name (dt_addr t a) = Some n) \<and>
     (\<forall>a. is_tracked t a \<longrightarrow> vas_live (dt_vas t) a)"

definition dt_inv :: "dynamic_table \<Rightarrow> bool" where
  "dt_inv t \<longleftrightarrow> vas_inv (dt_vas t) \<and> vas_delta (dt_vas t) = length (dt_fields t) \<and>
     dt_curr_size t = fields_size (dt_fields t) \<and> dt_curr_size t \<le> dt_max_size t \<and>
     dt_max_size t \<le> SETTINGS_MAX_TABLE_CAPACITY_MAX \<and> dt_maps_ok t"

text \<open>The part of the table that insertion and eviction do not touch.\<close>

definition same_tracking :: "dynamic_table \<Rightarrow> dynamic_table \<Rightarrow> bool" where
  "same_tracking t t' \<longleftrightarrow> dt_track_map t' = dt_track_map t \<and> dt_track_blocks t' = dt_track_blocks t \<and>
     dt_largest_known_received t' = dt_largest_known_received t \<and>
     dt_blocked_max t' = dt_blocked_max t \<and> dt_blocked_count t' = dt_blocked_count t \<and>
     dt_blocked_streams t' = dt_blocked_streams t"

named_theorems table_defs \<open>definitions of the abstract table\<close>

lemma same_tracking_refl [simp]: "same_tracking t t"
  by (simp add: same_tracking_def)

lemma same_tracking_trans: "same_tracking t u \<Longrightarrow> same_tracking u v \<Longrightarrow> same_tracking t v"
  by (simp add: same_tracking_def)

lemma same_tracking_is_tracked: "same_tracking t t' \<Longrightarrow> is_tracked t' a = is_tracked t a"
  by (simp add: same_tracking_def is_tracked_def)

lemma fields_size_simps [simp]:
  "fields_size [] = 0"
  "fields_size (f # fs) = mem_size f + fields_size fs"
  "fields_size (fs @ gs) = fields_size fs + fields_size gs"
  by (simp_all add: fields_size_def)

lemma fields_size_drop: "fields_size (drop n fs) \<le> fields_size fs"
  by (subst (2) append_take_drop_id [of n, symmetric]) (simp only: fields_size_simps le_add2)

lemma fields_size_length: "32 * length fs \<le> fields_size fs"
  by (induction fs) (simp_all add: mem_size_def ESTIMATED_OVERHEAD_BYTES_def)

lemma dt_inv_new [simp]: "dt_inv dynamic_table_new"
  by (simp add: dt_inv_def dynamic_table_new_def dt_maps_ok_def is_tracked_def vas_default_def
      vas_inv_def usize_max_def)

lemma dt_invD:
  assumes "dt_inv t"
  shows "vas_inv (dt_vas t)" and "vas_delta (dt_vas t) = length (dt_fields t)"
    and "dt_curr_size t = fields_size (dt_fields t)" and "fields_size (dt_fields t) \<le> dt_max_size t"
    and "dt_max_size t \<le> SETTINGS_MAX_TABLE_CAPACITY_MAX" and "dt_maps_ok t"
    and "vas_inserted (dt_vas t) = vas_dropped (dt_vas t) + length (dt_fields t)"
  using assms by (auto simp: dt_inv_def vas_inv_def)

lemma dt_maps_okD:
  assumes "dt_maps_ok t"
  shows "dt_field_map t f = Some a \<Longrightarrow> dt_addr t a = Some f"
    and "dt_name_map t n = Some a \<Longrightarrow> \<exists>g. dt_addr t a = Some g \<and> hf_name g = n"
    and "is_tracked t a \<Longrightarrow> vas_live (dt_vas t) a"
  using assms by (auto simp: dt_maps_ok_def)

lemma dt_addr_Some_live: "dt_addr t a = Some f \<Longrightarrow> vas_live (dt_vas t) a"
  by (simp add: dt_addr_def split: if_splits)

lemma dt_addr_cong:
  "dt_vas t' = dt_vas t \<Longrightarrow> dt_fields t' = dt_fields t \<Longrightarrow> dt_addr t' = dt_addr t"
  by (simp add: dt_addr_def fun_eq_iff)

lemma dt_addr_updates [simp]:
  "dt_addr (t\<lparr>dt_curr_size := x0\<rparr>) = dt_addr t"
  "dt_addr (t\<lparr>dt_max_size := x1\<rparr>) = dt_addr t"
  "dt_addr (t\<lparr>dt_field_map := x2\<rparr>) = dt_addr t"
  "dt_addr (t\<lparr>dt_name_map := x3\<rparr>) = dt_addr t"
  "dt_addr (t\<lparr>dt_track_map := x4\<rparr>) = dt_addr t"
  "dt_addr (t\<lparr>dt_track_blocks := x5\<rparr>) = dt_addr t"
  "dt_addr (t\<lparr>dt_largest_known_received := x6\<rparr>) = dt_addr t"
  "dt_addr (t\<lparr>dt_blocked_max := x7\<rparr>) = dt_addr t"
  "dt_addr (t\<lparr>dt_blocked_count := x8\<rparr>) = dt_addr t"
  "dt_addr (t\<lparr>dt_blocked_streams := x9\<rparr>) = dt_addr t"
  by (simp_all add: dt_addr_def fun_eq_iff)

lemma is_tracked_updates [simp]:
  "is_tracked (t\<lparr>dt_fields := y0\<rparr>) = is_tracked t"
  "is_tracked (t\<lparr>dt_vas := y1\<rparr>) = is_tracked t"
  "is_tracked (t\<lparr>dt_curr_size := y2\<rparr>) = is_tracked t"
  "is_tracked (t\<lparr>dt_max_size := y3\<rparr>) = is_tracked t"
  "is_tracked (t\<lparr>dt_field_map := y4\<rparr>) = is_tracked t"
  "is_tracked (t\<lparr>dt_name_map := y5\<rparr>) = is_tracked t"
  "is_tracked (t\<lparr>dt_track_blocks := y6\<rparr>) = is_tracked t"
  "is_tracked (t\<lparr>dt_largest_known_received := y7\<rparr>) = is_tracked t"
  "is_tracked (t\<lparr>dt_blocked_max := y8\<rparr>) = is_tracked t"
  "is_tracked (t\<lparr>dt_blocked_count := y9\<rparr>) = is_tracked t"
  "is_tracked (t\<lparr>dt_blocked_streams := y10\<rparr>) = is_tracked t"
  by (simp_all add: is_tracked_def fun_eq_iff)

lemma dt_maps_ok_mono:
  assumes "dt_maps_ok t" and "\<And>a f. dt_addr t a = Some f \<Longrightarrow> dt_addr t' a = Some f"
    and "\<And>a. vas_live (dt_vas t) a \<Longrightarrow> vas_live (dt_vas t') a"
    and "dt_field_map t' = dt_field_map t" and "dt_name_map t' = dt_name_map t"
    and "dt_track_map t' = dt_track_map t"
  shows "dt_maps_ok t'"
  unfolding dt_maps_ok_def
proof (intro conjI allI impI)
  fix f n a
  show "dt_addr t' a = Some f" if "dt_field_map t' f = Some a"
    using that assms(2,4) dt_maps_okD(1) [OF assms(1)] by simp
  show "map_option hf_name (dt_addr t' a) = Some n" if "dt_name_map t' n = Some a"
    using that assms(2,5) dt_maps_okD(2) [OF assms(1)] by fastforce
  show "vas_live (dt_vas t') a" if "is_tracked t' a"
    using that assms(3,6) dt_maps_okD(3) [OF assms(1)] by (simp add: is_tracked_def)
qed

lemma dt_inv_cong:
  assumes "dt_inv t" and "dt_maps_ok t'" and "dt_vas t' = dt_vas t" and "dt_fields t' = dt_fields t"
    and "dt_curr_size t' = dt_curr_size t" and "dt_max_size t' = dt_max_size t"
  shows "dt_inv t'"
  using assms by (simp add: dt_inv_def)

section \<open>Eviction\<close>

definition evicted_by :: "nat \<Rightarrow> dynamic_table \<Rightarrow> dynamic_table \<Rightarrow> bool" where
  "evicted_by n t t' \<longleftrightarrow> dt_inv t' \<and> same_tracking t t' \<and> dt_fields t' = drop n (dt_fields t) \<and>
     dt_vas t' = \<lparr>vas_inserted = vas_inserted (dt_vas t), vas_dropped = vas_dropped (dt_vas t) + n,
                 vas_delta = vas_delta (dt_vas t) - n\<rparr> \<and>
     dt_max_size t' = dt_max_size t \<and>
     dt_addr t' = (\<lambda>a. if a \<le> vas_dropped (dt_vas t) + n then None else dt_addr t a) \<and>
     (\<forall>k a. dt_field_map t' k = Some a \<longrightarrow> dt_field_map t k = Some a) \<and>
     (\<forall>k a. dt_name_map t' k = Some a \<longrightarrow> dt_name_map t k = Some a)"

lemma forget_evicted_Some:
  "forget_evicted v k m x = Some a \<longleftrightarrow> m x = Some a \<and> \<not> (x = k \<and> vas_evicted v a)"
  by (auto simp: forget_evicted_def split: option.splits if_splits)

lemma evict_front_spec:
  assumes inv: "dt_inv t" and fs: "dt_fields t = field # rest"
    and free: "\<not> is_tracked t (Suc (vas_dropped (dt_vas t)))"
  shows "\<exists>t'. evict_front field rest t = (Ok (), t') \<and> evicted_by 1 t t'"
proof -
  let ?v = "dt_vas t"
  let ?v' = "?v\<lparr>vas_dropped := Suc (vas_dropped ?v), vas_delta := vas_delta ?v - 1\<rparr>"
  note d = dt_invD [OF inv]
  have drop: "vas_drop ?v = (Ok ?v' :: (dynamic_error, vas) result)" and inv': "vas_inv ?v'"
    using vas_drop_spec [of ?v] d fs by auto
  define t' where "t' = t\<lparr>dt_fields := rest, dt_curr_size := dt_curr_size t - mem_size field,
     dt_vas := ?v', dt_name_map := forget_evicted ?v' (hf_name field) (dt_name_map t),
     dt_field_map := forget_evicted ?v' field (dt_field_map t)\<rparr>"
  have eq: "evict_front field rest t = (Ok (), t')"
    using d(3) fs drop by (simp add: evict_front_def t'_def Let_def)
  have addr: "dt_addr t' = (\<lambda>a. if a \<le> Suc (vas_dropped ?v) then None else dt_addr t a)"
  proof
    fix a
    show "dt_addr t' a = (if a \<le> Suc (vas_dropped ?v) then None else dt_addr t a)"
    proof (cases "a \<le> Suc (vas_dropped ?v)")
      case False
      then obtain i where "a = vas_dropped ?v + Suc (Suc i)" by (auto dest!: less_imp_Suc_add simp: not_le)
      then show ?thesis by (simp add: dt_addr_def t'_def vas_live_def vas_pos_def fs)
    qed (simp add: dt_addr_def t'_def vas_live_def)
  qed
  have first: "dt_addr t (Suc (vas_dropped ?v)) = Some field"
    using d(7) fs by (simp add: dt_addr_def vas_live_def vas_pos_def)
  have only: "a = Suc (vas_dropped ?v)" if "dt_addr t a = Some g" "a \<le> Suc (vas_dropped ?v)" for a g
    using dt_addr_Some_live [OF that(1)] that(2) by (simp add: vas_live_def)
  have "dt_maps_ok t'"
    unfolding dt_maps_ok_def
  proof (intro conjI allI impI)
    fix f a assume "dt_field_map t' f = Some a"
    then have *: "dt_field_map t f = Some a" "\<not> (f = field \<and> vas_evicted ?v' a)"
      by (simp_all add: t'_def forget_evicted_Some)
    note f = dt_maps_okD(1) [OF d(6) *(1)]
    have "\<not> a \<le> Suc (vas_dropped ?v)"
    proof
      assume le: "a \<le> Suc (vas_dropped ?v)"
      with only [OF f] first f have "f = field" by simp
      with *(2) only [OF f le] show False by (simp add: vas_evicted_def)
    qed
    with f show "dt_addr t' a = Some f" by (simp add: addr)
  next
    fix n a assume "dt_name_map t' n = Some a"
    then have *: "dt_name_map t n = Some a" "\<not> (n = hf_name field \<and> vas_evicted ?v' a)"
      by (simp_all add: t'_def forget_evicted_Some)
    then obtain g where g: "dt_addr t a = Some g" "hf_name g = n" using dt_maps_okD(2) [OF d(6)] by blast
    have "\<not> a \<le> Suc (vas_dropped ?v)"
    proof
      assume le: "a \<le> Suc (vas_dropped ?v)"
      with only [OF g(1)] first g have "n = hf_name field" by simp
      with *(2) only [OF g(1) le] show False by (simp add: vas_evicted_def)
    qed
    with g show "map_option hf_name (dt_addr t' a) = Some n" by (simp add: addr)
  next
    fix a assume "is_tracked t' a"
    then have tr: "is_tracked t a" by (simp add: t'_def is_tracked_def)
    with free have "a \<noteq> Suc (vas_dropped ?v)" by auto
    with dt_maps_okD(3) [OF d(6) tr] show "vas_live (dt_vas t') a"
      by (auto simp: t'_def vas_live_def)
  qed
  then have "dt_inv t'" using inv' d fs by (simp add: dt_inv_def t'_def)
  then have "evicted_by 1 t t'"
    using fs addr
    by (auto simp: evicted_by_def same_tracking_def forget_evicted_Some t'_def)
  with eq show ?thesis by blast
qed

lemma evicted_by_trans:
  assumes "evicted_by m t u" and "evicted_by n u v"
  shows "evicted_by (m + n) t v"
  using assms unfolding evicted_by_def
  by (auto simp: fun_eq_iff add.commute add.left_commute intro: same_tracking_trans)

lemma evict_spec:
  assumes "dt_inv t" and "n \<le> length (dt_fields t)"
    and "\<And>a. vas_dropped (dt_vas t) < a \<Longrightarrow> a \<le> vas_dropped (dt_vas t) + n \<Longrightarrow> \<not> is_tracked t a"
  shows "\<exists>t'. evict n t = (Ok (), t') \<and> evicted_by n t t'"
  using assms
proof (induction n arbitrary: t)
  case 0
  then show ?case
    by (auto simp: evicted_by_def fun_eq_iff dt_addr_def vas_live_def)
next
  case (Suc n)
  obtain field rest where fs: "dt_fields t = field # rest"
    using Suc.prems(2) by (cases "dt_fields t") auto
  obtain u where u: "evict_front field rest t = (Ok (), u)" "evicted_by 1 t u"
    using evict_front_spec [OF Suc.prems(1) fs] Suc.prems(3) by auto
  have "\<exists>t'. evict n u = (Ok (), t') \<and> evicted_by n u t'"
  proof (rule Suc.IH)
    show "dt_inv u" and "n \<le> length (dt_fields u)"
      using u(2) Suc.prems(2) by (auto simp: evicted_by_def)
    show "\<not> is_tracked u a" if "vas_dropped (dt_vas u) < a" "a \<le> vas_dropped (dt_vas u) + n" for a
      using that u(2) Suc.prems(3) [of a] same_tracking_is_tracked [of t u a]
      by (auto simp: evicted_by_def)
  qed
  then obtain v where "evict n u = (Ok (), v)" "evicted_by n u v" by blast
  then show ?case using fs u evicted_by_trans [OF u(2)] by auto
qed

section \<open>Making room\<close>

lemma can_free_loop_spec:
  assumes "dt_inv t" and "drop idx (dt_fields t) = fs" and "h = fields_size fs"
    and "idx \<le> length (dt_fields t)"
  shows "\<exists>k. can_free_loop t lb idx fs h idx = Ok (fields_size (drop k (dt_fields t)), k)
    \<and> idx \<le> k \<and> k \<le> length (dt_fields t)
    \<and> (\<forall>i. idx \<le> i \<longrightarrow> i < k \<longrightarrow> \<not> is_tracked t (vas_dropped (dt_vas t) + i + 1))
    \<and> (fields_size (drop k (dt_fields t)) \<le> lb \<or> k = length (dt_fields t)
        \<or> is_tracked t (vas_dropped (dt_vas t) + k + 1))"
  using assms(2-)
proof (induction fs arbitrary: idx h)
  case Nil
  then show ?case by (auto intro!: exI [of _ idx])
next
  case (Cons f fs)
  note d = dt_invD [OF assms(1)]
  have less: "idx < length (dt_fields t)"
  proof (rule ccontr)
    assume "\<not> idx < length (dt_fields t)"
    then have "drop idx (dt_fields t) = []" by simp
    with Cons.prems(1) show False by simp
  qed
  have rest: "drop (Suc idx) (dt_fields t) = fs"
    using Cons.prems(1) by (simp add: drop_Suc tl_drop [symmetric])
  have ix: "vas_index (dt_vas t) idx = Ok (vas_dropped (dt_vas t) + idx + 1)"
    using vas_index_eq [OF d(1)] d(2) less by simp
  show ?case
  proof (cases "h \<le> lb \<or> is_tracked t (vas_dropped (dt_vas t) + idx + 1)")
    case True
    then have "can_free_loop t lb idx (f # fs) h idx = Ok (h, idx)" by (auto simp: ix)
    with Cons.prems less True show ?thesis
      by (intro exI [of _ idx]) (auto simp del: can_free_loop.simps)
  next
    case False
    obtain k where k: "can_free_loop t lb (Suc idx) fs (fields_size fs) (Suc idx)
          = Ok (fields_size (drop k (dt_fields t)), k)"
        "Suc idx \<le> k" "k \<le> length (dt_fields t)"
        "\<forall>i. Suc idx \<le> i \<longrightarrow> i < k \<longrightarrow> \<not> is_tracked t (vas_dropped (dt_vas t) + i + 1)"
        "fields_size (drop k (dt_fields t)) \<le> lb \<or> k = length (dt_fields t)
          \<or> is_tracked t (vas_dropped (dt_vas t) + k + 1)"
      using Cons.IH [OF rest refl] less by auto
    have "can_free_loop t lb idx (f # fs) h idx = can_free_loop t lb (Suc idx) fs (fields_size fs) (Suc idx)"
      using False Cons.prems(2) by (simp add: ix)
    moreover have "\<not> is_tracked t (vas_dropped (dt_vas t) + i + 1)" if "idx \<le> i" "i < k" for i
      using that False k(4) by (cases "i = idx") auto
    ultimately show ?thesis using k(1-3,5) by auto
  qed
qed

lemma can_free_spec:
  assumes "dt_inv t"
  shows "case can_free t required of
      Ok (Some n) \<Rightarrow> n \<le> length (dt_fields t) \<and>
        required + fields_size (drop n (dt_fields t)) \<le> dt_max_size t \<and>
        (\<forall>a. vas_dropped (dt_vas t) < a \<longrightarrow> a \<le> vas_dropped (dt_vas t) + n \<longrightarrow> \<not> is_tracked t a)
    | Ok None \<Rightarrow> required \<le> dt_max_size t \<and> (\<exists>a. is_tracked t a)
    | Err e \<Rightarrow> e = MaxTableSizeReached \<and> dt_max_size t < required
    | Panic \<Rightarrow> False"
proof (cases "required > dt_max_size t \<or> dt_max_size t - dt_curr_size t \<ge> required")
  case True
  note d = dt_invD [OF assms]
  with True show ?thesis by (auto simp: can_free_def)
next
  case False
  note d = dt_invD [OF assms]
  obtain k where k: "can_free_loop t (dt_max_size t - required) 0 (dt_fields t) (dt_curr_size t) 0
      = Ok (fields_size (drop k (dt_fields t)), k)" "k \<le> length (dt_fields t)"
      "\<forall>i<k. \<not> is_tracked t (vas_dropped (dt_vas t) + i + 1)"
      "fields_size (drop k (dt_fields t)) \<le> dt_max_size t - required \<or> k = length (dt_fields t)
        \<or> is_tracked t (vas_dropped (dt_vas t) + k + 1)"
    using can_free_loop_spec [OF assms, of 0 "dt_fields t" "dt_curr_size t"] d(3) by auto
  have free: "\<not> is_tracked t a" if "vas_dropped (dt_vas t) < a" "a \<le> vas_dropped (dt_vas t) + k" for a
    using k(3) [rule_format, of "a - vas_dropped (dt_vas t) - 1"] that by auto
  have le: "fields_size (drop k (dt_fields t)) \<le> dt_max_size t"
    using fields_size_drop [of k "dt_fields t"] d(4) by simp
  show ?thesis
    using False d(3,4) k(1,2,4) free le by (auto simp: can_free_def)
qed

text \<open>The number of entries that have to go does not depend on tracking when there is room.\<close>

lemma can_free_loop_untracked:
  assumes "can_free_loop t lb idx fs h e = Ok (h', e')" and "h' \<le> lb"
    and "\<And>a. \<not> is_tracked d a" and "dt_vas d = dt_vas t"
  shows "can_free_loop d lb idx fs h e = Ok (h', e')"
  using assms
proof (induction fs arbitrary: idx h e)
  case (Cons f fs)
  show ?case
  proof (cases "h \<le> lb")
    case False
    obtain a where a: "unwrap (vas_index (dt_vas t) idx) = (Ok a :: (dynamic_error, nat) result)"
      using Cons.prems(1) False by (auto simp: res_simps)
    then show ?thesis
      using Cons False by (auto simp: res_simps split: if_splits)
  qed (use Cons in simp)
qed simp

lemma can_free_untracked:
  assumes "can_free t required = Ok (Some n)" and "\<And>a. \<not> is_tracked d a"
    and "dt_vas d = dt_vas t" and "dt_fields d = dt_fields t"
    and "dt_curr_size d = dt_curr_size t" and "dt_max_size d = dt_max_size t"
  shows "can_free d required = Ok (Some n)"
  using assms can_free_loop_untracked [of t _ 0 "dt_fields t" "dt_curr_size t" 0 _ n d]
  by (auto simp: can_free_def res_simps split: if_splits)

section \<open>Insertion\<close>

definition inserted_by :: "header_field \<Rightarrow> nat \<Rightarrow> nat \<Rightarrow> dynamic_table \<Rightarrow> dynamic_table \<Rightarrow> bool" where
  "inserted_by field index n t t' \<longleftrightarrow> dt_inv t' \<and> same_tracking t t' \<and>
     index = Suc (vas_inserted (dt_vas t)) \<and> n \<le> length (dt_fields t) \<and>
     dt_fields t' = drop n (dt_fields t) @ [field] \<and>
     dt_vas t' = \<lparr>vas_inserted = index, vas_dropped = vas_dropped (dt_vas t) + n,
                 vas_delta = Suc (vas_delta (dt_vas t) - n)\<rparr> \<and>
     dt_max_size t' = dt_max_size t \<and>
     dt_addr t' = (\<lambda>a. if a = index then Some field
                       else if a \<le> vas_dropped (dt_vas t) + n then None else dt_addr t a) \<and>
     (\<forall>k a. dt_field_map t' k = Some a \<longrightarrow> dt_field_map t k = Some a) \<and>
     (\<forall>k a. dt_name_map t' k = Some a \<longrightarrow> dt_name_map t k = Some a)"

lemma usize_max_room: "x \<le> SETTINGS_MAX_TABLE_CAPACITY_MAX \<Longrightarrow> x \<le> usize_max"
  by (simp add: SETTINGS_MAX_TABLE_CAPACITY_MAX_def usize_max_def)

lemma insert_back_spec:
  assumes inv: "dt_inv t" and room: "mem_size field + fields_size (dt_fields t) \<le> dt_max_size t"
    and "vas_inserted (dt_vas t) < usize_max"
  shows "\<exists>t'. insert_back field t = (Ok (Some (Suc (vas_inserted (dt_vas t)))), t') \<and>
    inserted_by field (Suc (vas_inserted (dt_vas t))) 0 t t'"
proof -
  let ?v = "dt_vas t"
  let ?v' = "?v\<lparr>vas_inserted := Suc (vas_inserted ?v), vas_delta := Suc (vas_delta ?v)\<rparr>"
  note d = dt_invD [OF inv]
  define t' where "t' = t\<lparr>dt_fields := dt_fields t @ [field],
     dt_curr_size := dt_curr_size t + mem_size field, dt_vas := ?v'\<rparr>"
  have add: "vas_add ?v = (Ok (Suc (vas_inserted ?v), ?v') :: (dynamic_error, nat \<times> vas) result)"
    and inv': "vas_inv ?v'"
    using vas_add_spec [OF d(1) assms(3)] by auto
  have "dt_curr_size t + mem_size field \<le> usize_max"
    using room d(3,5) usize_max_room by simp
  then have eq: "insert_back field t = (Ok (Some (Suc (vas_inserted ?v))), t')"
    using add by (simp add: insert_back_def t'_def Let_def)
  have addr: "dt_addr t' = (\<lambda>a. if a = Suc (vas_inserted ?v) then Some field else dt_addr t a)"
  proof
    fix a
    show "dt_addr t' a = (if a = Suc (vas_inserted ?v) then Some field else dt_addr t a)"
      using d(7) by (auto simp: dt_addr_def t'_def vas_live_def vas_pos_def nth_append)
  qed
  have "dt_addr t' a = Some f" if "dt_addr t a = Some f" for a f
    using that dt_addr_Some_live [OF that] by (auto simp: addr vas_live_def)
  then have "dt_maps_ok t'"
    by (rule dt_maps_ok_mono [OF d(6)]) (auto simp: t'_def vas_live_def)
  then have "dt_inv t'" using inv' room d by (simp add: dt_inv_def t'_def)
  then have "inserted_by field (Suc (vas_inserted ?v)) 0 t t'"
    using addr by (auto simp: inserted_by_def same_tracking_def t'_def fun_eq_iff dt_addr_def vas_live_def)
  with eq show ?thesis by blast
qed

lemma evicted_then_inserted:
  assumes "evicted_by n t u" and "inserted_by field index 0 u v" and "n \<le> length (dt_fields t)"
  shows "inserted_by field index n t v"
  using assms unfolding evicted_by_def inserted_by_def
  by (auto simp: fun_eq_iff intro: same_tracking_trans)

lemma table_insert_spec:
  assumes "dt_inv t" and "vas_inserted (dt_vas t) < usize_max"
  shows "case table_insert t field of
      (Ok (Some index), t') \<Rightarrow> dt_max_size t \<noteq> 0 \<and>
        (\<exists>n. can_free t (mem_size field) = Ok (Some n) \<and> inserted_by field index n t t')
    | (Ok None, t') \<Rightarrow> t' = t \<and> (dt_max_size t = 0 \<or> can_free t (mem_size field) = Ok None)
    | (Err e, t') \<Rightarrow> t' = t \<and> e = MaxTableSizeReached \<and> can_free t (mem_size field) = Err e
    | (Panic, t') \<Rightarrow> False"
proof (cases "dt_max_size t = 0")
  case True
  then show ?thesis by (simp add: table_insert_def)
next
  case max: False
  note cf = can_free_spec [OF assms(1), of "mem_size field"]
  show ?thesis
  proof (cases "can_free t (mem_size field)")
    case (Ok freed)
    show ?thesis
    proof (cases freed)
      case None
      then show ?thesis using max Ok by (simp add: table_insert_def)
    next
      case (Some n)
      with Ok cf have n: "n \<le> length (dt_fields t)"
        "mem_size field + fields_size (drop n (dt_fields t)) \<le> dt_max_size t" by auto
      obtain u where u: "evict n t = (Ok (), u)" "evicted_by n t u"
        using evict_spec [OF assms(1) n(1)] cf Ok Some by auto
      then have *: "dt_inv u" "mem_size field + fields_size (dt_fields u) \<le> dt_max_size u"
          "vas_inserted (dt_vas u) = vas_inserted (dt_vas t)"
        using n(2) by (auto simp: evicted_by_def)
      obtain v where v: "insert_back field u = (Ok (Some (Suc (vas_inserted (dt_vas u)))), v)"
          "inserted_by field (Suc (vas_inserted (dt_vas u))) 0 u v"
        using insert_back_spec [OF *(1,2)] *(3) assms(2) by auto
      have "table_insert t field = (Ok (Some (Suc (vas_inserted (dt_vas u)))), v)"
        using max Ok Some u(1) v(1) by (simp add: table_insert_def)
      then show ?thesis using evicted_then_inserted [OF u(2) v(2) n(1)] Ok Some max by auto
    qed
  qed (use max cf in \<open>auto simp: table_insert_def\<close>)
qed

text \<open>An entry that is tracked when another is inserted is still there.\<close>

lemma inserted_by_keeps:
  assumes "inserted_by field index n t t'" and "dt_inv t" and "dt_addr t a = Some f"
    and "is_tracked t a"
  shows "dt_addr t' a = Some f"
proof -
  have "is_tracked t' a"
    using assms(1,4) same_tracking_is_tracked [of t t' a] by (simp add: inserted_by_def)
  moreover have "dt_maps_ok t'" using assms(1) dt_invD(6) [of t'] by (simp add: inserted_by_def)
  ultimately have "vas_live (dt_vas t') a" using dt_maps_okD(3) by blast
  then show ?thesis
    using assms(1,3) dt_addr_Some_live [OF assms(3)] by (auto simp: inserted_by_def vas_live_def)
qed

section \<open>The operations of the decoder's table\<close>

lemma table_put_spec:
  assumes "dt_inv t" and "vas_inserted (dt_vas t) < usize_max"
  shows "case table_put t field of
      (Ok _, t') \<Rightarrow> dt_inv t' \<and> same_tracking t t' \<and> dt_max_size t' = dt_max_size t \<and>
        (dt_addr t' = dt_addr t \<and> dt_vas t' = dt_vas t \<or>
         (\<exists>k. dt_vas t' = \<lparr>vas_inserted = Suc (vas_inserted (dt_vas t)),
                vas_dropped = vas_dropped (dt_vas t) + k, vas_delta = Suc (vas_delta (dt_vas t) - k)\<rparr> \<and>
              dt_addr t' = (\<lambda>a. if a = Suc (vas_inserted (dt_vas t)) then Some field
                 else if a \<le> vas_dropped (dt_vas t) + k then None else dt_addr t a)))
    | (Err e, t') \<Rightarrow> t' = t \<and> e = MaxTableSizeReached
    | (Panic, t') \<Rightarrow> False"
proof -
  note spec = table_insert_spec [OF assms, of field]
  show ?thesis
  proof (cases "table_insert t field")
    case (Pair r t1)
    show ?thesis
    proof (cases "\<exists>index. r = Ok (Some index)")
      case False
      then consider "r = Ok None" | e where "r = Err e" | "r = Panic"
        by (metis option.exhaust result.exhaust)
      then show ?thesis
        by cases (use spec Pair assms(1) in \<open>simp_all add: table_put_def\<close>)
    next
      case True
      then obtain index n where r: "r = Ok (Some index)" and ins: "inserted_by field index n t t1"
        using spec Pair by auto
      define t2 where "t2 = t1\<lparr>dt_field_map := (dt_field_map t1)(field \<mapsto> index)\<rparr>"
      define t3 where "t3 = (if static_find_name (hf_name field) \<noteq> None then t2
        else t2\<lparr>dt_name_map := (dt_name_map t2)(hf_name field \<mapsto> index)\<rparr>)"
      have put: "table_put t field = (Ok (), t3)"
        by (simp add: table_put_def Pair r t2_def t3_def)
      have same: "dt_vas t3 = dt_vas t1" "dt_fields t3 = dt_fields t1" "same_tracking t1 t3"
          "dt_max_size t3 = dt_max_size t1" "dt_curr_size t3 = dt_curr_size t1"
        by (auto simp: t3_def t2_def same_tracking_def)
      note addr = dt_addr_cong [OF same(1,2)]
      have new: "dt_addr t1 index = Some field" using ins by (simp add: inserted_by_def)
      have ok: "dt_maps_ok t1" using ins dt_invD(6) by (auto simp: inserted_by_def)
      have "dt_addr t3 a = Some f" if "dt_field_map t3 f = Some a" for f a
        using that new dt_maps_okD(1) [OF ok] by (auto simp: t3_def t2_def split: if_splits)
      moreover have "map_option hf_name (dt_addr t3 a) = Some m" if "dt_name_map t3 m = Some a" for m a
        using that new dt_maps_okD(2) [OF ok] by (auto simp: t3_def t2_def split: if_splits)
      moreover have "vas_live (dt_vas t3) a" if "is_tracked t3 a" for a
        using that dt_maps_okD(3) [OF ok, of a] same(1,3) by (simp add: same_tracking_is_tracked)
      ultimately have "dt_maps_ok t3" by (simp add: dt_maps_ok_def)
      then have "dt_inv t3"
        using dt_inv_cong [of t1 t3] ins same by (simp add: inserted_by_def)
      moreover have "same_tracking t t3"
        using ins same(3) by (auto simp: inserted_by_def intro: same_tracking_trans)
      ultimately show ?thesis
        using put ins same by (auto simp: inserted_by_def addr)
    qed
  qed
qed

lemma set_max_size_spec:
  assumes "dt_inv t"
  shows "case set_max_size t n of
      (Ok _, t') \<Rightarrow> n \<le> SETTINGS_MAX_TABLE_CAPACITY_MAX \<and> dt_max_size t' = n \<and> same_tracking t t' \<and>
        vas_inserted (dt_vas t') = vas_inserted (dt_vas t) \<and>
        ((\<forall>a. \<not> is_tracked t a) \<longrightarrow> dt_inv t') \<and>
        (fields_size (dt_fields t') \<le> n \<longrightarrow> dt_inv t')
    | (Err e, t') \<Rightarrow> t' = t \<and> e = MaximumTableSizeTooLarge \<and> SETTINGS_MAX_TABLE_CAPACITY_MAX < n
    | (Panic, t') \<Rightarrow> False"
proof -
  note d = dt_invD [OF assms]
  have resize: "dt_inv (u\<lparr>dt_max_size := n\<rparr>)"
    if "dt_inv u" "fields_size (dt_fields u) \<le> n" "n \<le> SETTINGS_MAX_TABLE_CAPACITY_MAX" for u
  proof -
    have "dt_maps_ok (u\<lparr>dt_max_size := n\<rparr>)"
      using dt_invD(6) [OF that(1)] by (rule dt_maps_ok_mono) (simp_all add: dt_addr_def split: if_splits)
    then show ?thesis using that by (simp add: dt_inv_def)
  qed
  consider "SETTINGS_MAX_TABLE_CAPACITY_MAX < n"
    | "n \<le> SETTINGS_MAX_TABLE_CAPACITY_MAX" "dt_max_size t \<le> n"
    | (shrink) "n \<le> SETTINGS_MAX_TABLE_CAPACITY_MAX" "n < dt_max_size t" by linarith
  then show ?thesis
  proof cases
    case 1
    then show ?thesis by (simp add: set_max_size_def)
  next
    case 2
    then show ?thesis using resize [OF assms] d(4) by (simp add: set_max_size_def same_tracking_def)
  next
    case shrink
    note cf = can_free_spec [OF assms, of "dt_max_size t - n"]
    show ?thesis
    proof (cases "can_free t (dt_max_size t - n)")
      case (Ok freed)
      show ?thesis
      proof (cases freed)
        case None
        have "fields_size (dt_fields t) \<le> n \<longrightarrow> dt_inv (t\<lparr>dt_max_size := n\<rparr>)"
          using resize [OF assms] shrink by simp
        moreover have "\<exists>a. is_tracked t a" using cf Ok None by simp
        ultimately show ?thesis using shrink Ok None
          by (auto simp: set_max_size_def same_tracking_def)
      next
        case (Some k)
        then have k: "k \<le> length (dt_fields t)" "fields_size (drop k (dt_fields t)) \<le> n"
          using cf Ok shrink by auto
        obtain u where u: "evict k t = (Ok (), u)" "evicted_by k t u"
          using evict_spec [OF assms k(1)] cf Ok Some by auto
        then show ?thesis
          using shrink Ok Some resize [of u] k(2)
          by (auto simp: set_max_size_def evicted_by_def same_tracking_def)
      qed
    qed (use shrink cf in \<open>auto simp: set_max_size_def\<close>)
  qed
qed

end
