(* ===== verification/QpackTotal.thy ===== *)
theory QpackTotal
  imports QpackEncoder TableInvariant
begin

text \<open>
  What the QPACK decoder of \<open>h3/src/qpack/decoder.rs\<close> does on arbitrary input: neither decoding
  a stateless field section nor receiving the encoder stream panics, and the dynamic table
  keeps its invariant whatever the peer sends, on success and on every error.
\<close>

section \<open>Reading never panics\<close>

lemma prefix_int_no_panic: "1 \<le> sz \<Longrightarrow> sz \<le> 8 \<Longrightarrow> prefix_int_decode sz buf \<noteq> Panic"
  using prefix_int_decode_spec [of sz buf] by (auto split: result.splits)

lemma hpack_loop_length:
  assumes "hpack_decode_loop w input = Ok xs" and "end_pos w \<le> 8 * length input"
  shows "length xs + end_pos w \<le> 8 * length input"
  using assms
proof (induction w input arbitrary: xs rule: hpack_decode_loop.induct)
  case (1 w input)
  obtain r w' where n: "decode_next HPACK_STRING_decoder w input = (r, w')"
    by (cases "decode_next HPACK_STRING_decoder w input")
  show ?case
  proof (cases "\<exists>x. r = Ok (Some x)")
    case True
    then obtain x where r: "r = Ok (Some x)" by blast
    have p: "end_pos w < end_pos w'" "end_pos w' \<le> 8 * length input"
      using decode_next_progress n r by blast+
    obtain ys where ys: "hpack_decode_loop w' input = Ok ys" "xs = x # ys"
      using 1(2) n r by (auto simp: hpack_decode_loop.simps [of w] res_simps)
    with 1(1) [OF n [symmetric] r refl ys(1) p(2)] p show ?thesis by simp
  next
    case False
    then have "xs = []"
      using 1(2) n by (cases r) (auto simp: hpack_decode_loop.simps [of w] split: option.splits)
    then show ?thesis using 1(3) by simp
  qed
qed

lemma prefix_string_total:
  assumes "2 \<le> sz" and "sz \<le> 8" and "length buf < 2 ^ 28"
  shows "prefix_string_decode sz buf \<noteq> Panic"
    and "prefix_string_decode sz buf = Ok (s, rest) \<Longrightarrow> length s \<le> 8 * length buf"
proof -
  have i: "prefix_int_decode (sz - 1) buf \<noteq> Panic"
    using assms by (intro prefix_int_no_panic) simp_all
  have c: "length b1 < length buf" if "prefix_int_decode (sz - 1) buf = Ok ((f, n), b1)" for f n b1
    using that by (rule prefix_int_decode_consumes)
  have w: "end_pos bit_window_new = 0" by (simp add: bit_window_new_def)
  have h: "hpack_decode (take n b1) \<noteq> Panic" if "length b1 < length buf" for n b1
    using that assms(3) hpack_decode_no_Panic [of "take n b1" bit_window_new] w
    by (simp add: hpack_decode_def input_ok_def)
  have l: "length v \<le> 8 * length b1" if "hpack_decode (take n b1) = Ok v" for n b1 v
    using hpack_loop_length [of bit_window_new "take n b1" v] that w
    by (auto simp: hpack_decode_def min_def split: if_splits)
  show "prefix_string_decode sz buf \<noteq> Panic"
    using i h assms(1) c by (auto simp: prefix_string_decode_def Let_def res_simps split: if_splits)
  show "prefix_string_decode sz buf = Ok (s, rest) \<Longrightarrow> length s \<le> 8 * length buf"
    by (auto simp: prefix_string_decode_def Let_def res_simps split: if_splits
        dest!: prefix_int_decode_consumes l)
qed

lemma checked_usize_no_panic [simp]: "checked_usize i \<noteq> Panic"
  by (simp add: checked_usize_def)

lemma line_no_panic:
  assumes "length buf < 2 ^ 28"
  shows "indexed_decode buf \<noteq> Panic" and "indexed_post_base_decode buf \<noteq> Panic"
    and "literal_name_ref_decode buf \<noteq> Panic" and "literal_post_base_decode buf \<noteq> Panic"
    and "literal_decode buf \<noteq> Panic"
proof -
  have i: "prefix_int_decode sz b \<noteq> Panic" if "1 \<le> sz" "sz \<le> 8" for sz b
    using that by (rule prefix_int_no_panic)
  have s: "prefix_string_decode 8 b \<noteq> Panic" if "length b < length buf" for b
    using prefix_string_total(1) that assms by simp
  have s': "prefix_string_decode 4 buf \<noteq> Panic" using prefix_string_total(1) assms by simp
  note c = prefix_int_decode_consumes prefix_string_decode_consumes
  show "indexed_decode buf \<noteq> Panic"
    by (auto simp: indexed_decode_def res_simps i split: if_splits)
  show "indexed_post_base_decode buf \<noteq> Panic"
    by (auto simp: indexed_post_base_decode_def res_simps i split: if_splits)
  show "literal_name_ref_decode buf \<noteq> Panic"
    by (auto simp: literal_name_ref_decode_def res_simps i split: if_splits dest!: c simp: s)
  show "literal_post_base_decode buf \<noteq> Panic"
    by (auto simp: literal_post_base_decode_def res_simps i split: if_splits dest!: c simp: s)
  show "literal_decode buf \<noteq> Panic"
    using s' by (auto simp: literal_decode_def res_simps split: list.splits if_splits dest!: c simp: s)
qed

section \<open>Stateless field sections\<close>

lemma predefined_short: "list_all (\<lambda>(n, v). length n + length v \<le> 256) predefined_literals"
  by code_simp

lemma static_get_size:
  assumes "static_get i = Ok f"
  shows "length (hf_name f) + length (hf_value f) \<le> 256"
proof -
  have "i < 99" and f: "f = PREDEFINED_HEADERS ! i"
    using assms by (auto simp: static_get_def split: if_splits)
  then have "predefined_literals ! i \<in> set predefined_literals" by (simp add: length_predefined)
  with predefined_short f \<open>i < 99\<close> show ?thesis by (auto simp: list_all_iff predefined_nth)
qed

lemma literal_sizes:
  assumes "length buf < 2 ^ 28"
  shows "literal_name_ref_decode buf = Ok (LitStatic i v, rest) \<Longrightarrow> length v \<le> 8 * length buf"
    and "literal_decode buf = Ok (l, rest) \<Longrightarrow> length (lit_name l) + length (lit_value l) \<le> 16 * length buf"
proof -
  note c = prefix_int_decode_consumes prefix_string_decode_consumes
  have s: "length v \<le> 8 * length b" if "prefix_string_decode sz b = Ok (v, r)" "2 \<le> sz" "sz \<le> 8" "length b \<le> length buf" for sz b v r
    using prefix_string_total(2) that assms by simp
  show "literal_name_ref_decode buf = Ok (LitStatic i v, rest) \<Longrightarrow> length v \<le> 8 * length buf"
    by (auto simp: literal_name_ref_decode_def res_simps split: if_splits)
      (use s c in \<open>fastforce simp: less_imp_le\<close>)+
  assume l: "literal_decode buf = Ok (l, rest)"
  then obtain n b1 v where d: "prefix_string_decode 4 buf = Ok (n, b1)" "prefix_string_decode 8 b1 = Ok (v, rest)"
      "l = \<lparr>lit_name = n, lit_value = v\<rparr>"
    by (auto simp: literal_decode_def res_simps split: list.splits if_splits)
  have "length b1 < length buf" using c(2) [OF d(1)] .
  with s [OF d(1)] s [OF d(2)] d(3) show "length (lit_name l) + length (lit_value l) \<le> 16 * length buf" by simp
qed

lemma stateless_field_total:
  assumes "length buf < 2 ^ 28" and "buf \<noteq> []"
  shows "stateless_field buf \<noteq> Panic"
    and "stateless_field buf = Ok (f, rest) \<Longrightarrow> mem_size f \<le> 2 ^ 33"
proof -
  obtain b tl where b: "buf = b # tl" using assms(2) by (cases buf) auto
  note np = line_no_panic [OF assms(1)]
  have sg: "static_get i \<noteq> Panic" for i by (simp add: static_get_def)
  show "stateless_field buf \<noteq> Panic"
    using np sg unfolding b
    by (auto simp: stateless_field_def res_simps split: header_block_field.splits indexed.splits literal_name_ref.splits)
  assume f: "stateless_field buf = Ok (f, rest)"
  consider i where "static_get i = Ok f"
    | i v g where "literal_name_ref_decode buf = Ok (LitStatic i v, rest)" "static_get i = Ok g" "f = with_value g v"
    | l where "literal_decode buf = Ok (l, rest)" "f = header_field_new (lit_name l) (lit_value l)"
    using f unfolding b
    by (auto simp: stateless_field_def res_simps split: header_block_field.split_asm)
      (auto simp: res_simps split: indexed.split_asm literal_name_ref.split_asm)
  then show "mem_size f \<le> 2 ^ 33"
  proof cases
    case 1
    then show ?thesis using static_get_size [OF 1] by (simp add: mem_size_def ESTIMATED_OVERHEAD_BYTES_def)
  next
    case 2
    then show ?thesis using static_get_size [of i g] literal_sizes(1) [OF assms(1)] assms(1)
      by (auto simp: mem_size_def ESTIMATED_OVERHEAD_BYTES_def with_value_def)
  next
    case 3
    then show ?thesis using literal_sizes(2) [OF assms(1) 3(1)] assms(1)
      by (auto simp: mem_size_def ESTIMATED_OVERHEAD_BYTES_def header_field_new_def)
  qed
qed

lemma decode_stateless_loop_total:
  assumes "length buf < 2 ^ 28" and "msize \<le> max_size" and "max_size \<le> 2 ^ 62"
  shows "decode_stateless_loop buf max_size msize acc \<noteq> Panic
    \<and> (\<forall>n fs. decode_stateless_loop buf max_size msize acc = Ok (n, fs) \<longrightarrow>
         n \<le> max_size \<and> (\<exists>gs. fs = acc @ gs \<and> n = msize + fields_mem_size gs))"
  using assms
proof (induction buf max_size msize acc rule: decode_stateless_loop.induct)
  case (1 buf max_size msize acc)
  show ?case
  proof (cases "buf = []")
    case True
    then show ?thesis using 1(3) by (simp add: decode_stateless_loop.simps)
  next
    case False
    note t = stateless_field_total [OF 1(2) False]
    show ?thesis
    proof (cases "stateless_field buf")
      case (Ok q)
      obtain f rest where q: "q = (f, rest)" by (cases q)
      have sz: "msize + mem_size f \<le> usize_max"
        using t(2) [of f rest] Ok q 1(3,4) by (simp add: usize_max_def)
      have len: "length rest < 2 ^ 28" using stateless_field_consumes [of buf f rest] Ok q 1(2) by simp
      have eq: "decode_stateless_loop buf max_size msize acc =
          (if msize + mem_size f > max_size then Err (DHeaderTooLong (msize + mem_size f))
           else decode_stateless_loop rest max_size (msize + mem_size f) (acc @ [f]))"
        using False Ok q sz by (simp add: decode_stateless_loop.simps [of buf])
      show ?thesis
      proof (cases "msize + mem_size f > max_size")
        case True
        then show ?thesis by (simp add: eq)
      next
        case le: False
        have "uadd msize (mem_size f) = (Ok (msize + mem_size f) :: (decoder_error, nat) result)" using sz by simp
        from 1(1) [OF False Ok q [symmetric] le len _ 1(4)] le
        show ?thesis by (fastforce simp: eq not_less)
      qed
    qed (use t False in \<open>simp_all add: decode_stateless_loop.simps [of buf]\<close>)
  qed
qed



section \<open>The encoder stream\<close>

lemma opt_then_no_panic: "opt_then r f = Panic \<longleftrightarrow> r = Panic \<or> (\<exists>x. r = Ok (Some x) \<and> f x = Panic)"
  by (cases "(r, f)" rule: opt_then.cases) auto

lemma or_more_no_panic:
  "int_or_more q = Panic \<longleftrightarrow> q = Panic"
  "string_or_more r = Panic \<longleftrightarrow> r = Panic"
  by (cases q rule: int_or_more.cases; simp) (cases r; simp)

lemma instruction_no_panic:
  assumes "length buf < 2 ^ 28"
  shows "insert_with_name_ref_decode buf \<noteq> Panic" and "insert_without_name_ref_decode buf \<noteq> Panic"
    and "duplicate_decode buf \<noteq> Panic" and "size_update_decode buf \<noteq> Panic"
proof -
  have i: "prefix_int_decode sz b \<noteq> Panic" if "1 \<le> sz" "sz \<le> 8" for sz b
    using that by (rule prefix_int_no_panic)
  have s: "prefix_string_decode 8 b \<noteq> Panic" if "length b < length buf" for b
    using prefix_string_total(1) that assms by simp
  have s': "prefix_string_decode 6 buf \<noteq> Panic" using prefix_string_total(1) assms by simp
  note c = prefix_int_decode_consumes prefix_string_decode_consumes
  note simps = res_simps opt_then_no_panic or_more_no_panic
  show "insert_with_name_ref_decode buf \<noteq> Panic"
    by (auto simp: insert_with_name_ref_decode_def simps i split: if_splits dest!: c simp: s)
  show "insert_without_name_ref_decode buf \<noteq> Panic"
    using s' by (auto simp: insert_without_name_ref_decode_def simps dest!: c simp: s)
  show "duplicate_decode buf \<noteq> Panic"
    by (auto simp: duplicate_decode_def simps i split: if_splits)
  show "size_update_decode buf \<noteq> Panic"
    by (auto simp: size_update_decode_def simps i split: if_splits)
qed

lemma table_get_relative_no_panic:
  assumes "dt_inv t"
  shows "table_get_relative t i \<noteq> Panic"
  using vas_relative_eq [OF dt_invD(1) [OF assms], of i]
  by (auto simp: table_get_relative_def fields_get_def res_simps split: if_splits)

lemma parse_instruction_no_panic:
  assumes "dt_inv t" and "length buf < 2 ^ 28"
  shows "parse_instruction t buf \<noteq> Panic"
proof (cases buf)
  case (Cons b tl)
  note np = instruction_no_panic [OF assms(2)] table_get_relative_no_panic [OF assms(1)]
  have sg: "static_get i \<noteq> Panic" for i by (simp add: static_get_def)
  show ?thesis
    using np sg unfolding Cons
    by (auto simp: parse_instruction_def res_simps
        split: encoder_instruction.splits option.splits insert_with_name_ref.splits prod.splits)
qed (simp add: parse_instruction_def)

text \<open>The table of a decoder never tracks anything.\<close>

definition decoder_table_inv :: "dynamic_table \<Rightarrow> bool" where
  "decoder_table_inv t \<longleftrightarrow> dt_inv t \<and> (\<forall>a. \<not> is_tracked t a)"

lemma apply_instruction_spec:
  assumes "decoder_table_inv t" and "vas_inserted (dt_vas t) < usize_max"
  shows "case apply_instruction i t of
     (r, t') \<Rightarrow> r \<noteq> Panic \<and> decoder_table_inv t' \<and>
       vas_inserted (dt_vas t) \<le> vas_inserted (dt_vas t') \<and>
       vas_inserted (dt_vas t') \<le> Suc (vas_inserted (dt_vas t))"
proof (cases i)
  case (Insert f)
  note p = table_put_spec [OF _ assms(2), of f]
  show ?thesis
    using p assms same_tracking_is_tracked Insert
    by (auto simp: apply_instruction_def decoder_table_inv_def split: prod.splits result.splits)
next
  case (TableSizeUpdate n)
  note p = set_max_size_spec [of t n]
  show ?thesis
    using p assms same_tracking_is_tracked TableSizeUpdate
    by (auto simp: apply_instruction_def decoder_table_inv_def split: prod.splits result.splits)
qed

lemma on_encoder_recv_loop_spec:
  assumes "decoder_table_inv t" and "length buf < 2 ^ 28" and "vas_inserted (dt_vas t) + length buf \<le> usize_max"
  shows "case on_encoder_recv_loop t buf of
     (r, t', rest) \<Rightarrow> r \<noteq> Panic \<and> decoder_table_inv t' \<and>
       vas_inserted (dt_vas t) \<le> vas_inserted (dt_vas t')"
  using assms
proof (induction t buf rule: on_encoder_recv_loop.induct)
  case (1 t buf)
  note np = parse_instruction_no_panic [OF _ 1(3), of t]
  have inv: "dt_inv t" using 1(2) by (simp add: decoder_table_inv_def)
  show ?case
  proof (cases "parse_instruction t buf")
    case (Ok o')
    show ?thesis
    proof (cases o')
      case None
      then show ?thesis using Ok 1(2) by (simp add: on_encoder_recv_loop.simps [of t buf])
    next
      case (Some q)
      obtain i rest where q: "q = (i, rest)" by (cases q)
      have len: "length rest < length buf" using parse_instruction_consumes Ok Some q by blast
      then have room: "vas_inserted (dt_vas t) < usize_max" using 1(4) by linarith
      obtain r t1 where a: "apply_instruction i t = (r, t1)" by (cases "apply_instruction i t")
      note s = apply_instruction_spec [OF 1(2) room, of i, unfolded a prod.case]
      show ?thesis
      proof (cases r)
        case ok: (Ok u)
        have "vas_inserted (dt_vas t1) + length rest \<le> usize_max" using s len 1(4) by linarith
        with 1(1) [OF Ok Some q [symmetric] a [symmetric] ok] s len 1(3)
        have "case on_encoder_recv_loop t1 rest of
           (r, t', rest) \<Rightarrow> r \<noteq> Panic \<and> decoder_table_inv t' \<and>
             vas_inserted (dt_vas t1) \<le> vas_inserted (dt_vas t')" by simp
        then show ?thesis using Ok Some q a ok s
          by (auto simp: on_encoder_recv_loop.simps [of t buf] split: prod.splits)
      qed (use Ok Some q a s in \<open>simp_all add: on_encoder_recv_loop.simps [of t buf]\<close>)
    qed
  qed (use np inv 1(2) in \<open>simp_all add: on_encoder_recv_loop.simps [of t buf]\<close>)
qed



end
