(* ===== verification/TableTracking.thy ===== *)
theory TableTracking
  imports TableInvariant
begin

text \<open>
  Reference counting in the dynamic table of \<open>h3/src/qpack/dynamic.rs\<close>: the counter of an
  address is the number of references from the field sections that are not acknowledged yet
  and from the one that is being encoded; cancelling a section takes back exactly what it
  added. The second part is the accounting of the sections that block the decoder.
\<close>

section \<open>Counting references\<close>

definition tc :: "dynamic_table \<Rightarrow> nat \<Rightarrow> nat" where
  "tc t a = (case dt_track_map t a of Some c \<Rightarrow> c | None \<Rightarrow> 0)"

definition rc :: "refs \<Rightarrow> nat \<Rightarrow> nat" where
  "rc r a = (case map_of r a of Some c \<Rightarrow> c | None \<Rightarrow> 0)"

definition refs_ok :: "refs \<Rightarrow> bool" where
  "refs_ok r \<longleftrightarrow> distinct (map fst r) \<and> (\<forall>(a, c) \<in> set r. 0 < c)"

definition blocks_count :: "refs list \<Rightarrow> nat \<Rightarrow> nat" where
  "blocks_count bs a = sum_list (map (\<lambda>b. rc b a) bs)"

definition pending :: "(nat \<rightharpoonup> refs list) \<Rightarrow> nat \<Rightarrow> nat" where
  "pending m a = (\<Sum>s \<in> dom m. blocks_count (the (m s)) a)"

definition blocks_ok :: "(nat \<rightharpoonup> refs list) \<Rightarrow> bool" where
  "blocks_ok m \<longleftrightarrow> finite (dom m) \<and> (\<forall>s bs. m s = Some bs \<longrightarrow> bs \<noteq> [] \<and> (\<forall>b \<in> set bs. refs_ok b))"

definition track_inv :: "dynamic_table \<Rightarrow> bool" where
  "track_inv t \<longleftrightarrow> blocks_ok (dt_track_blocks t) \<and> (\<forall>a. tc t a = pending (dt_track_blocks t) a)"

lemma is_tracked_tc: "is_tracked t a \<longleftrightarrow> 0 < tc t a"
  by (simp add: is_tracked_def tc_def split: option.splits)

lemma tc_updates [simp]:
  "tc (t\<lparr>dt_fields := x0\<rparr>) = tc t"
  "tc (t\<lparr>dt_vas := x1\<rparr>) = tc t"
  "tc (t\<lparr>dt_curr_size := x2\<rparr>) = tc t"
  "tc (t\<lparr>dt_max_size := x3\<rparr>) = tc t"
  "tc (t\<lparr>dt_field_map := x4\<rparr>) = tc t"
  "tc (t\<lparr>dt_name_map := x5\<rparr>) = tc t"
  "tc (t\<lparr>dt_track_blocks := x6\<rparr>) = tc t"
  "tc (t\<lparr>dt_blocked_count := x7\<rparr>) = tc t"
  "tc (t\<lparr>dt_blocked_streams := x8\<rparr>) = tc t"
  "tc (t\<lparr>dt_largest_known_received := x9\<rparr>) = tc t"
  by (simp_all add: tc_def fun_eq_iff)

lemma same_tracking_tc: "same_tracking t t' \<Longrightarrow> tc t' = tc t"
  by (simp add: same_tracking_def tc_def fun_eq_iff)

lemma refs_ok_simps [simp]:
  "refs_ok []"
  "refs_ok ((a, c) # r) \<longleftrightarrow> 0 < c \<and> a \<notin> fst ` set r \<and> refs_ok r"
  by (auto simp: refs_ok_def)

lemma rc_simps [simp]:
  "rc [] a = 0"
  "rc ((b, c) # r) a = (if a = b then c else rc r a)"
  by (simp_all add: rc_def)

lemma rc_notin: "a \<notin> fst ` set r \<Longrightarrow> rc r a = 0"
  by (simp add: rc_def map_of_eq_None_iff [THEN iffD2])

lemma rc_pos_iff: "refs_ok r \<Longrightarrow> 0 < rc r a \<longleftrightarrow> a \<in> fst ` set r"
  by (induction r) (force simp: rc_notin split: if_splits)+

lemma rc_bump [simp]: "rc (alist_bump k r) a = rc r a + (if a = k then 1 else 0)"
  by (auto simp: rc_def alist_bump_def update_conv' split: option.splits)

lemma refs_ok_bump [simp]: "refs_ok r \<Longrightarrow> refs_ok (alist_bump k r)"
proof -
  have alt: "refs_ok r' \<longleftrightarrow> distinct (map fst r') \<and> (\<forall>a c. map_of r' a = Some c \<longrightarrow> 0 < c)" for r'
    by (auto simp: refs_ok_def map_of_eq_Some_iff)
  have "refs_ok (AList.update k c r)" if "refs_ok r" "0 < c" for c
    using that by (auto simp: alt update_conv' distinct_update)
  then show "refs_ok r \<Longrightarrow> refs_ok (alist_bump k r)"
    by (simp add: alist_bump_def split: option.splits)
qed

lemma tc_track_ref [simp]: "tc (table_track_ref t k) a = tc t a + (if a = k then 1 else 0)"
  by (auto simp: tc_def table_track_ref_def split: option.splits)

lemma pending_upd:
  assumes "finite (dom m)"
  shows "pending (m(s \<mapsto> bs)) a + (case m s of Some old \<Rightarrow> blocks_count old a | None \<Rightarrow> 0)
    = pending m a + blocks_count bs a"
proof -
  have "pending m' a = (\<Sum>s' \<in> dom m' - {s}. blocks_count (the (m' s')) a)
      + (case m' s of Some old \<Rightarrow> blocks_count old a | None \<Rightarrow> 0)"
    if "finite (dom m')" for m'
  proof (cases "m' s")
    case (Some old)
    then have "s \<in> dom m'" by auto
    from sum.remove [OF that this, of "\<lambda>s. blocks_count (the (m' s)) a"] Some
    show ?thesis by (simp add: pending_def)
  next
    case None
    then have "dom m' - {s} = dom m'" by auto
    with None show ?thesis by (simp add: pending_def)
  qed
  from this [of m] this [of "m(s \<mapsto> bs)"] assms show ?thesis
    by (simp add: insert_Diff_if)
qed

lemma pending_remove:
  assumes "finite (dom m)" and "m s = Some bs"
  shows "pending (m(s := None)) a + blocks_count bs a = pending m a"
proof -
  have "s \<in> dom m" using assms(2) by auto
  from sum.remove [OF assms(1) this, of "\<lambda>s. blocks_count (the (m s)) a"] assms(2)
  show ?thesis by (simp add: pending_def)
qed

lemma blocks_count_simps [simp]:
  "blocks_count [] a = 0"
  "blocks_count (b # bs) a = rc b a + blocks_count bs a"
  "blocks_count (bs @ cs) a = blocks_count bs a + blocks_count cs a"
  by (simp_all add: blocks_count_def)

section \<open>Adding and cancelling a block\<close>

lemma track_block_spec:
  assumes "blocks_ok (dt_track_blocks t)" and "refs_ok b"
  shows "blocks_ok (dt_track_blocks (track_block t s b))"
    and "pending (dt_track_blocks (track_block t s b)) a = pending (dt_track_blocks t) a + rc b a"
    and "tc (track_block t s b) = tc t"
proof -
  let ?m = "dt_track_blocks t"
  have fin: "finite (dom ?m)" using assms(1) by (simp add: blocks_ok_def)
  show "blocks_ok (dt_track_blocks (track_block t s b))"
    using assms by (auto simp: blocks_ok_def track_block_def split: option.splits)
  show "pending (dt_track_blocks (track_block t s b)) a = pending ?m a + rc b a"
    using pending_upd [OF fin, of s "case ?m s of Some blocks \<Rightarrow> blocks @ [b] | None \<Rightarrow> [b]" a]
    by (simp add: track_block_def split: option.splits)
  show "tc (track_block t s b) = tc t" by (simp add: track_block_def)
qed

lemma track_cancel_spec:
  assumes "refs_ok r" and "\<And>a. rc r a \<le> tc t a"
  shows "\<exists>m. track_cancel r t = (Ok (), t\<lparr>dt_track_map := m\<rparr>) \<and>
    (\<forall>a. tc (t\<lparr>dt_track_map := m\<rparr>) a = tc t a - rc r a)"
  using assms
proof (induction r arbitrary: t)
  case Nil
  then show ?case by (auto intro!: exI [of _ "dt_track_map t"])
next
  case (Cons p r)
  obtain b c where p: "p = (b, c)" by (cases p)
  with Cons.prems(1) have ok: "0 < c" "b \<notin> fst ` set r" "refs_ok r" by simp_all
  have le: "c \<le> tc t b" using Cons.prems(2) [of b] p by simp
  then obtain n where n: "dt_track_map t b = Some n" "c \<le> n" and tcb: "tc t b = n"
    using ok(1) by (auto simp: tc_def split: option.splits)
  define u where "u = t\<lparr>dt_track_map := (dt_track_map t)(b := (if n = c then None else Some (n - c)))\<rparr>"
  have tcu: "tc u a = (if a = b then n - c else tc t a)" for a
    by (simp add: u_def tc_def)
  have "rc r a \<le> tc u a" for a
    using Cons.prems(2) [of a] p rc_notin [OF ok(2)] by (simp add: tcu split: if_splits)
  from Cons.IH [OF ok(3) this] obtain m where
    m: "track_cancel r u = (Ok (), u\<lparr>dt_track_map := m\<rparr>)"
      "\<And>a. tc (u\<lparr>dt_track_map := m\<rparr>) a = tc u a - rc r a" by blast
  have same: "u\<lparr>dt_track_map := m\<rparr> = t\<lparr>dt_track_map := m\<rparr>" by (simp add: u_def)
  have "track_cancel (p # r) t = track_cancel r u"
    using n by (simp add: p u_def)
  moreover have "tc u a - rc r a = tc t a - rc (p # r) a" for a
    using rc_notin [OF ok(2)] tcb by (simp add: tcu p)
  ultimately show ?case using m by (auto simp: same)
qed

lemma tc_track_map_only: "tc (t\<lparr>dt_track_map := m\<rparr>) = tc (u\<lparr>dt_track_map := m\<rparr>)"
  by (simp add: tc_def fun_eq_iff)

text \<open>The table changes in its tracking alone.\<close>

definition same_content :: "dynamic_table \<Rightarrow> dynamic_table \<Rightarrow> bool" where
  "same_content t t' \<longleftrightarrow> dt_fields t' = dt_fields t \<and> dt_vas t' = dt_vas t \<and>
     dt_curr_size t' = dt_curr_size t \<and> dt_max_size t' = dt_max_size t \<and>
     dt_field_map t' = dt_field_map t \<and> dt_name_map t' = dt_name_map t"

lemma same_content_refl [simp]: "same_content t t"
  by (simp add: same_content_def)

lemma same_content_addr: "same_content t t' \<Longrightarrow> dt_addr t' = dt_addr t"
  by (simp add: same_content_def dt_addr_def fun_eq_iff)

lemma dt_inv_same_content:
  assumes "dt_inv t" and "same_content t t'" and "\<And>a. is_tracked t' a \<Longrightarrow> vas_live (dt_vas t) a"
  shows "dt_inv t'"
proof -
  note addr = same_content_addr [OF assms(2)]
  have "dt_maps_ok t'"
    using dt_invD(6) [OF assms(1)] assms(2,3) unfolding dt_maps_ok_def
    by (simp add: addr) (simp add: same_content_def)
  then show ?thesis
    by (rule dt_inv_cong [OF assms(1)]) (use assms(2) in \<open>simp_all add: same_content_def\<close>)
qed

lemma untrack_block_spec:
  assumes "track_inv t"
  shows "case untrack_block t s of
      (Ok _, t') \<Rightarrow> track_inv t' \<and> same_content t t' \<and> (\<forall>a. tc t' a \<le> tc t a) \<and>
        (\<exists>b bs. dt_track_blocks t s = Some (b # bs) \<and> (\<forall>a. tc t' a = tc t a - rc b a) \<and>
           dt_track_blocks t' s = (if bs = [] then None else Some bs))
    | (Err e, t') \<Rightarrow> t' = t \<and> e = UnknownStreamId s \<and> dt_track_blocks t s = None
    | (Panic, t') \<Rightarrow> False"
proof (cases "dt_track_blocks t s")
  case None
  then show ?thesis by (simp add: untrack_block_def)
next
  case (Some blocks)
  let ?m = "dt_track_blocks t"
  have ok: "blocks_ok ?m" and eq: "\<And>a. tc t a = pending ?m a"
    using assms by (auto simp: track_inv_def)
  then have fin: "finite (dom ?m)" by (simp add: blocks_ok_def)
  obtain b bs where bs: "blocks = b # bs" "refs_ok b" "\<forall>c \<in> set bs. refs_ok c"
    using ok Some by (cases blocks) (auto simp: blocks_ok_def)
  define m' where "m' = (if bs = [] then ?m(s := None) else ?m(s \<mapsto> bs))"
  have pend: "pending m' a + rc b a = pending ?m a" for a
    using pending_upd [OF fin, of s bs a] pending_remove [OF fin Some, of a] Some bs(1)
    by (cases "bs = []") (simp_all add: m'_def)
  have "rc b a \<le> tc (t\<lparr>dt_track_blocks := m'\<rparr>) a" for a
    using pend [of a] eq [of a] by simp
  from track_cancel_spec [OF bs(2) this] obtain tm where
    tm: "track_cancel b (t\<lparr>dt_track_blocks := m'\<rparr>) = (Ok (), t\<lparr>dt_track_blocks := m', dt_track_map := tm\<rparr>)"
      "\<And>a. tc (t\<lparr>dt_track_blocks := m', dt_track_map := tm\<rparr>) a = tc t a - rc b a"
    by auto
  have res: "untrack_block t s = (Ok (), t\<lparr>dt_track_blocks := m', dt_track_map := tm\<rparr>)"
    using Some bs(1) tm(1) by (auto simp: untrack_block_def m'_def Let_def)
  have "blocks_ok m'"
    using ok bs by (auto simp: blocks_ok_def m'_def)
  moreover have "tc t a - rc b a = pending m' a" for a
    using pend [of a] eq [of a] by simp
  ultimately have "track_inv (t\<lparr>dt_track_blocks := m', dt_track_map := tm\<rparr>)"
    using tm(2) by (simp add: track_inv_def)
  then show ?thesis
    using res tm(2) Some bs(1) by (auto simp: same_content_def m'_def)
qed

end
