(* ===== verification/TableEncoder.thy ===== *)
theory TableEncoder
  imports TableTracking
begin

text \<open>
  The encoder's view of the dynamic table, \<open>DynamicTableEncoder\<close> of
  \<open>h3/src/qpack/dynamic.rs\<close>: what it finds and inserts while one field section is encoded. What
  the section refers to stays in the table until the section is acknowledged, every index it
  computes is in range, and dropping it without a commit takes all of its references back.
\<close>

section \<open>Invariant\<close>

definition te_inv :: "table_encoder \<Rightarrow> bool" where
  "te_inv e \<longleftrightarrow> dt_inv (te_table e) \<and> te_base e \<le> vas_inserted (dt_vas (te_table e)) \<and>
     refs_ok (te_block_refs e) \<and> blocks_ok (dt_track_blocks (te_table e)) \<and>
     (\<forall>a. tc (te_table e) a = pending (dt_track_blocks (te_table e)) a + rc (te_block_refs e) a) \<and>
     \<not> te_commited e"

text \<open>What the section refers to, with its content.\<close>

definition te_ref :: "table_encoder \<Rightarrow> nat \<Rightarrow> header_field \<Rightarrow> bool" where
  "te_ref e a f \<longleftrightarrow> 0 < rc (te_block_refs e) a \<and> dt_addr (te_table e) a = Some f"

definition te_extends :: "table_encoder \<Rightarrow> table_encoder \<Rightarrow> bool" where
  "te_extends e e' \<longleftrightarrow> te_base e' = te_base e \<and> te_stream_id e' = te_stream_id e \<and>
     dt_max_size (te_table e') = dt_max_size (te_table e) \<and>
     vas_inserted (dt_vas (te_table e)) \<le> vas_inserted (dt_vas (te_table e')) \<and>
     (\<forall>a f. te_ref e a f \<longrightarrow> te_ref e' a f)"

text \<open>The parts of a table that the decoder's copy shares.\<close>

definition dt_shared :: "dynamic_table \<Rightarrow> header_field list \<times> vas \<times> nat \<times> nat" where
  "dt_shared t = (dt_fields t, dt_vas t, dt_curr_size t, dt_max_size t)"

lemma te_invD:
  assumes "te_inv e"
  shows "dt_inv (te_table e)" and "te_base e \<le> vas_inserted (dt_vas (te_table e))"
    and "refs_ok (te_block_refs e)" and "blocks_ok (dt_track_blocks (te_table e))"
    and "tc (te_table e) a = pending (dt_track_blocks (te_table e)) a + rc (te_block_refs e) a"
    and "\<not> te_commited e"
  using assms by (auto simp: te_inv_def)

lemma te_extends_refl [simp]: "te_extends e e"
  by (simp add: te_extends_def)

lemma te_extends_trans: "te_extends d e \<Longrightarrow> te_extends e f \<Longrightarrow> te_extends d f"
  by (auto simp: te_extends_def)

lemma same_content_shared: "same_content t t' \<Longrightarrow> dt_shared t' = dt_shared t"
  by (simp add: same_content_def dt_shared_def)

lemma dt_shared_addr: "dt_shared t' = dt_shared t \<Longrightarrow> dt_addr t' = dt_addr t"
  by (simp add: dt_shared_def dt_addr_def fun_eq_iff)

section \<open>Looking up\<close>

lemma te_track_ref_spec:
  assumes "te_inv e" and "vas_live (dt_vas (te_table e)) a"
  shows "te_inv (te_track_ref e a)" and "te_extends e (te_track_ref e a)"
    and "same_content (te_table e) (te_table (te_track_ref e a))"
    and "0 < rc (te_block_refs (te_track_ref e a)) a"
    and "te_base (te_track_ref e a) = te_base e"
proof -
  let ?e = "te_track_ref e a"
  note d = te_invD [OF assms(1)]
  show same: "same_content (te_table e) (te_table ?e)"
    by (simp add: te_track_ref_def table_track_ref_def same_content_def)
  have tr: "is_tracked (te_table ?e) b \<longleftrightarrow> is_tracked (te_table e) b \<or> b = a" for b
    by (auto simp: te_track_ref_def is_tracked_tc)
  have "dt_inv (te_table ?e)"
    using d(1) same by (rule dt_inv_same_content)
      (use tr assms(2) dt_maps_okD(3) [OF dt_invD(6) [OF d(1)]] in auto)
  moreover have "dt_track_blocks (te_table ?e) = dt_track_blocks (te_table e)"
    by (simp add: te_track_ref_def table_track_ref_def)
  moreover have "dt_vas (te_table ?e) = dt_vas (te_table e)"
    using same by (simp add: same_content_def)
  ultimately show "te_inv ?e"
    using d unfolding te_inv_def by (simp add: te_track_ref_def)
  show "te_extends e ?e"
    using same same_content_addr [OF same]
    by (auto simp: te_extends_def te_ref_def te_track_ref_def same_content_def)
  show "0 < rc (te_block_refs ?e) a" and "te_base ?e = te_base e"
    by (simp_all add: te_track_ref_def)
qed

definition lookup_post :: "table_encoder \<Rightarrow> nat option \<Rightarrow> dynamic_lookup_result \<Rightarrow> table_encoder \<Rightarrow> bool" where
  "lookup_post e absolute r e' \<longleftrightarrow> te_inv e' \<and> te_extends e e' \<and>
     same_content (te_table e) (te_table e') \<and>
     (case r of
        LookupRelative i a \<Rightarrow> absolute = Some a \<and> a \<le> te_base e \<and> i = te_base e - a \<and>
          0 < rc (te_block_refs e') a
      | LookupPostBase i a \<Rightarrow> absolute = Some a \<and> te_base e < a \<and> i = a - te_base e - 1 \<and>
          0 < rc (te_block_refs e') a
      | NotFound \<Rightarrow> absolute = None
      | LookupStatic i \<Rightarrow> False)"

lemma lookup_result_spec:
  assumes "te_inv e" and "\<And>a. absolute = Some a \<Longrightarrow> vas_live (dt_vas (te_table e)) a"
  shows "case lookup_result e absolute of (r, e') \<Rightarrow> lookup_post e absolute r e'"
proof (cases absolute)
  case None
  then show ?thesis using assms(1) by (simp add: lookup_result_def lookup_post_def)
next
  case (Some a)
  then have live: "vas_live (dt_vas (te_table e)) a" using assms(2) by simp
  note tr = te_track_ref_spec [OF assms(1) live]
  show ?thesis using Some tr by (auto simp: lookup_result_def lookup_post_def)
qed

lemma te_find_spec:
  assumes "te_inv e"
  shows "case te_find e field of (r, e') \<Rightarrow> lookup_post e (dt_field_map (te_table e) field) r e'"
  unfolding te_find_def
proof (rule lookup_result_spec [OF assms])
  fix a assume "dt_field_map (te_table e) field = Some a"
  then show "vas_live (dt_vas (te_table e)) a"
    using dt_maps_okD(1) [OF dt_invD(6) [OF te_invD(1) [OF assms]]] dt_addr_Some_live by blast
qed

lemma te_find_name_spec:
  assumes "te_inv e"
  shows "case te_find_name e name of (r, e') \<Rightarrow>
    (\<exists>i. r = LookupStatic i \<and> static_find_name name = Some i \<and> e' = e) \<or>
    lookup_post e (dt_name_map (te_table e) name) r e'"
proof (cases "static_find_name name")
  case None
  have "vas_live (dt_vas (te_table e)) a" if "dt_name_map (te_table e) name = Some a" for a
    using that dt_maps_okD(2) [OF dt_invD(6) [OF te_invD(1) [OF assms]]] dt_addr_Some_live by blast
  from lookup_result_spec [OF assms this] None show ?thesis
    by (auto simp: te_find_name_def split: prod.splits)
next
  case (Some i)
  then show ?thesis by (simp add: te_find_name_def)
qed

section \<open>Inserting\<close>

lemma te_set_field_map:
  assumes "te_inv e" and "\<And>f a. fm f = Some a \<Longrightarrow> dt_addr (te_table e) a = Some f"
  shows "te_inv (e\<lparr>te_table := te_table e\<lparr>dt_field_map := fm\<rparr>\<rparr>)"
    and "te_extends e (e\<lparr>te_table := te_table e\<lparr>dt_field_map := fm\<rparr>\<rparr>)"
proof -
  note d = te_invD [OF assms(1)]
  have "dt_maps_ok (te_table e\<lparr>dt_field_map := fm\<rparr>)"
    using dt_invD(6) [OF d(1)] assms(2) by (simp add: dt_maps_ok_def)
  then have "dt_inv (te_table e\<lparr>dt_field_map := fm\<rparr>)" by (rule dt_inv_cong [OF d(1)]) simp_all
  then show "te_inv (e\<lparr>te_table := te_table e\<lparr>dt_field_map := fm\<rparr>\<rparr>)"
    using d by (simp add: te_inv_def)
  show "te_extends e (e\<lparr>te_table := te_table e\<lparr>dt_field_map := fm\<rparr>\<rparr>)"
    by (simp add: te_extends_def te_ref_def)
qed

lemma te_set_name_map:
  assumes "te_inv e" and "\<And>n a. nm n = Some a \<Longrightarrow> map_option hf_name (dt_addr (te_table e) a) = Some n"
  shows "te_inv (e\<lparr>te_table := te_table e\<lparr>dt_name_map := nm\<rparr>\<rparr>)"
    and "te_extends e (e\<lparr>te_table := te_table e\<lparr>dt_name_map := nm\<rparr>\<rparr>)"
proof -
  note d = te_invD [OF assms(1)]
  have "dt_maps_ok (te_table e\<lparr>dt_name_map := nm\<rparr>)"
    using dt_invD(6) [OF d(1)] assms(2) by (simp add: dt_maps_ok_def)
  then have "dt_inv (te_table e\<lparr>dt_name_map := nm\<rparr>)" by (rule dt_inv_cong [OF d(1)]) simp_all
  then show "te_inv (e\<lparr>te_table := te_table e\<lparr>dt_name_map := nm\<rparr>\<rparr>)"
    using d by (simp add: te_inv_def)
  show "te_extends e (e\<lparr>te_table := te_table e\<lparr>dt_name_map := nm\<rparr>\<rparr>)"
    by (simp add: te_extends_def te_ref_def)
qed

lemma te_set_inserted:
  assumes "te_inv e" and ins: "inserted_by field index n (te_table e) t1"
  shows "te_inv (e\<lparr>te_table := t1\<rparr>)" and "te_extends e (e\<lparr>te_table := t1\<rparr>)"
    and "vas_live (dt_vas t1) index"
proof -
  note d = te_invD [OF assms(1)]
  have tc: "tc t1 = tc (te_table e)" and st: "same_tracking (te_table e) t1"
    using ins by (auto simp: inserted_by_def same_tracking_tc)
  show "te_inv (e\<lparr>te_table := t1\<rparr>)"
    using d ins st tc by (auto simp: te_inv_def inserted_by_def same_tracking_def)
  have "te_ref (e\<lparr>te_table := t1\<rparr>) a f" if "te_ref e a f" for a f
    using that inserted_by_keeps [OF ins d(1), of a f] d(5) [of a]
    by (simp add: te_ref_def is_tracked_tc)
  then show "te_extends e (e\<lparr>te_table := t1\<rparr>)"
    using ins by (auto simp: te_extends_def inserted_by_def)
  show "vas_live (dt_vas t1) index"
    using ins dt_addr_Some_live [of t1 index field] by (simp add: inserted_by_def)
qed

text \<open>The references in a result of an insertion: what they mean for the table before it.\<close>

fun insertion_meaning :: "table_encoder \<Rightarrow> header_field \<Rightarrow> dynamic_insertion_result \<Rightarrow> bool" where
  "insertion_meaning e field (Inserted post a) \<longleftrightarrow>
     a = Suc (vas_inserted (dt_vas (te_table e))) \<and> post = a - te_base e - 1"
| "insertion_meaning e field (Duplicated rel post a) \<longleftrightarrow>
     a = Suc (vas_inserted (dt_vas (te_table e))) \<and> post = a - te_base e - 1 \<and>
     (\<exists>r. dt_addr (te_table e) r = Some field \<and> rel = vas_inserted (dt_vas (te_table e)) - r)"
| "insertion_meaning e field (InsertedWithNameRef post rel a) \<longleftrightarrow>
     a = Suc (vas_inserted (dt_vas (te_table e))) \<and> post = a - te_base e - 1 \<and>
     (\<exists>r g. dt_addr (te_table e) r = Some g \<and> hf_name g = hf_name field \<and>
        rel = vas_inserted (dt_vas (te_table e)) - r)"
| "insertion_meaning e field (InsertedWithStaticNameRef post i a) \<longleftrightarrow>
     a = Suc (vas_inserted (dt_vas (te_table e))) \<and> post = a - te_base e - 1 \<and>
     static_find_name (hf_name field) = Some i"
| "insertion_meaning e field (NotInserted r) \<longleftrightarrow> False"

lemma te_record_spec:
  assumes inv: "te_inv e" and ins: "inserted_by field index n (te_table e) t1"
  shows "case te_record (e\<lparr>te_table := t1\<rparr>) field index of (res, e') \<Rightarrow>
    te_inv e' \<and> te_extends e e' \<and> dt_shared (te_table e') = dt_shared t1 \<and>
    te_ref e' index field \<and> (\<exists>r. res = Ok r \<and> insertion_meaning e field r)"
proof -
  note d = te_invD [OF inv]
  have index: "index = Suc (vas_inserted (dt_vas (te_table e)))" using ins by (simp add: inserted_by_def)
  have new: "dt_addr t1 index = Some field" using ins by (simp add: inserted_by_def)
  note i1 = te_set_inserted [OF inv ins]
  let ?e1 = "te_track_ref (e\<lparr>te_table := t1\<rparr>) index"
  have live1: "vas_live (dt_vas (te_table (e\<lparr>te_table := t1\<rparr>))) index" using i1(3) by simp
  note i2 = te_track_ref_spec [OF i1(1) live1]
  let ?t = "te_table ?e1"
  have addr: "dt_addr ?t = dt_addr t1" using same_content_addr [OF i2(3)] by simp
  have fm: "dt_field_map ?t = dt_field_map t1" and nm: "dt_name_map ?t = dt_name_map t1"
    using i2(3) by (auto simp: same_content_def)
  have base: "te_base ?e1 = te_base e" using i2(5) by simp
  have post: "and_then (usub index (te_base e)) (\<lambda>p. usub p 1)
      = (Ok (index - te_base e - 1) :: (dynamic_error, nat) result)"
    using d(2) index by simp
  have old: "dt_addr (te_table e) r = Some g" "r < index" if "dt_addr t1 r = Some g" "r \<noteq> index" for r g
    using that ins dt_addr_Some_live [OF that(1)]
    by (auto simp: inserted_by_def vas_live_def split: if_splits)
  have rel: "and_then (usub index r) (\<lambda>p. usub p 1)
      = (Ok (vas_inserted (dt_vas (te_table e)) - r) :: (dynamic_error, nat) result)"
    if "r < index" for r
    using that index by simp
  have e1: "te_inv ?e1" "te_extends e ?e1" "te_ref ?e1 index field"
    using i2(1,2,4) i1(2) new te_extends_trans by (auto simp: te_ref_def addr)
  have maps: "dt_field_map t1 f = Some a \<Longrightarrow> dt_addr t1 a = Some f"
    "dt_field_map t1 f = Some a \<Longrightarrow> dt_addr (te_table e) a = Some f"
    "dt_name_map t1 m = Some a \<Longrightarrow> \<exists>g. dt_addr t1 a = Some g \<and> hf_name g = m"
    "dt_name_map t1 m = Some a \<Longrightarrow> \<exists>g. dt_addr (te_table e) a = Some g \<and> hf_name g = m" for f a m
    using ins dt_maps_okD(1,2) [OF dt_invD(6) [OF d(1)]] dt_maps_okD(1,2) [OF dt_invD(6), of t1]
    by (auto simp: inserted_by_def)
  have lt: "a < index" if "dt_addr (te_table e) a = Some g" for a g
    using dt_addr_Some_live [OF that] index by (simp add: vas_live_def)
  define e2 where "e2 = ?e1\<lparr>te_table := ?t\<lparr>dt_field_map := (dt_field_map ?t)(field \<mapsto> index)\<rparr>\<rparr>"
  have f2: "te_inv e2" "te_extends ?e1 e2"
    unfolding e2_def by (rule te_set_field_map [OF e1(1)]; use new maps(1) in \<open>auto simp: addr fm split: if_splits\<close>)+
  have sh2: "dt_shared (te_table e2) = dt_shared t1" "dt_addr (te_table e2) = dt_addr t1"
      "te_base e2 = te_base e" "dt_name_map (te_table e2) = dt_name_map t1"
    using same_content_shared [OF i2(3)] base nm by (auto simp: e2_def dt_shared_def addr)
  define e3 where "e3 = e2\<lparr>te_table := te_table e2\<lparr>dt_name_map := (dt_name_map t1)(hf_name field \<mapsto> index)\<rparr>\<rparr>"
  have f3: "te_inv e3" "te_extends e2 e3"
    unfolding e3_def
    by (rule te_set_name_map [OF f2(1)]; use new maps(3) in \<open>fastforce simp: sh2 split: if_splits\<close>)+
  have sh3: "dt_shared (te_table e3) = dt_shared t1" "dt_addr (te_table e3) = dt_addr t1"
      "te_base e3 = te_base e"
    using sh2 by (auto simp: e3_def dt_shared_def)
  have ext2: "te_extends e e2" and ext3: "te_extends e e3"
    using e1(2) f2(2) f3(2) te_extends_trans by blast+
  have track: "te_inv (te_track_ref x r)" "te_extends e (te_track_ref x r)"
      "dt_shared (te_table (te_track_ref x r)) = dt_shared t1" "te_base (te_track_ref x r) = te_base e"
    if x: "te_inv x" "te_extends e x" "dt_shared (te_table x) = dt_shared t1" "te_base x = te_base e"
      and r: "dt_addr t1 r = Some g" for x r g
  proof -
    have "vas_live (dt_vas (te_table x)) r"
      using dt_addr_Some_live [OF r] x(3) by (simp add: dt_shared_def)
    note t = te_track_ref_spec [OF x(1) this]
    show "te_inv (te_track_ref x r)" by (rule t(1))
    show "te_extends e (te_track_ref x r)" using x(2) t(2) te_extends_trans by blast
    show "dt_shared (te_table (te_track_ref x r)) = dt_shared t1"
      using same_content_shared [OF t(3)] x(3) by simp
    show "te_base (te_track_ref x r) = te_base e" using t(5) x(4) by simp
  qed
  have ref: "te_ref x index field" if "te_extends ?e1 x" for x
    using that e1(3) by (simp add: te_extends_def)
  have refs: "te_ref (te_track_ref x r) index field" if "te_ref x index field" for x r
    using that by (simp add: te_ref_def te_track_ref_def table_track_ref_def)
  have ref2: "te_ref e2 index field" and ref3: "te_ref e3 index field"
    using ref f2(2) f3(2) te_extends_trans by blast+
  have ok2: "te_inv e2" "te_extends e e2" "dt_shared (te_table e2) = dt_shared t1" "te_base e2 = te_base e"
    and ok3: "te_inv e3" "te_extends e e3" "dt_shared (te_table e3) = dt_shared t1" "te_base e3 = te_base e"
    using f2 f3 ext2 ext3 sh2 sh3 by simp_all
  consider (dup) r where "dt_field_map t1 field = Some r"
    | (static) i where "dt_field_map t1 field = None" "static_find_name (hf_name field) = Some i"
    | (name) r where "dt_field_map t1 field = None" "static_find_name (hf_name field) = None"
        "dt_name_map t1 (hf_name field) = Some r"
    | (fresh) "dt_field_map t1 field = None" "static_find_name (hf_name field) = None"
        "dt_name_map t1 (hf_name field) = None"
    by (cases "dt_field_map t1 field"; cases "static_find_name (hf_name field)";
        cases "dt_name_map t1 (hf_name field)") auto
  then show ?thesis
  proof cases
    case dup
    note r = maps(1,2) [OF dup]
    have noop: "?t\<lparr>dt_field_map := fm', dt_name_map := dt_name_map t1\<rparr> = ?t\<lparr>dt_field_map := fm'\<rparr>" for fm'
      using nm by (cases ?t) simp
    define x where "x = (if hf_name field \<in> dom (dt_name_map t1) then e3 else e2)"
    have "te_record (e\<lparr>te_table := t1\<rparr>) field index =
        (Ok (Duplicated (vas_inserted (dt_vas (te_table e)) - r) (index - te_base e - 1) index), te_track_ref x r)"
      using dup rel [OF lt [OF r(2)]] base fm nm post
      by (auto simp: te_record_def Let_def x_def e3_def e2_def noop)
    moreover have x: "te_inv x" "te_extends e x" "dt_shared (te_table x) = dt_shared t1" "te_base x = te_base e"
        "te_ref x index field"
      using ok2 ok3 ref2 ref3 by (auto simp: x_def)
    ultimately show ?thesis
      using track [OF x(1-4) r(1)] refs [OF x(5)] index r(2) by auto
  next
    case static
    then have "te_record (e\<lparr>te_table := t1\<rparr>) field index =
        (Ok (InsertedWithStaticNameRef (index - te_base e - 1) i index), e2)"
      using base fm nm post by (simp add: te_record_def Let_def e2_def)
    then show ?thesis using ok2 ref2 index static by simp
  next
    case name
    obtain g where g: "dt_addr t1 r = Some g" using maps(3) [OF name(3)] by blast
    obtain h where h: "dt_addr (te_table e) r = Some h" "hf_name h = hf_name field"
      using maps(4) [OF name(3)] by blast
    have "te_record (e\<lparr>te_table := t1\<rparr>) field index =
        (Ok (InsertedWithNameRef (index - te_base e - 1) (vas_inserted (dt_vas (te_table e)) - r) index),
         te_track_ref e3 r)"
      using name rel [OF lt [OF h(1)]] base fm nm post by (simp add: te_record_def Let_def e2_def e3_def)
    then show ?thesis
      using track [OF ok3 g] refs [OF ref3] index h by auto
  next
    case fresh
    then have "te_record (e\<lparr>te_table := t1\<rparr>) field index = (Ok (Inserted (index - te_base e - 1) index), e3)"
      using base fm nm post by (simp add: te_record_def Let_def e2_def e3_def)
    then show ?thesis using ok3 ref3 index by simp
  qed
qed

text \<open>What an insertion does to the table, and what the result says of it.\<close>

definition insert_post :: "table_encoder \<Rightarrow> header_field \<Rightarrow> dynamic_insertion_result \<Rightarrow> table_encoder \<Rightarrow> bool"
where
  "insert_post e field r e' \<longleftrightarrow> te_inv e' \<and> te_extends e e' \<and>
     (case r of
        NotInserted l \<Rightarrow> dt_shared (te_table e') = dt_shared (te_table e) \<and>
          ((\<exists>i. l = LookupStatic i \<and> static_find_name (hf_name field) = Some i) \<or>
           (\<exists>a g. te_ref e' a g \<and> hf_name g = hf_name field \<and>
              (a \<le> te_base e \<and> l = LookupRelative (te_base e - a) a \<or>
               te_base e < a \<and> l = LookupPostBase (a - te_base e - 1) a)) \<or>
           l = NotFound)
      | _ \<Rightarrow> insertion_meaning e field r \<and>
          te_ref e' (Suc (vas_inserted (dt_vas (te_table e)))) field \<and>
          (\<exists>t1. table_insert (te_table e) field = (Ok (Some (Suc (vas_inserted (dt_vas (te_table e))))), t1) \<and>
             dt_shared (te_table e') = dt_shared t1))"

lemma te_not_inserted_spec:
  assumes "te_inv e"
  shows "\<exists>r e'. te_not_inserted e field = (Ok r, e') \<and> insert_post e field r e'"
proof -
  obtain l e' where f: "te_find_name e (hf_name field) = (l, e')" by (cases "te_find_name e (hf_name field)")
  note spec = te_find_name_spec [OF assms, of "hf_name field", unfolded f prod.case]
  note maps = dt_maps_okD(2) [OF dt_invD(6) [OF te_invD(1) [OF assms]], of "hf_name field"]
  have ref: "\<exists>g. te_ref e' a g \<and> hf_name g = hf_name field"
    if "dt_name_map (te_table e) (hf_name field) = Some a" "same_content (te_table e) (te_table e')"
       "0 < rc (te_block_refs e') a" for a
    using maps [OF that(1)] that(2,3) same_content_addr by (auto simp: te_ref_def)
  have "insert_post e field (NotInserted l) e'"
  proof (cases l)
    case (LookupRelative i a)
    then show ?thesis using spec ref [of a] same_content_shared
      by (fastforce simp: insert_post_def lookup_post_def)
  next
    case (LookupPostBase i a)
    then show ?thesis using spec ref [of a] same_content_shared
      by (fastforce simp: insert_post_def lookup_post_def)
  qed (use spec same_content_shared assms in \<open>auto simp: insert_post_def lookup_post_def\<close>)
  then show ?thesis using f by (simp add: te_not_inserted_def)
qed

lemma te_insert_spec:
  assumes "te_inv e" and "vas_inserted (dt_vas (te_table e)) < usize_max"
  shows "\<exists>r e'. te_insert e field = (Ok r, e') \<and> insert_post e field r e'"
proof (cases "dt_blocked_count (te_table e) \<ge> dt_blocked_max (te_table e)")
  case True
  then show ?thesis using te_not_inserted_spec [OF assms(1)] by (simp add: te_insert_def)
next
  case False
  note spec = table_insert_spec [OF te_invD(1) [OF assms(1)] assms(2), of field]
  obtain res t1 where ti: "table_insert (te_table e) field = (res, t1)"
    by (cases "table_insert (te_table e) field")
  consider (ok) index where "res = Ok (Some index)" | (full) "res = Ok None"
    | (err) err where "res = Err err" | "res = Panic"
    by (metis option.exhaust result.exhaust)
  then show ?thesis
  proof cases
    case ok
    then obtain n where ins: "inserted_by field index n (te_table e) t1" using spec ti by auto
    then have ix: "index = Suc (vas_inserted (dt_vas (te_table e)))" by (simp add: inserted_by_def)
    obtain r e' where r: "te_record (e\<lparr>te_table := t1\<rparr>) field index = (Ok r, e')" "te_inv e'"
        "te_extends e e'" "dt_shared (te_table e') = dt_shared t1" "te_ref e' index field"
        "insertion_meaning e field r"
      using te_record_spec [OF assms(1) ins]
      by (cases "te_record (e\<lparr>te_table := t1\<rparr>) field index") auto
    have "te_insert e field = (Ok r, e')" using False ti ok r(1) by (simp add: te_insert_def)
    moreover have "insert_post e field r e'"
      using r(2-) ti ok ix by (cases r) (auto simp: insert_post_def)
    ultimately show ?thesis by blast
  next
    case full
    then have "t1 = te_table e" using spec ti by simp
    then have "te_insert e field = te_not_inserted e field"
      using False ti full by (simp add: te_insert_def)
    then show ?thesis using te_not_inserted_spec [OF assms(1)] by simp
  next
    case err
    then have "t1 = te_table e" "err = MaxTableSizeReached" using spec ti by simp_all
    then have "te_insert e field = te_not_inserted e field"
      using False ti err by (simp add: te_insert_def)
    then show ?thesis using te_not_inserted_spec [OF assms(1)] by simp
  next
    case 4
    then show ?thesis using spec ti by simp
  qed
qed

section \<open>Beginning and ending a section\<close>

lemma index_fields_spec:
  assumes "dt_inv t" and "drop idx (dt_fields t) = fs"
  shows "\<exists>nm fm. (index_fields idx fs t :: ('e, dynamic_table) result) = Ok (t\<lparr>dt_name_map := nm, dt_field_map := fm\<rparr>) \<and>
    dt_inv (t\<lparr>dt_name_map := nm, dt_field_map := fm\<rparr>)"
  using assms
proof (induction fs arbitrary: idx t)
  case Nil
  then show ?case by (auto intro!: exI [of _ "dt_name_map t"] exI [of _ "dt_field_map t"])
next
  case (Cons f fs)
  note d = dt_invD [OF Cons.prems(1)]
  have less: "idx < length (dt_fields t)"
    by (rule ccontr) (use Cons.prems(2) in simp)
  have nth: "dt_fields t ! idx = f" and rest: "drop (Suc idx) (dt_fields t) = fs"
    using Cons.prems(2) less by (simp_all add: Cons_nth_drop_Suc [symmetric])
  let ?a = "vas_dropped (dt_vas t) + idx + 1"
  have ix: "unwrap (vas_index (dt_vas t) idx) = (Ok ?a :: ('e, nat) result)"
    using vas_index_eq [OF d(1)] d(2) less by simp
  have addr: "dt_addr t ?a = Some f"
    using nth less d(7) by (simp add: dt_addr_def vas_live_def vas_pos_def)
  define u where "u = t\<lparr>dt_name_map := (dt_name_map t)(hf_name f \<mapsto> ?a),
     dt_field_map := (dt_field_map t)(f \<mapsto> ?a)\<rparr>"
  have "dt_maps_ok u"
    using d(6) addr unfolding dt_maps_ok_def by (simp add: u_def del: One_nat_def)
  then have inv: "dt_inv u" by (rule dt_inv_cong [OF Cons.prems(1)]) (simp_all add: u_def)
  moreover have "drop (Suc idx) (dt_fields u) = fs" using rest by (simp add: u_def)
  ultimately obtain nm fm where
    "index_fields (Suc idx) fs u = (Ok (u\<lparr>dt_name_map := nm, dt_field_map := fm\<rparr>) :: ('e, _) result)"
    "dt_inv (u\<lparr>dt_name_map := nm, dt_field_map := fm\<rparr>)" using Cons.IH by blast
  then show ?case using ix by (auto simp: u_def)
qed

lemma table_encoder_new_spec:
  assumes "dt_inv t" and "track_inv t"
  shows "\<exists>e. (table_encoder_new t stream_id :: ('e, table_encoder) result) = Ok e \<and> te_inv e \<and> te_block_refs e = [] \<and>
    dt_shared (te_table e) = dt_shared t \<and> te_stream_id e = stream_id \<and>
    te_base e = vas_inserted (dt_vas t) - vas_dropped (dt_vas t)"
proof -
  obtain nm fm where ix: "index_fields 0 (dt_fields t) t = (Ok (t\<lparr>dt_name_map := nm, dt_field_map := fm\<rparr>) :: ('e, _) result)"
    and inv: "dt_inv (t\<lparr>dt_name_map := nm, dt_field_map := fm\<rparr>)"
    using index_fields_spec [OF assms(1), of 0 "dt_fields t"] by auto
  show ?thesis
    using ix inv assms(2) dt_invD(7) [OF assms(1)]
    by (auto simp: table_encoder_new_def vas_largest_ref_def te_inv_def track_inv_def dt_shared_def)
qed

lemma te_commit_spec:
  assumes "te_inv e"
  shows "dt_inv (te_drop (te_commit e largest))" and "track_inv (te_drop (te_commit e largest))"
    and "dt_shared (te_drop (te_commit e largest)) = dt_shared (te_table e)"
proof -
  note d = te_invD [OF assms]
  let ?b = "track_block (te_table e) (te_stream_id e) (te_block_refs e)"
  let ?t = "register_blocked ?b largest"
  have eq: "te_drop (te_commit e largest) = ?t" by (simp add: te_drop_def te_commit_def)
  note b = track_block_spec [OF d(4,3), of "te_stream_id e"]
  have same: "same_content (te_table e) ?t" and tb: "dt_track_blocks ?t = dt_track_blocks ?b"
    by (simp_all add: same_content_def register_blocked_def track_block_def)
  have tc: "tc ?t = tc (te_table e)" using b(3) by (simp add: register_blocked_def)
  show "dt_inv (te_drop (te_commit e largest))"
    unfolding eq using d(1) same
    by (rule dt_inv_same_content) (use tc dt_maps_okD(3) [OF dt_invD(6) [OF d(1)]] in \<open>simp add: is_tracked_tc\<close>)
  show "track_inv (te_drop (te_commit e largest))"
    unfolding eq using b d(5) tc tb by (simp add: track_inv_def)
  show "dt_shared (te_drop (te_commit e largest)) = dt_shared (te_table e)"
    unfolding eq using same by (rule same_content_shared)
qed

lemma te_drop_uncommitted_spec:
  assumes "te_inv e"
  shows "dt_inv (te_drop e)" and "track_inv (te_drop e)" and "dt_shared (te_drop e) = dt_shared (te_table e)"
proof -
  note d = te_invD [OF assms]
  have "rc (te_block_refs e) a \<le> tc (te_table e) a" for a using d(5) by simp
  from track_cancel_spec [OF d(3) this] obtain m where
    m: "track_cancel (te_block_refs e) (te_table e) = (Ok (), te_table e\<lparr>dt_track_map := m\<rparr>)"
      "\<And>a. tc (te_table e\<lparr>dt_track_map := m\<rparr>) a = tc (te_table e) a - rc (te_block_refs e) a" by auto
  have eq: "te_drop e = te_table e\<lparr>dt_track_map := m\<rparr>"
    using m(1) d(6) by (simp add: te_drop_def)
  have same: "same_content (te_table e) (te_drop e)" by (simp add: eq same_content_def)
  show "dt_inv (te_drop e)"
    using d(1) same
    by (rule dt_inv_same_content)
      (use m(2) dt_maps_okD(3) [OF dt_invD(6) [OF d(1)]] in \<open>simp add: is_tracked_tc eq\<close>)
  show "track_inv (te_drop e)" using m(2) d(4,5) by (simp add: track_inv_def eq)
  show "dt_shared (te_drop e) = dt_shared (te_table e)" using same by (rule same_content_shared)
qed

end
