(* ===== verification/QpackSync.thy ===== *)
theory QpackSync
  imports QpackTotal TableEncoder
begin

text \<open>
  The encoder of \<open>h3/src/qpack/encoder.rs\<close> and the decoder of \<open>h3/src/qpack/decoder.rs\<close> over a
  reliable encoder stream: the decoder that has applied the encoder's instructions holds the
  same entries at the same addresses, and decodes the field section to the fields that were
  encoded. The two tables agree in their shared part; the lookup maps and the reference
  counts belong to the encoder alone.
\<close>

section \<open>Following an insertion\<close>

lemma sync_insert:
  assumes t: "dt_inv t" and d: "decoder_table_inv d" and sh: "dt_shared d = dt_shared t"
    and room: "vas_inserted (dt_vas t) < usize_max"
    and ins: "table_insert t f = (Ok (Some i), t1)"
  shows "\<exists>d1. table_put d f = (Ok (), d1) \<and> dt_shared d1 = dt_shared t1 \<and> decoder_table_inv d1"
proof -
  have dinv: "dt_inv d" and free: "\<And>a. \<not> is_tracked d a" using d by (auto simp: decoder_table_inv_def)
  have same: "dt_fields d = dt_fields t" "dt_vas d = dt_vas t" "dt_curr_size d = dt_curr_size t"
      "dt_max_size d = dt_max_size t" using sh by (auto simp: dt_shared_def)
  obtain n where n: "can_free t (mem_size f) = Ok (Some n)" "inserted_by f i n t t1" "dt_max_size t \<noteq> 0"
    using table_insert_spec [OF t room, of f] ins by auto
  have cf: "can_free d (mem_size f) = Ok (Some n)"
    using can_free_untracked [OF n(1) free] same by simp
  have droom: "vas_inserted (dt_vas d) < usize_max" using room same by simp
  obtain r d0 where di: "table_insert d f = (r, d0)" by (cases "table_insert d f")
  note spec = table_insert_spec [OF dinv droom, of f, unfolded di prod.case]
  have "\<exists>j. r = Ok (Some j)"
    using spec cf n(3) same(4) by (cases r) (auto split: option.splits)
  then obtain j where r: "r = Ok (Some j)" by blast
  then have dby: "inserted_by f j n d d0" using spec cf by auto
  have "dt_curr_size d0 = fields_size (dt_fields d0)" "dt_curr_size t1 = fields_size (dt_fields t1)"
    using dby n(2) dt_invD(3) by (auto simp: inserted_by_def)
  then have sh0: "dt_shared d0 = dt_shared t1"
    using dby n(2) same by (auto simp: inserted_by_def dt_shared_def)
  have "fst (table_put d f) = Ok ()" "dt_shared (snd (table_put d f)) = dt_shared d0"
    by (simp_all add: table_put_def di r dt_shared_def Let_def split: option.split)
  then obtain d1 where put: "table_put d f = (Ok (), d1)" "dt_shared d1 = dt_shared d0"
    by (cases "table_put d f") auto
  then have "decoder_table_inv d1"
    using table_put_spec [OF dinv droom, of f] free same_tracking_is_tracked
    by (auto simp: decoder_table_inv_def)
  with put sh0 show ?thesis by auto
qed

section \<open>Resolving references\<close>

lemma fields_get_addr:
  assumes "dt_inv t" and "dt_addr t a = Some f"
  shows "fields_get t (vas_pos (dt_vas t) a) = Ok f"
  using assms vas_pos_bound [OF dt_invD(1) [OF assms(1)]] dt_invD(2) [OF assms(1)]
  by (auto simp: fields_get_def dt_addr_def split: if_splits)

lemma table_get_relative_addr:
  assumes "dt_inv t" and "dt_addr t a = Some f"
  shows "table_get_relative t (vas_inserted (dt_vas t) - a) = Ok f"
proof -
  have "vas_live (dt_vas t) a" by (rule dt_addr_Some_live [OF assms(2)])
  then have "vas_relative (dt_vas t) (vas_inserted (dt_vas t) - a) = Ok (vas_pos (dt_vas t) a)"
    using vas_relative_eq [OF dt_invD(1) [OF assms(1)]] by (auto simp: vas_live_def)
  then show ?thesis using fields_get_addr [OF assms] by (simp add: table_get_relative_def)
qed

lemma td_get_relative_addr:
  assumes "dt_inv t" and "dt_addr t a = Some f" and "a \<le> base"
  shows "td_get_relative (table_decoder_new t base) (base - a) = Ok f"
  using vas_relative_base_live [OF dt_invD(1) [OF assms(1)] dt_addr_Some_live [OF assms(2)] assms(3)]
    fields_get_addr [OF assms(1,2)]
  by (simp add: td_get_relative_def table_decoder_new_def)

lemma td_get_postbase_addr:
  assumes "dt_inv t" and "dt_addr t a = Some f" and "base < a"
  shows "td_get_postbase (table_decoder_new t base) (a - base - 1) = Ok f"
  using vas_post_base_live [OF dt_invD(1) [OF assms(1)] dt_addr_Some_live [OF assms(2)] assms(3)]
    fields_get_addr [OF assms(1,2)]
  by (simp add: td_get_postbase_def table_decoder_new_def)

section \<open>Lines and instructions on the wire\<close>

lemma parse_line:
  "line_start k bs \<Longrightarrow> \<exists>b tl. bs = b # tl \<and> header_block_field_decode b = k"
  by (cases bs) (auto simp: line_start_def)

lemma line_indexed:
  assumes "indexed_ok x"
  shows "\<exists>bs. (indexed_encode x :: ('e, bytes) result) = Ok bs \<and>
    (\<forall>td rest. parse_header_field td (bs @ rest) =
      (case x of
         IndexedStatic i \<Rightarrow> map_ok (\<lambda>f. (f, rest)) (d_static (static_get i))
       | IndexedDynamic i \<Rightarrow> map_ok (\<lambda>f. (f, rest)) (d_table (td_get_relative td i))))"
proof -
  obtain bs where bs: "(indexed_encode x :: ('e, bytes) result) = Ok bs" "line_start HBIndexed bs"
      "\<And>rest. indexed_decode (bs @ rest) = Ok (x, rest)"
    using indexed_dec_enc [OF assms] by blast
  obtain b tl where b: "bs = b # tl" "header_block_field_decode b = HBIndexed"
    using parse_line [OF bs(2)] by blast
  have "parse_header_field td (bs @ rest) =
      (case x of
         IndexedStatic i \<Rightarrow> map_ok (\<lambda>f. (f, rest)) (d_static (static_get i))
       | IndexedDynamic i \<Rightarrow> map_ok (\<lambda>f. (f, rest)) (d_table (td_get_relative td i)))" for td rest
    using b bs(3) [of rest] by (simp add: parse_header_field_def)
  with bs(1) show ?thesis by blast
qed

lemma line_post_base:
  assumes "index_ok i"
  shows "\<exists>bs. (indexed_post_base_encode i :: ('e, bytes) result) = Ok bs \<and>
    (\<forall>td rest. parse_header_field td (bs @ rest) = map_ok (\<lambda>f. (f, rest)) (d_table (td_get_postbase td i)))"
proof -
  obtain bs where bs: "(indexed_post_base_encode i :: ('e, bytes) result) = Ok bs" "line_start HBIndexedWithPostBase bs"
      "\<And>rest. indexed_post_base_decode (bs @ rest) = Ok (i, rest)"
    using indexed_post_base_dec_enc [OF assms] by blast
  obtain b tl where b: "bs = b # tl" "header_block_field_decode b = HBIndexedWithPostBase"
    using parse_line [OF bs(2)] by blast
  have "parse_header_field td (bs @ rest) = map_ok (\<lambda>f. (f, rest)) (d_table (td_get_postbase td i))" for td rest
    using b bs(3) [of rest] by (simp add: parse_header_field_def)
  with bs(1) show ?thesis by blast
qed

lemma line_literal_name_ref:
  assumes "literal_name_ref_ok x"
  shows "\<exists>bs. literal_name_ref_encode x = Ok bs \<and>
    (\<forall>td rest. parse_header_field td (bs @ rest) =
      (case x of
         LitStatic i v \<Rightarrow> map_ok (\<lambda>f. (with_value f v, rest)) (d_static (static_get i))
       | LitDynamic i v \<Rightarrow> map_ok (\<lambda>f. (with_value f v, rest)) (d_table (td_get_relative td i))))"
proof -
  obtain bs where bs: "literal_name_ref_encode x = Ok bs" "line_start HBLiteralWithNameRef bs"
      "\<And>rest. literal_name_ref_decode (bs @ rest) = Ok (x, rest)"
    using literal_name_ref_dec_enc [OF assms] by blast
  obtain b tl where b: "bs = b # tl" "header_block_field_decode b = HBLiteralWithNameRef"
    using parse_line [OF bs(2)] by blast
  have "parse_header_field td (bs @ rest) =
      (case x of
         LitStatic i v \<Rightarrow> map_ok (\<lambda>f. (with_value f v, rest)) (d_static (static_get i))
       | LitDynamic i v \<Rightarrow> map_ok (\<lambda>f. (with_value f v, rest)) (d_table (td_get_relative td i)))" for td rest
    using b bs(3) [of rest] by (simp add: parse_header_field_def)
  with bs(1) show ?thesis by blast
qed

lemma line_literal_post_base:
  assumes "index_ok (lpb_index l)" and "string_ok (lpb_value l)"
  shows "\<exists>bs. literal_post_base_encode l = Ok bs \<and>
    (\<forall>td rest. parse_header_field td (bs @ rest) =
      map_ok (\<lambda>f. (with_value f (lpb_value l), rest)) (d_table (td_get_postbase td (lpb_index l))))"
proof -
  obtain bs where bs: "literal_post_base_encode l = Ok bs" "line_start HBLiteralWithPostBaseNameRef bs"
      "\<And>rest. literal_post_base_decode (bs @ rest) = Ok (l, rest)"
    using literal_post_base_dec_enc [OF assms] by blast
  obtain b tl where b: "bs = b # tl" "header_block_field_decode b = HBLiteralWithPostBaseNameRef"
    using parse_line [OF bs(2)] by blast
  have "parse_header_field td (bs @ rest) =
      map_ok (\<lambda>f. (with_value f (lpb_value l), rest)) (d_table (td_get_postbase td (lpb_index l)))" for td rest
    using b bs(3) [of rest] by (simp add: parse_header_field_def)
  with bs(1) show ?thesis by blast
qed

lemma line_literal:
  assumes "string_ok (lit_name l)" and "string_ok (lit_value l)"
  shows "\<exists>bs. literal_encode l = Ok bs \<and>
    (\<forall>td rest. parse_header_field td (bs @ rest) = Ok (header_field_new (lit_name l) (lit_value l), rest))"
proof -
  obtain bs where bs: "literal_encode l = Ok bs" "line_start HBLiteral bs"
      "\<And>rest. literal_decode (bs @ rest) = Ok (l, rest)"
    using literal_dec_enc [OF assms] by blast
  obtain b tl where b: "bs = b # tl" "header_block_field_decode b = HBLiteral"
    using parse_line [OF bs(2)] by blast
  have "parse_header_field td (bs @ rest) = Ok (header_field_new (lit_name l) (lit_value l), rest)" for td rest
    using b bs(3) [of rest] by (simp add: parse_header_field_def)
  with bs(1) show ?thesis by blast
qed

text \<open>An instruction that inserts a field, as the decoder applies it.\<close>

definition inserts :: "dynamic_table \<Rightarrow> header_field \<Rightarrow> bytes \<Rightarrow> bool" where
  "inserts d f bs \<longleftrightarrow> (\<forall>rest. parse_instruction d (bs @ rest) = Ok (Some (Insert f, rest)))"

lemma parse_enc_start:
  "enc_start k bs \<Longrightarrow> \<exists>b tl. bs = b # tl \<and> encoder_instruction_decode b = k"
  by (cases bs) (auto simp: enc_start_def)

lemma instr_duplicate:
  assumes "index_ok i"
  shows "\<exists>bs. (duplicate_encode i :: ('e, bytes) result) = Ok bs \<and>
    (\<forall>d f. table_get_relative d i = Ok f \<longrightarrow> inserts d f bs)"
proof -
  obtain bs where bs: "(duplicate_encode i :: ('e, bytes) result) = Ok bs" "enc_start EIDuplicate bs"
      "\<And>rest. duplicate_decode (bs @ rest) = Ok (Some (i, rest))"
    using duplicate_dec_enc [OF assms] by blast
  obtain b tl where b: "bs = b # tl" "encoder_instruction_decode b = EIDuplicate"
    using parse_enc_start [OF bs(2)] by blast
  have "inserts d f bs" if "table_get_relative d i = Ok f" for d f
    using that b bs(3) by (simp add: inserts_def parse_instruction_def)
  with bs(1) show ?thesis by blast
qed

lemma instr_insert_with_name_ref:
  assumes "insert_with_name_ref_ok x"
  shows "\<exists>bs. insert_with_name_ref_encode x = Ok bs \<and>
    (\<forall>d g i v. x = InsStatic i v \<longrightarrow> static_get i = Ok g \<longrightarrow> inserts d (with_value g v) bs) \<and>
    (\<forall>d g i v. x = InsDynamic i v \<longrightarrow> table_get_relative d i = Ok g \<longrightarrow> inserts d (with_value g v) bs)"
proof -
  obtain bs where bs: "insert_with_name_ref_encode x = Ok bs" "enc_start EIInsertWithNameRef bs"
      "\<And>rest. insert_with_name_ref_decode (bs @ rest) = Ok (Some (x, rest))"
    using insert_with_name_ref_dec_enc [OF assms] by blast
  obtain b tl where b: "bs = b # tl" "encoder_instruction_decode b = EIInsertWithNameRef"
    using parse_enc_start [OF bs(2)] by blast
  have "inserts d (with_value g v) bs" if "x = InsStatic i v" "static_get i = Ok g" for d g i v
    using that b bs(3) by (simp add: inserts_def parse_instruction_def)
  moreover have "inserts d (with_value g v) bs" if "x = InsDynamic i v" "table_get_relative d i = Ok g" for d g i v
    using that b bs(3) by (simp add: inserts_def parse_instruction_def)
  ultimately show ?thesis using bs(1) by blast
qed

lemma instr_insert_dynamic:
  assumes "index_ok i" and "string_ok v"
  shows "\<exists>bs. insert_with_name_ref_encode (InsDynamic i v) = Ok bs \<and>
    (\<forall>d g. table_get_relative d i = Ok g \<longrightarrow> inserts d (with_value g v) bs)"
  using instr_insert_with_name_ref [of "InsDynamic i v"] assms
  by (auto simp del: insert_with_name_ref_encode.simps)

lemma instr_insert_static:
  assumes "index_ok i" and "string_ok v" and "static_get i = Ok g"
  shows "\<exists>bs. insert_with_name_ref_encode (InsStatic i v) = Ok bs \<and> (\<forall>d. inserts d (with_value g v) bs)"
  using instr_insert_with_name_ref [of "InsStatic i v"] assms
  by (auto simp del: insert_with_name_ref_encode.simps)

lemma instr_insert_without_name_ref:
  assumes "string_ok (iwn_name x)" and "string_ok (iwn_value x)"
  shows "\<exists>bs. insert_without_name_ref_encode x = Ok bs \<and>
    (\<forall>d. inserts d (header_field_new (iwn_name x) (iwn_value x)) bs)"
proof -
  obtain bs where bs: "insert_without_name_ref_encode x = Ok bs" "enc_start EIInsertWithoutNameRef bs"
      "\<And>rest. insert_without_name_ref_decode (bs @ rest) = Ok (Some (x, rest))"
    using insert_without_name_ref_dec_enc [OF assms] by blast
  obtain b tl where b: "bs = b # tl" "encoder_instruction_decode b = EIInsertWithoutNameRef"
    using parse_enc_start [OF bs(2)] by blast
  have "inserts d (header_field_new (iwn_name x) (iwn_value x)) bs" for d
    using b bs(3) by (simp add: inserts_def parse_instruction_def)
  with bs(1) show ?thesis by blast
qed

lemma inserts_step:
  assumes "inserts d f bs" and "table_put d f = (Ok (), d1)"
  shows "on_encoder_recv_loop d (bs @ rest) = on_encoder_recv_loop d1 rest"
  using assms by (simp add: inserts_def on_encoder_recv_loop.simps [of d "bs @ rest"] apply_instruction_def)

end
