(* ===== verification/QpackRoundtrip.thy ===== *)
theory QpackRoundtrip
  imports QpackSync
begin

text \<open>
  A field section through the whole of QPACK: \<open>Encoder::encode\<close> of \<open>h3/src/qpack/encoder.rs\<close>
  writes the section and the encoder stream, \<open>on_encoder_recv\<close> and \<open>decode_header\<close> of
  \<open>h3/src/qpack/decoder.rs\<close> read them back, with the dynamic tables of both sides in step.
\<close>

section \<open>What one field contributes\<close>

text \<open>The decoder's table holds what the encoder's holds.\<close>

definition in_step :: "dynamic_table \<Rightarrow> dynamic_table \<Rightarrow> bool" where
  "in_step d t \<longleftrightarrow> decoder_table_inv d \<and> dt_shared d = dt_shared t"

text \<open>A table that still holds everything the section refers to.\<close>

definition resolves :: "dynamic_table \<Rightarrow> table_encoder \<Rightarrow> bool" where
  "resolves T e \<longleftrightarrow> dt_inv T \<and> (\<forall>a g. te_ref e a g \<longrightarrow> dt_addr T a = Some g)"

definition follows :: "dynamic_table \<Rightarrow> dynamic_table \<Rightarrow> bytes \<Rightarrow> bool" where
  "follows t t' ins \<longleftrightarrow> (\<forall>d. in_step d t \<longrightarrow>
     (\<exists>d'. in_step d' t' \<and> (\<forall>rest. on_encoder_recv_loop d (ins @ rest) = on_encoder_recv_loop d' rest)))"

definition reads_as :: "table_encoder \<Rightarrow> nat option \<Rightarrow> bytes \<Rightarrow> header_field \<Rightarrow> bool" where
  "reads_as e reference blk f \<longleftrightarrow> (\<forall>T b rest. resolves T e \<longrightarrow> (reference \<noteq> None \<longrightarrow> b = te_base e) \<longrightarrow>
     parse_header_field (table_decoder_new T b) (blk @ rest) = Ok (f, rest))"

definition emits :: "table_encoder \<Rightarrow> header_field \<Rightarrow> nat option \<Rightarrow> table_encoder \<Rightarrow> bytes \<Rightarrow> bytes \<Rightarrow> bool" where
  "emits e f reference e' blk ins \<longleftrightarrow> te_inv e' \<and> te_extends e e' \<and>
     vas_inserted (dt_vas (te_table e')) \<le> Suc (vas_inserted (dt_vas (te_table e))) \<and>
     follows (te_table e) (te_table e') ins \<and> reads_as e' reference blk f \<and>
     (\<forall>r. reference = Some r \<longrightarrow> (\<exists>g. te_ref e' r g))"

lemma resolves_mono: "resolves T e' \<Longrightarrow> te_extends e e' \<Longrightarrow> resolves T e"
  by (auto simp: resolves_def te_extends_def)

lemma reads_as_mono: "reads_as e reference blk f \<Longrightarrow> te_extends e e' \<Longrightarrow> reads_as e' reference blk f"
  using resolves_mono by (auto simp: reads_as_def te_extends_def)

lemma follows_refl: "dt_shared t' = dt_shared t \<Longrightarrow> follows t t' []"
  by (auto simp: follows_def in_step_def)

lemma follows_trans: "follows t t' a \<Longrightarrow> follows t' t'' b \<Longrightarrow> follows t t'' (a @ b)"
  unfolding follows_def by (metis append_assoc)

lemma dt_shared_vas: "dt_shared t' = dt_shared t \<Longrightarrow> dt_vas t' = dt_vas t"
  by (simp add: dt_shared_def)

lemma emits_prefix:
  assumes "te_extends e e1" and "dt_shared (te_table e1) = dt_shared (te_table e)"
    and "emits e1 f reference e2 blk ins"
  shows "emits e f reference e2 blk ins"
  using assms te_extends_trans dt_shared_vas [OF assms(2)]
  by (auto simp: emits_def follows_def in_step_def)

section \<open>References in a line\<close>

lemma reads_relative:
  assumes ref: "te_ref e a f" and le: "a \<le> te_base e" and ok: "index_ok (te_base e - a)"
  shows "\<exists>bs. (indexed_encode (IndexedDynamic (te_base e - a)) :: ('e, bytes) result) = Ok bs \<and>
    reads_as e (Some a) bs f"
proof -
  have "indexed_ok (IndexedDynamic (te_base e - a))" using ok by simp
  from line_indexed [OF this] obtain bs where
    bs: "(indexed_encode (IndexedDynamic (te_base e - a)) :: ('e, bytes) result) = Ok bs"
      "\<And>td rest. parse_header_field td (bs @ rest) =
         map_ok (\<lambda>f. (f, rest)) (d_table (td_get_relative td (te_base e - a)))" by auto
  have "td_get_relative (table_decoder_new T (te_base e)) (te_base e - a) = Ok f" if "resolves T e" for T
    using that ref le by (auto simp: resolves_def intro: td_get_relative_addr)
  then have "reads_as e (Some a) bs f" using bs(2) by (simp add: reads_as_def)
  with bs(1) show ?thesis by blast
qed

lemma reads_post_base:
  assumes ref: "te_ref e a f" and lt: "te_base e < a" and ok: "index_ok (a - te_base e - 1)"
  shows "\<exists>bs. (indexed_post_base_encode (a - te_base e - 1) :: ('e, bytes) result) = Ok bs \<and>
    reads_as e (Some a) bs f"
proof -
  from line_post_base [OF ok] obtain bs where
    bs: "(indexed_post_base_encode (a - te_base e - 1) :: ('e, bytes) result) = Ok bs"
      "\<And>td rest. parse_header_field td (bs @ rest) =
         map_ok (\<lambda>f. (f, rest)) (d_table (td_get_postbase td (a - te_base e - 1)))" by auto
  have "td_get_postbase (table_decoder_new T (te_base e)) (a - te_base e - 1) = Ok f" if "resolves T e" for T
    using that ref lt unfolding resolves_def by (blast intro: td_get_postbase_addr)
  then have "reads_as e (Some a) bs f" using bs(2) by (simp add: reads_as_def)
  with bs(1) show ?thesis by blast
qed

lemma header_field_new_same [simp]: "header_field_new (hf_name f) (hf_value f) = f"
  by (simp add: header_field_new_def)

lemma with_value_same: "hf_name g = hf_name f \<Longrightarrow> with_value g (hf_value f) = f"
  by (simp add: with_value_def)

lemma reads_name_relative:
  assumes ref: "te_ref e a g" "hf_name g = hf_name f" and le: "a \<le> te_base e"
    and ok: "index_ok (te_base e - a)" "string_ok (hf_value f)"
  shows "\<exists>bs. literal_name_ref_encode (LitDynamic (te_base e - a) (hf_value f)) = Ok bs \<and> reads_as e (Some a) bs f"
proof -
  have "literal_name_ref_ok (LitDynamic (te_base e - a) (hf_value f))" using ok by simp
  from line_literal_name_ref [OF this] obtain bs where
    bs: "literal_name_ref_encode (LitDynamic (te_base e - a) (hf_value f)) = Ok bs"
      "\<And>td rest. parse_header_field td (bs @ rest) =
         map_ok (\<lambda>g. (with_value g (hf_value f), rest)) (d_table (td_get_relative td (te_base e - a)))" by auto
  have "td_get_relative (table_decoder_new T (te_base e)) (te_base e - a) = Ok g" if "resolves T e" for T
    using that ref le by (auto simp: resolves_def intro: td_get_relative_addr)
  then have "reads_as e (Some a) bs f" using bs(2) by (simp add: reads_as_def with_value_same [OF ref(2)])
  with bs(1) show ?thesis by blast
qed

lemma reads_name_post_base:
  assumes ref: "te_ref e a g" "hf_name g = hf_name f" and lt: "te_base e < a"
    and ok: "index_ok (a - te_base e - 1)" "string_ok (hf_value f)"
  shows "\<exists>bs. literal_post_base_encode \<lparr>lpb_index = a - te_base e - 1, lpb_value = hf_value f\<rparr> = Ok bs \<and>
    reads_as e (Some a) bs f"
proof -
  let ?l = "\<lparr>lpb_index = a - te_base e - 1, lpb_value = hf_value f\<rparr>"
  have "index_ok (lpb_index ?l)" "string_ok (lpb_value ?l)" using ok by simp_all
  from line_literal_post_base [OF this] obtain bs where
    bs: "literal_post_base_encode ?l = Ok bs"
      "\<And>td rest. parse_header_field td (bs @ rest) =
         map_ok (\<lambda>g. (with_value g (hf_value f), rest)) (d_table (td_get_postbase td (a - te_base e - 1)))" by auto
  have "td_get_postbase (table_decoder_new T (te_base e)) (a - te_base e - 1) = Ok g" if "resolves T e" for T
    using that ref lt unfolding resolves_def by (blast intro: td_get_postbase_addr)
  then have "reads_as e (Some a) bs f" using bs(2) by (simp add: reads_as_def with_value_same [OF ref(2)])
  with bs(1) show ?thesis by blast
qed

section \<open>Encoding one field\<close>

lemma put_block_Ok [simp]: "put_block (Ok bs) s = (Ok (), s\<lparr>es_block := es_block s @ bs\<rparr>)"
  by (simp add: put_block_def)

lemma put_encoder_Ok [simp]: "put_encoder (Ok bs) s = (Ok (), s\<lparr>es_encoder := es_encoder s @ bs\<rparr>)"
  by (simp add: put_encoder_def)

text \<open>The block and the instructions of an encoding step, with what they stand for.\<close>

definition steps_to :: "(encoder_error, nat option) result \<times> encode_state \<Rightarrow> encode_state \<Rightarrow> table_encoder \<Rightarrow>
    header_field \<Rightarrow> bool" where
  "steps_to out s e f \<longleftrightarrow> (\<exists>reference e' blk ins.
     out = (Ok reference, s\<lparr>es_table := e', es_block := es_block s @ blk, es_encoder := es_encoder s @ ins\<rparr>) \<and>
     emits e f reference e' blk ins)"

lemma in_step_addr:
  assumes "in_step d t" and "dt_addr t r = Some g"
  shows "table_get_relative d (vas_inserted (dt_vas t) - r) = Ok g"
proof -
  have sh: "dt_shared d = dt_shared t" and "dt_inv d"
    using assms(1) by (auto simp: in_step_def decoder_table_inv_def)
  moreover have "dt_addr d r = Some g" "dt_vas d = dt_vas t"
    using dt_shared_addr [OF sh] dt_shared_vas [OF sh] assms(2) by simp_all
  ultimately show ?thesis using table_get_relative_addr [of d r g] by simp
qed

lemma follows_insert:
  assumes "dt_inv t" and "vas_inserted (dt_vas t) < usize_max"
    and "table_insert t f = (Ok (Some i), t1)" and "dt_shared t' = dt_shared t1"
    and ins: "\<And>d. in_step d t \<Longrightarrow> inserts d f bs"
  shows "follows t t' bs"
proof (unfold follows_def, intro allI impI)
  fix d assume d: "in_step d t"
  obtain d1 where d1: "table_put d f = (Ok (), d1)" "dt_shared d1 = dt_shared t1" "decoder_table_inv d1"
    using sync_insert [OF assms(1) _ _ assms(2,3), of d] d by (auto simp: in_step_def)
  have "on_encoder_recv_loop d (bs @ rest) = on_encoder_recv_loop d1 rest" for rest
    using inserts_step [OF ins [OF d] d1(1)] .
  with d1 assms(4) show "\<exists>d'. in_step d' t' \<and> (\<forall>rest. on_encoder_recv_loop d (bs @ rest) = on_encoder_recv_loop d' rest)"
    by (auto simp: in_step_def)
qed

lemma static_name_with_value:
  assumes "static_find_name (hf_name f) = Some i"
  shows "\<exists>g. static_get i = Ok g \<and> with_value g (hf_value f) = f" and "index_ok i"
proof -
  have i: "i < 99" "hf_name (PREDEFINED_HEADERS ! i) = hf_name f"
    using static_find_name_Some [OF assms] by simp_all
  show "index_ok i" using i(1) by (rule static_index_ok)
  show "\<exists>g. static_get i = Ok g \<and> with_value g (hf_value f) = f"
    using i(1) with_value_same [OF i(2)] by (intro exI [of _ "PREDEFINED_HEADERS ! i"]) simp
qed

text \<open>The four ways to insert share the line: a post-base index of the new entry.\<close>

lemma emits_inserted:
  assumes e: "te_inv e" and room: "index_ok (Suc (vas_inserted (dt_vas (te_table e))))"
    and post: "te_inv e'" "te_extends e e'"
      "te_ref e' (Suc (vas_inserted (dt_vas (te_table e)))) f"
      "table_insert (te_table e) f = (Ok (Some (Suc (vas_inserted (dt_vas (te_table e))))), t1)"
      "dt_shared (te_table e') = dt_shared t1"
    and ins: "\<And>d. in_step d (te_table e) \<Longrightarrow> inserts d f bs"
  shows "\<exists>blk. (indexed_post_base_encode (Suc (vas_inserted (dt_vas (te_table e))) - te_base e - 1) :: ('e, bytes) result) = Ok blk \<and>
    emits e f (Some (Suc (vas_inserted (dt_vas (te_table e))))) e' blk bs"
proof -
  let ?a = "Suc (vas_inserted (dt_vas (te_table e)))"
  note d = te_invD [OF e]
  have usz: "vas_inserted (dt_vas (te_table e)) < usize_max"
    using room by (simp add: index_ok_def usize_max_def)
  have base: "te_base e' = te_base e" using post(2) by (simp add: te_extends_def)
  have "index_ok (?a - te_base e' - 1)" using room by (auto simp: index_ok_def)
  then obtain blk where blk: "(indexed_post_base_encode (?a - te_base e' - 1) :: ('e, bytes) result) = Ok blk"
      "reads_as e' (Some ?a) blk f"
    using reads_post_base [OF post(3)] d(2) base by (auto simp del: One_nat_def)
  have "vas_inserted (dt_vas t1) = ?a"
    using table_insert_spec [OF d(1) usz, of f] post(4) by (auto simp: inserted_by_def)
  then have "vas_inserted (dt_vas (te_table e')) = ?a" using dt_shared_vas [OF post(5)] by simp
  moreover have "follows (te_table e) (te_table e') bs"
    using follows_insert [OF d(1) usz post(4,5) ins] .
  ultimately have "emits e f (Some ?a) e' blk bs"
    using post(1-3) blk(2) by (auto simp: emits_def)
  with blk(1) base show ?thesis by auto
qed

lemma emits_not_inserted:
  assumes "te_inv e'" and "te_extends e e'" and "dt_shared (te_table e') = dt_shared (te_table e)"
    and "reads_as e' reference blk f" and "\<And>r. reference = Some r \<Longrightarrow> \<exists>g. te_ref e' r g"
  shows "emits e f reference e' blk []"
  using assms follows_refl [OF assms(3)] dt_shared_vas [OF assms(3)] by (auto simp: emits_def)

lemma steps_toI:
  assumes "out = (Ok reference, s\<lparr>es_table := e', es_block := es_block s @ blk, es_encoder := es_encoder s @ ins\<rparr>)"
    and "emits e f reference e' blk ins"
  shows "steps_to out s e f"
  using assms by (auto simp: steps_to_def)

lemma encode_inserted_step:
  assumes e: "te_inv e" and f: "field_ok f"
    and room: "index_ok (Suc (vas_inserted (dt_vas (te_table e))))"
    and post: "insert_post e f r e'" and r: "\<And>l. r \<noteq> NotInserted l"
  shows "steps_to (encode_insertion r f (s\<lparr>es_table := e'\<rparr>)) s e f"
proof -
  let ?a = "Suc (vas_inserted (dt_vas (te_table e)))"
  have nv: "string_ok (hf_name f)" "string_ok (hf_value f)" using f by (auto simp: field_ok_def)
  have p: "te_inv e'" "te_extends e e'" "te_ref e' ?a f" "insertion_meaning e f r"
    and t1: "\<exists>t1. table_insert (te_table e) f = (Ok (Some ?a), t1) \<and> dt_shared (te_table e') = dt_shared t1"
    using post r by (cases r; simp add: insert_post_def)+
  obtain t1 where t1: "table_insert (te_table e) f = (Ok (Some ?a), t1)" "dt_shared (te_table e') = dt_shared t1"
    using t1 by blast
  note emit = emits_inserted [OF e room p(1-3) t1, where ?'e = string_error]
  have rel: "index_ok (vas_inserted (dt_vas (te_table e)) - b)" for b
    using room by (simp add: index_ok_def)
  show ?thesis
  proof (cases r)
    case (Inserted post a)
    obtain bs where bs: "insert_without_name_ref_encode \<lparr>iwn_name = hf_name f, iwn_value = hf_value f\<rparr> = Ok bs"
        "\<And>d. inserts d f bs"
      using instr_insert_without_name_ref [of "\<lparr>iwn_name = hf_name f, iwn_value = hf_value f\<rparr>"] nv
      by auto
    obtain blk where blk: "(indexed_post_base_encode (?a - te_base e - 1) :: (string_error, bytes) result) = Ok blk"
        "emits e f (Some ?a) e' blk bs"
      using emit [OF bs(2)] by blast
    show ?thesis
      by (rule steps_toI [OF _ blk(2)]) (use p(4) blk(1) bs(1) in \<open>simp add: Inserted\<close>)
  next
    case (Duplicated rel' post a)
    then obtain b where b: "dt_addr (te_table e) b = Some f" "rel' = vas_inserted (dt_vas (te_table e)) - b"
      using p(4) by auto
    obtain bs where bs: "(duplicate_encode rel' :: (string_error, bytes) result) = Ok bs"
        "\<And>d f. table_get_relative d rel' = Ok f \<Longrightarrow> inserts d f bs"
      using instr_duplicate [of rel', where ?'e = string_error] rel b(2) by auto
    obtain blk where blk: "(indexed_post_base_encode (?a - te_base e - 1) :: (string_error, bytes) result) = Ok blk"
        "emits e f (Some ?a) e' blk bs"
      using emit [OF bs(2)] in_step_addr [OF _ b(1)] b(2) by blast
    show ?thesis
      by (rule steps_toI [OF _ blk(2)]) (use p(4) blk(1) bs(1) in \<open>simp add: Duplicated\<close>)
  next
    case (InsertedWithNameRef post rel' a)
    then obtain b g where b: "dt_addr (te_table e) b = Some g" "hf_name g = hf_name f"
        "rel' = vas_inserted (dt_vas (te_table e)) - b"
      using p(4) by auto
    have rel': "index_ok rel'" using rel b(3) by simp
    from instr_insert_dynamic [OF rel' nv(2)] obtain bs where
      bs: "insert_with_name_ref_encode (InsDynamic rel' (hf_value f)) = Ok bs"
        "\<And>d. table_get_relative d rel' = Ok g \<Longrightarrow> inserts d f bs"
      using with_value_same [OF b(2)] by metis
    obtain blk where blk: "(indexed_post_base_encode (?a - te_base e - 1) :: (string_error, bytes) result) = Ok blk"
        "emits e f (Some ?a) e' blk bs"
      using emit [OF bs(2)] in_step_addr [OF _ b(1)] b(3) by blast
    show ?thesis
      by (rule steps_toI [OF _ blk(2)]) (use p(4) blk(1) bs(1) in \<open>simp add: InsertedWithNameRef\<close>)
  next
    case (InsertedWithStaticNameRef post i a)
    then have i: "static_find_name (hf_name f) = Some i" using p(4) by simp
    obtain g where g: "static_get i = Ok g" "with_value g (hf_value f) = f"
      using static_name_with_value(1) [OF i] by blast
    from instr_insert_static [OF static_name_with_value(2) [OF i] nv(2) g(1)] obtain bs where
      bs: "insert_with_name_ref_encode (InsStatic i (hf_value f)) = Ok bs" "\<And>d. inserts d f bs"
      unfolding g(2) by blast
    obtain blk where blk: "(indexed_post_base_encode (?a - te_base e - 1) :: (string_error, bytes) result) = Ok blk"
        "emits e f (Some ?a) e' blk bs"
      using emit [OF bs(2)] by blast
    show ?thesis
      by (rule steps_toI [OF _ blk(2)]) (use p(4) blk(1) bs(1) in \<open>simp add: InsertedWithStaticNameRef\<close>)
  qed (use r in simp)
qed

lemma encode_not_inserted_step:
  assumes f: "field_ok f" and room: "index_ok (Suc (vas_inserted (dt_vas (te_table e))))"
    and post: "insert_post e f (NotInserted l) e'"
  shows "steps_to (encode_insertion (NotInserted l) f (s\<lparr>es_table := e'\<rparr>)) s e f"
proof -
  have nv: "string_ok (hf_name f)" "string_ok (hf_value f)" using f by (auto simp: field_ok_def)
  have p: "te_inv e'" "te_extends e e'" "dt_shared (te_table e') = dt_shared (te_table e)"
    using post by (auto simp: insert_post_def)
  have base: "te_base e' = te_base e" using p(2) by (simp add: te_extends_def)
  have bound: "te_base e \<le> vas_inserted (dt_vas (te_table e))" "a \<le> vas_inserted (dt_vas (te_table e))"
    if "te_ref e' a g" for a g
    using te_invD(2) [OF p(1)] dt_shared_vas [OF p(3)] that base dt_addr_Some_live [of "te_table e'" a g]
    by (auto simp: te_ref_def vas_live_def)
  note emit = emits_not_inserted [OF p]
  consider i where "l = LookupStatic i" "static_find_name (hf_name f) = Some i"
    | a g where "te_ref e' a g" "hf_name g = hf_name f" "a \<le> te_base e'" "l = LookupRelative (te_base e' - a) a"
    | a g where "te_ref e' a g" "hf_name g = hf_name f" "te_base e' < a" "l = LookupPostBase (a - te_base e' - 1) a"
    | "l = NotFound"
    using post base by (auto simp: insert_post_def)
  then show ?thesis
  proof cases
    case (1 i)
    note g = static_name_with_value [OF 1(2)]
    obtain bs where bs: "literal_name_ref_encode (LitStatic i (hf_value f)) = Ok bs"
        "\<And>td rest. parse_header_field td (bs @ rest) =
          map_ok (\<lambda>g. (with_value g (hf_value f), rest)) (d_static (static_get i))"
      using line_literal_name_ref [of "LitStatic i (hf_value f)"] g(2) nv by auto
    have "reads_as e' None bs f" using bs(2) g(1) by (auto simp: reads_as_def)
    from emit [OF this] have em: "emits e f None e' bs []" by simp
    show ?thesis by (rule steps_toI [OF _ em]) (use bs(1) 1 in simp)
  next
    case (2 a g)
    have "index_ok (te_base e' - a)" using bound [OF 2(1)] base room by (simp add: index_ok_def)
    then obtain bs where bs: "literal_name_ref_encode (LitDynamic (te_base e' - a) (hf_value f)) = Ok bs"
        "reads_as e' (Some a) bs f"
      using reads_name_relative [OF 2(1-3) _ nv(2)] by blast
    have em: "emits e f (Some a) e' bs []" using emit [OF bs(2)] 2(1) by auto
    show ?thesis by (rule steps_toI [OF _ em]) (use bs(1) 2(4) in simp)
  next
    case (3 a g)
    have "index_ok (a - te_base e' - 1)" using bound [OF 3(1)] room by (simp add: index_ok_def)
    then obtain bs where bs: "literal_post_base_encode \<lparr>lpb_index = a - te_base e' - 1, lpb_value = hf_value f\<rparr> = Ok bs"
        "reads_as e' (Some a) bs f"
      using reads_name_post_base [OF 3(1-3) _ nv(2)] by blast
    have em: "emits e f (Some a) e' bs []" using emit [OF bs(2)] 3(1) by auto
    show ?thesis by (rule steps_toI [OF _ em]) (use bs(1) 3(4) in simp)
  next
    case 4
    obtain bs where bs: "literal_encode \<lparr>lit_name = hf_name f, lit_value = hf_value f\<rparr> = Ok bs"
        "\<And>td rest. parse_header_field td (bs @ rest) = Ok (f, rest)"
      using line_literal [of "\<lparr>lit_name = hf_name f, lit_value = hf_value f\<rparr>"] nv by auto
    have "reads_as e' None bs f" using bs(2) by (auto simp: reads_as_def)
    from emit [OF this] have em: "emits e f None e' bs []" by simp
    show ?thesis by (rule steps_toI [OF _ em]) (use bs(1) 4 in simp)
  qed
qed

lemma encode_insertion_step:
  assumes "te_inv e" and "field_ok f" and "index_ok (Suc (vas_inserted (dt_vas (te_table e))))"
    and "insert_post e f r e'"
  shows "steps_to (encode_insertion r f (s\<lparr>es_table := e'\<rparr>)) s e f"
proof (cases "\<exists>l. r = NotInserted l")
  case True
  then show ?thesis using encode_not_inserted_step [OF assms(2,3)] assms(4) by blast
next
  case False
  then show ?thesis using encode_inserted_step [OF assms] by blast
qed

lemma encode_field_step:
  assumes e: "te_inv (es_table s)" and f: "field_ok f"
    and room: "index_ok (Suc (vas_inserted (dt_vas (te_table (es_table s)))))"
  shows "steps_to (encode_field f s) s (es_table s) f"
proof -
  define e where "e = es_table s"
  have inv: "te_inv e" using e by (simp add: e_def)
  show ?thesis
  proof (cases "static_find f")
    case (Some i)
    have i: "i < 99" "static_get i = Ok f"
      using Some static_find_Some_iff static_find_get by auto
    obtain bs where bs: "(indexed_encode (IndexedStatic i) :: (string_error, bytes) result) = Ok bs"
        "\<And>td rest. parse_header_field td (bs @ rest) = map_ok (\<lambda>f. (f, rest)) (d_static (static_get i))"
      using line_indexed [of "IndexedStatic i", where ?'e = string_error] static_index_ok [OF i(1)] by auto
    have "reads_as e None bs f" using bs(2) i(2) by (simp add: reads_as_def)
    from emits_not_inserted [OF inv te_extends_refl refl this] have em: "emits e f None e bs []" by simp
    show ?thesis unfolding e_def [symmetric]
      by (rule steps_toI [OF _ em]) (use Some bs(1) in \<open>simp add: encode_field_def e_def\<close>)
  next
    case None
    obtain l e1 where l: "te_find e f = (l, e1)" by (cases "te_find e f")
    have post: "lookup_post e (dt_field_map (te_table e) f) l e1"
      using te_find_spec [OF inv, of f] l by simp
    then have e1: "te_inv e1" "te_extends e e1" "dt_shared (te_table e1) = dt_shared (te_table e)"
      using same_content_shared by (auto simp: lookup_post_def)
    have base: "te_base e1 = te_base e" using e1(2) by (simp add: te_extends_def)
    show ?thesis
    proof (cases "\<exists>i a. l = LookupRelative i a")
      case True
      then obtain a where a: "l = LookupRelative (te_base e1 - a) a" "a \<le> te_base e1"
          "dt_field_map (te_table e) f = Some a" "0 < rc (te_block_refs e1) a"
        using post base by (auto simp: lookup_post_def)
      have ref: "te_ref e1 a f"
        using a(3,4) dt_maps_okD(1) [OF dt_invD(6) [OF te_invD(1) [OF inv]]] dt_shared_addr [OF e1(3)]
        by (auto simp: te_ref_def)
      have "index_ok (te_base e1 - a)"
        using te_invD(2) [OF inv] base room by (simp add: index_ok_def e_def)
      then obtain bs where bs: "(indexed_encode (IndexedDynamic (te_base e1 - a)) :: (string_error, bytes) result) = Ok bs"
          "reads_as e1 (Some a) bs f"
        using reads_relative [OF ref a(2), where ?'e = string_error] by blast
      have em: "emits e f (Some a) e1 bs []" using emits_not_inserted [OF e1 bs(2)] ref by auto
      show ?thesis unfolding e_def [symmetric]
        by (rule steps_toI [OF _ em]) (use None l a(1) bs(1) in \<open>simp add: encode_field_def e_def\<close>)
    next
      case False
      have ins1: "vas_inserted (dt_vas (te_table e1)) = vas_inserted (dt_vas (te_table e))"
        using dt_shared_vas [OF e1(3)] by simp
      have "vas_inserted (dt_vas (te_table e1)) < usize_max"
        using room ins1 by (simp add: index_ok_def usize_max_def e_def)
      from te_insert_spec [OF e1(1) this, of f] obtain r e2 where
        r: "te_insert e1 f = (Ok r, e2)" "insert_post e1 f r e2" by blast
      have eq: "encode_field f s = encode_insertion r f (s\<lparr>es_table := e2\<rparr>)"
        using None l False r(1)
        by (cases l) (simp_all add: encode_field_def e_def)
      have "index_ok (Suc (vas_inserted (dt_vas (te_table e1))))" using room ins1 by (simp add: e_def)
      from encode_insertion_step [OF e1(1) f this r(2), of s] have
        "steps_to (encode_field f s) s e1 f" unfolding eq .
      then show ?thesis using emits_prefix [OF e1(2,3)] by (fastforce simp: steps_to_def e_def)
    qed
  qed
qed

section \<open>Encoding a section\<close>

lemma te_ref_pos: "te_ref e a g \<Longrightarrow> 0 < a \<and> vas_live (dt_vas (te_table e)) a"
  using dt_addr_Some_live by (fastforce simp: te_ref_def vas_live_def)

definition reads_fields :: "table_encoder \<Rightarrow> nat \<Rightarrow> bytes \<Rightarrow> header_field list \<Rightarrow> bool" where
  "reads_fields e required blk fs \<longleftrightarrow> (\<forall>T b msize acc. resolves T e \<longrightarrow> (required \<noteq> 0 \<longrightarrow> b = te_base e) \<longrightarrow>
     msize + fields_mem_size fs \<le> usize_max \<longrightarrow>
     decode_header_loop (table_decoder_new T b) blk msize acc = Ok (msize + fields_mem_size fs, acc @ fs))"

lemma reads_fields_Cons:
  assumes f: "reads_as e reference b1 f" and fs: "reads_fields e required b2 fs"
    and ref: "reference \<noteq> None \<Longrightarrow> required \<noteq> 0"
  shows "reads_fields e required (b1 @ b2) (f # fs)"
proof (unfold reads_fields_def, intro allI impI)
  fix T b msize acc
  assume T: "resolves T e" and b: "required \<noteq> 0 \<longrightarrow> b = te_base e"
    and sz: "msize + fields_mem_size (f # fs) \<le> usize_max"
  have one: "parse_header_field (table_decoder_new T b) (b1 @ b2) = Ok (f, b2)"
    using f T b ref unfolding reads_as_def by blast
  then have "b1 @ b2 \<noteq> []" by (auto simp: parse_header_field_def)
  moreover have "decode_header_loop (table_decoder_new T b) b2 (msize + mem_size f) (acc @ [f]) =
      Ok (msize + mem_size f + fields_mem_size fs, (acc @ [f]) @ fs)"
    using fs T b sz by (simp add: reads_fields_def)
  ultimately show "decode_header_loop (table_decoder_new T b) (b1 @ b2) msize acc =
      Ok (msize + fields_mem_size (f # fs), acc @ f # fs)"
    using one sz by (subst decode_header_loop.simps) (simp add: add.assoc)
qed

lemma encode_fields_spec:
  assumes "te_inv (es_table s)" and "\<forall>f \<in> set fs. field_ok f"
    and "index_ok (vas_inserted (dt_vas (te_table (es_table s))) + length fs)"
  shows "\<exists>required e' blk ins. encode_fields fs r0 s =
      (Ok required, s\<lparr>es_table := e', es_block := es_block s @ blk, es_encoder := es_encoder s @ ins\<rparr>) \<and>
    te_inv e' \<and> te_extends (es_table s) e' \<and>
    vas_inserted (dt_vas (te_table e')) \<le> vas_inserted (dt_vas (te_table (es_table s))) + length fs \<and>
    follows (te_table (es_table s)) (te_table e') ins \<and> reads_fields e' required blk fs \<and>
    r0 \<le> required \<and> (required \<noteq> r0 \<longrightarrow> (\<exists>g. te_ref e' required g))"
  using assms
proof (induction fs arbitrary: s r0)
  case Nil
  have "reads_fields (es_table s) r0 [] []"
    by (simp add: reads_fields_def decode_header_loop.simps)
  then show ?case
    using Nil follows_refl [OF refl]
    by (intro exI [of _ r0] exI [of _ "es_table s"] exI [of _ "[]"]) simp
next
  case (Cons f fs)
  have "index_ok (Suc (vas_inserted (dt_vas (te_table (es_table s)))))"
    using Cons.prems(3) by (simp add: index_ok_def)
  then have "steps_to (encode_field f s) s (es_table s) f"
    using encode_field_step Cons.prems(1,2) by simp
  then obtain reference e1 b1 i1 where
    step: "encode_field f s = (Ok reference, s\<lparr>es_table := e1, es_block := es_block s @ b1, es_encoder := es_encoder s @ i1\<rparr>)"
    and em: "emits (es_table s) f reference e1 b1 i1"
    by (auto simp: steps_to_def)
  let ?s1 = "s\<lparr>es_table := e1, es_block := es_block s @ b1, es_encoder := es_encoder s @ i1\<rparr>"
  let ?r1 = "case reference of Some r \<Rightarrow> max r0 r | None \<Rightarrow> r0"
  have e1: "te_inv (es_table ?s1)" "te_extends (es_table s) e1" "follows (te_table (es_table s)) (te_table e1) i1"
      "reads_as e1 reference b1 f" and refs: "\<And>r. reference = Some r \<Longrightarrow> \<exists>g. te_ref e1 r g"
    and grow: "vas_inserted (dt_vas (te_table e1)) \<le> Suc (vas_inserted (dt_vas (te_table (es_table s))))"
    using em by (auto simp: emits_def)
  have idx: "index_ok (vas_inserted (dt_vas (te_table (es_table ?s1))) + length fs)"
    using Cons.prems(3) grow by (simp add: index_ok_def)
  have ok: "\<forall>f \<in> set fs. field_ok f" using Cons.prems(2) by simp
  from Cons.IH [OF e1(1) ok idx, of ?r1] obtain required e' b2 i2 where IH':
      "encode_fields fs ?r1 ?s1 =
        (Ok required, ?s1\<lparr>es_table := e', es_block := es_block ?s1 @ b2, es_encoder := es_encoder ?s1 @ i2\<rparr>)"
      "te_inv e'" "te_extends (es_table ?s1) e'"
      "vas_inserted (dt_vas (te_table e')) \<le> vas_inserted (dt_vas (te_table (es_table ?s1))) + length fs"
      "follows (te_table (es_table ?s1)) (te_table e') i2" "reads_fields e' required b2 fs"
      "?r1 \<le> required" "required \<noteq> ?r1 \<longrightarrow> (\<exists>g. te_ref e' required g)"
    by (elim exE conjE)
  have tbl: "es_table ?s1 = e1" by simp
  note IH = IH'(1,2) IH'(3) [unfolded tbl] IH'(5) [unfolded tbl] IH'(6-8) IH'(4) [unfolded tbl]
  have "required \<noteq> 0" if "reference \<noteq> None"
    using that IH(6) refs te_ref_pos by fastforce
  from reads_fields_Cons [OF reads_as_mono [OF e1(4) IH(3)] IH(5) this]
  have reads: "reads_fields e' required (b1 @ b2) (f # fs)" .
  have req: "r0 \<le> required" "required \<noteq> r0 \<longrightarrow> (\<exists>g. te_ref e' required g)"
    using IH(3,6,7) refs by (auto simp: te_extends_def max_def split: option.splits if_splits)
  have "encode_fields (f # fs) r0 s =
      (Ok required, s\<lparr>es_table := e', es_block := es_block s @ (b1 @ b2), es_encoder := es_encoder s @ (i1 @ i2)\<rparr>)"
    using step IH(1) by simp
  moreover have "vas_inserted (dt_vas (te_table e')) \<le> vas_inserted (dt_vas (te_table (es_table s))) + length (f # fs)"
    using IH(8) grow by simp
  ultimately show ?case
    using IH(2) te_extends_trans [OF e1(2) IH(3)] follows_trans [OF e1(3) IH(4)] reads req by blast
qed

text \<open>A reference that is still live is within the window the prefix can express.\<close>

lemma live_window:
  assumes "dt_inv t" and "vas_live (dt_vas t) a"
  shows "32 \<le> dt_max_size t" and "dt_max_size t \<le> 2 ^ 30"
    and "a \<le> vas_inserted (dt_vas t)" and "vas_inserted (dt_vas t) < a + dt_max_size t div 32"
proof -
  note d = dt_invD [OF assms(1)]
  have n: "vas_inserted (dt_vas t) < a + length (dt_fields t)" "dt_fields t \<noteq> []"
    using assms(2) d(7) by (auto simp: vas_live_def)
  have "32 * length (dt_fields t) \<le> dt_max_size t" using fields_size_length d(4) by (rule order.trans)
  then have len: "length (dt_fields t) \<le> dt_max_size t div 32" by (simp add: less_eq_div_iff_mult_less_eq)
  with n show "vas_inserted (dt_vas t) < a + dt_max_size t div 32" by simp
  have "0 < length (dt_fields t)" using n(2) by simp
  with len have "1 \<le> dt_max_size t div 32" by linarith
  then show "32 \<le> dt_max_size t" by (simp add: less_eq_div_iff_mult_less_eq)
  show "dt_max_size t \<le> 2 ^ 30" using d(5) by (simp add: SETTINGS_MAX_TABLE_CAPACITY_MAX_def)
  show "a \<le> vas_inserted (dt_vas t)" using assms(2) by (simp add: vas_live_def)
qed

text \<open>The prefix of a section, read against the same table.\<close>

lemma prefix_reads:
  assumes inv: "te_inv e" and ins: "index_ok (vas_inserted (dt_vas (te_table e)))"
    and ref: "required \<noteq> 0 \<longrightarrow> (\<exists>g. te_ref e required g)"
  shows "\<exists>p b. and_then (header_prefix_new required (te_base e) (te_total_inserted e) (te_max_size e))
        header_prefix_encode = (Ok p :: ('e, bytes) result) \<and>
    (required \<noteq> 0 \<longrightarrow> b = te_base e) \<and>
    (\<forall>rest. \<exists>hp. header_prefix_decode (p @ rest) = Ok (hp, rest) \<and>
      header_prefix_get hp (te_total_inserted e) (te_max_size e) = Ok (required, b))"
proof -
  note d = te_invD [OF inv]
  have eqs: "te_total_inserted e = vas_inserted (dt_vas (te_table e))" "te_max_size e = dt_max_size (te_table e)"
    by (simp_all add: te_total_inserted_def total_inserted_def vas_total_inserted_def te_max_size_def)
  obtain hp b where hp: "(header_prefix_new required (te_base e) (te_total_inserted e) (te_max_size e) :: ('e, header_prefix) result) = Ok hp"
      "header_prefix_get hp (te_total_inserted e) (te_max_size e) = Ok (required, b)"
      "index_ok (hp_encoded_insert_count hp)" "index_ok (hp_delta_base hp)" "required \<noteq> 0 \<longrightarrow> b = te_base e"
  proof (cases "required = 0")
    case True
    show ?thesis
      by (rule that [of "\<lparr>hp_encoded_insert_count = 0, hp_sign_negative = False, hp_delta_base = 0\<rparr>" 0])
        (simp_all add: True header_prefix_get_zero index_ok_def)
  next
    case False
    then obtain g where g: "te_ref e required g" using ref by blast
    have live: "vas_live (dt_vas (te_table e)) required" using te_ref_pos [OF g] by simp
    note w = live_window [OF d(1) live]
    show ?thesis
      using header_prefix_get_new [OF w(1,2) _ _ w(3,4) d(2), where ?'e = 'e] ins False that
      by (auto simp: eqs index_ok_def)
  qed
  obtain p where p: "(header_prefix_encode hp :: ('e, bytes) result) = Ok p"
      "\<And>rest. header_prefix_decode (p @ rest) = Ok (hp, rest)"
    using header_prefix_dec_enc [OF hp(3,4), where ?'e = 'e] by blast
  show ?thesis using hp p by (intro exI [of _ p] exI [of _ b]) auto
qed

lemma on_encoder_recv_follows:
  assumes "follows t t' ins" and "in_step d t" and "vas_inserted (dt_vas t) \<le> vas_inserted (dt_vas t')"
  shows "\<exists>d' out. in_step d' t' \<and>
    on_encoder_recv d ins =
      (if vas_inserted (dt_vas t') - vas_inserted (dt_vas t) > 255 then Err DBufSize
       else Ok (vas_inserted (dt_vas t')), d', [], out)"
proof -
  obtain d' where d': "in_step d' t'" "\<And>rest. on_encoder_recv_loop d (ins @ rest) = on_encoder_recv_loop d' rest"
    using assms(1,2) by (auto simp: follows_def)
  have loop: "on_encoder_recv_loop d ins = (Ok (), d', [])"
    using d'(2) [of "[]"] by (simp add: on_encoder_recv_loop.simps [of d' "[]"] parse_instruction_def)
  have n: "total_inserted d = vas_inserted (dt_vas t)" "total_inserted d' = vas_inserted (dt_vas t')"
    using dt_shared_vas [of d t] dt_shared_vas [of d' t'] assms(2) d'(1)
    by (simp_all add: in_step_def total_inserted_def vas_total_inserted_def)
  obtain out where "(insert_count_increment_encode (word_of_nat (vas_inserted (dt_vas t') - vas_inserted (dt_vas t))) ::
      (decoder_error, bytes) result) = Ok out"
    using insert_count_increment_dec_enc [where ?'e = decoder_error] by blast
  with d'(1) assms(3) show ?thesis
    by (auto simp: on_encoder_recv_def loop n intro!: exI [of _ d'])
qed

text \<open>
  The two halves of the round trip. \<open>section_written t t' e' required b p blk ins\<close> is what the
  encoder leaves behind: the new table, the prefix, the field lines and the instructions.
\<close>

definition section_written ::
  "dynamic_table \<Rightarrow> dynamic_table \<Rightarrow> table_encoder \<Rightarrow> nat \<Rightarrow> nat \<Rightarrow> bytes \<Rightarrow> bytes \<Rightarrow> bytes \<Rightarrow> header_field list \<Rightarrow> bool" where
  "section_written t t' e' required b p blk ins fs \<longleftrightarrow>
     dt_inv t' \<and> track_inv t' \<and> dt_shared t' = dt_shared (te_table e') \<and> follows t t' ins
     \<and> vas_inserted (dt_vas t) \<le> vas_inserted (dt_vas t') \<and> required \<le> te_total_inserted e'
     \<and> reads_fields e' required blk fs \<and> (required \<noteq> 0 \<longrightarrow> b = te_base e')
     \<and> (\<forall>rest. \<exists>hp. header_prefix_decode (p @ rest) = Ok (hp, rest)
          \<and> header_prefix_get hp (te_total_inserted e') (te_max_size e') = Ok (required, b))"

lemma qpack_encode_written:
  assumes "dt_inv t" and "track_inv t" and "\<forall>f \<in> set fs. field_ok f"
    and "vas_inserted (dt_vas t) + length fs < 2 ^ 62"
  shows "\<exists>required t' e' b p blk ins. qpack_encode t stream_id fs = (Ok required, t', p @ blk, ins)
    \<and> section_written t t' e' required b p blk ins fs"
proof -
  obtain e where e: "(table_encoder_new t stream_id :: (encoder_error, table_encoder) result) = Ok e"
      "te_inv e" "dt_shared (te_table e) = dt_shared t"
    using table_encoder_new_spec [OF assms(1,2), where ?'e = encoder_error] by blast
  let ?s = "\<lparr>es_table = e, es_block = [], es_encoder = []\<rparr>"
  have vas: "dt_vas (te_table e) = dt_vas t" by (rule dt_shared_vas [OF e(3)])
  have "index_ok (vas_inserted (dt_vas (te_table (es_table ?s))) + length fs)"
    using assms(4) vas by (simp add: index_ok_def)
  then obtain required e' blk ins where enc:
      "encode_fields fs 0 ?s = (Ok required, \<lparr>es_table = e', es_block = blk, es_encoder = ins\<rparr>)"
      "te_inv e'" "te_extends e e'" "follows (te_table e) (te_table e') ins" "reads_fields e' required blk fs"
      "required \<noteq> 0 \<longrightarrow> (\<exists>g. te_ref e' required g)"
      "vas_inserted (dt_vas (te_table e')) \<le> vas_inserted (dt_vas (te_table e)) + length fs"
    using encode_fields_spec [of ?s fs 0] e(2) assms(3) by auto blast
  have ix: "index_ok (vas_inserted (dt_vas (te_table e')))"
    using enc(7) assms(4) vas by (simp add: index_ok_def)
  obtain p b where p:
      "and_then (header_prefix_new required (te_base e') (te_total_inserted e') (te_max_size e')) header_prefix_encode =
        (Ok p :: (encoder_error, bytes) result)" "required \<noteq> 0 \<longrightarrow> b = te_base e'"
      "\<And>rest. \<exists>hp. header_prefix_decode (p @ rest) = Ok (hp, rest) \<and>
        header_prefix_get hp (te_total_inserted e') (te_max_size e') = Ok (required, b)"
    using prefix_reads [OF enc(2) ix enc(6), where ?'e = encoder_error] by blast
  define t' where "t' = te_drop (te_commit e' required)"
  note commit = te_commit_spec [OF enc(2), of required, folded t'_def]
  have encode: "qpack_encode t stream_id fs = (Ok required, t', p @ blk, ins)"
    by (simp add: qpack_encode_def e(1) enc(1) p(1) t'_def)
  have vas': "dt_vas t' = dt_vas (te_table e')" by (rule dt_shared_vas [OF commit(3)])
  have "follows t t' ins"
    using enc(4) e(3) commit(3) by (simp add: follows_def in_step_def)
  moreover have "vas_inserted (dt_vas t) \<le> vas_inserted (dt_vas t')"
    using enc(3) vas vas' by (simp add: te_extends_def)
  moreover have "required \<le> te_total_inserted e'"
    using enc(6) te_ref_pos by (cases "required = 0")
      (auto simp: te_total_inserted_def total_inserted_def vas_total_inserted_def vas_live_def)
  ultimately have "section_written t t' e' required b p blk ins fs"
    using commit(1,2,3) enc(5) p(2,3) by (simp add: section_written_def)
  with encode show ?thesis by blast
qed

lemma decode_header_written:
  assumes "section_written t t' e' required b p blk ins fs" and "in_step d' t'"
    and "fields_mem_size fs \<le> usize_max"
  shows "decode_header d' (p @ blk) =
    Ok \<lparr>dec_fields = fs, dec_dyn_ref = (required > 0), dec_mem_size = fields_mem_size fs\<rparr>"
proof -
  note w = assms(1) [unfolded section_written_def]
  have sh: "dt_shared d' = dt_shared (te_table e')" using assms(2) w by (simp add: in_step_def)
  then have tot: "total_inserted d' = te_total_inserted e'" "max_mem_size d' = te_max_size e'"
    by (simp_all add: dt_shared_def total_inserted_def te_total_inserted_def max_mem_size_def te_max_size_def)
  have res: "resolves d' e'"
    using assms(2) dt_shared_addr [OF sh] by (auto simp: resolves_def in_step_def decoder_table_inv_def te_ref_def)
  moreover have "decode_header_loop (table_decoder_new d' b) blk 0 [] = Ok (fields_mem_size fs, fs)"
    using w res assms(3) by (simp add: reads_fields_def)
  moreover obtain hp where "header_prefix_decode (p @ blk) = Ok (hp, blk)"
    "header_prefix_get hp (te_total_inserted e') (te_max_size e') = Ok (required, b)"
    using w by blast
  ultimately show ?thesis using w tot by (auto simp: decode_header_def)
qed

text \<open>
  C5: the stateful round trip. With the tables of both sides in step, encoding a field section
  succeeds; a decoder that then receives the instructions is in step with the new table, and
  decodes the section to the fields that were encoded, in order. Receiving reports an error
  only for more than 255 insertions at once, with the entries already in place.
\<close>
theorem qpack_roundtrip:
  assumes "dt_inv t" and "track_inv t" and "in_step d t" and "\<forall>f \<in> set fs. field_ok f"
    and "vas_inserted (dt_vas t) + length fs < 2 ^ 62" and "fields_mem_size fs \<le> usize_max"
  shows "\<exists>required t' block ins d' out.
    qpack_encode t stream_id fs = (Ok required, t', block, ins) \<and>
    dt_inv t' \<and> track_inv t' \<and> in_step d' t' \<and>
    on_encoder_recv d ins =
      (if vas_inserted (dt_vas t') - vas_inserted (dt_vas t) > 255 then Err DBufSize
       else Ok (vas_inserted (dt_vas t')), d', [], out) \<and>
    decode_header d' block =
      Ok \<lparr>dec_fields = fs, dec_dyn_ref = (required > 0), dec_mem_size = fields_mem_size fs\<rparr>"
proof -
  obtain required t' e' b p blk ins where w:
      "qpack_encode t stream_id fs = (Ok required, t', p @ blk, ins)"
      "section_written t t' e' required b p blk ins fs"
    using qpack_encode_written [OF assms(1,2,4,5)] by blast
  then have "follows t t' ins" "vas_inserted (dt_vas t) \<le> vas_inserted (dt_vas t')"
      "dt_inv t'" "track_inv t'"
    by (simp_all add: section_written_def)
  moreover from this obtain d' out where "in_step d' t'" "on_encoder_recv d ins =
      (if vas_inserted (dt_vas t') - vas_inserted (dt_vas t) > 255 then Err DBufSize
       else Ok (vas_inserted (dt_vas t')), d', [], out)"
    using on_encoder_recv_follows [OF _ assms(3)] by blast
  moreover from this have "decode_header d' (p @ blk) =
      Ok \<lparr>dec_fields = fs, dec_dyn_ref = (required > 0), dec_mem_size = fields_mem_size fs\<rparr>"
    using decode_header_written [OF w(2) _ assms(6)] by blast
  ultimately show ?thesis using w(1) by blast
qed

definition small_table :: dynamic_table where
  "small_table = dynamic_table_new\<lparr>dt_max_size := 100, dt_blocked_max := 10\<rparr>"

lemma small_table_ok: "dt_inv small_table" "track_inv small_table" "in_step small_table small_table"
  "vas_inserted (dt_vas small_table) = 0"
proof -
  show inv: "dt_inv small_table"
    by (simp add: small_table_def dt_inv_def dynamic_table_new_def dt_maps_ok_def is_tracked_def
        vas_default_def vas_inv_def usize_max_def SETTINGS_MAX_TABLE_CAPACITY_MAX_def)
  show "track_inv small_table"
    by (simp add: track_inv_def small_table_def dynamic_table_new_def blocks_ok_def pending_def tc_def)
  show "in_step small_table small_table"
    using inv by (simp add: in_step_def decoder_table_inv_def is_tracked_def small_table_def dynamic_table_new_def)
  show "vas_inserted (dt_vas small_table) = 0"
    by (simp add: small_table_def dynamic_table_new_def vas_default_def)
qed

theorem qpack_roundtrip_witness:
  "\<exists>required t' block ins d' out.
    qpack_encode small_table 4 [\<lparr>hf_name = [120], hf_value = [121, 122]\<rparr>] = (Ok required, t', block, ins) \<and>
    in_step d' t' \<and> snd (on_encoder_recv small_table ins) = (d', [], out) \<and>
    decode_header d' block = Ok \<lparr>dec_fields = [\<lparr>hf_name = [120], hf_value = [121, 122]\<rparr>],
      dec_dyn_ref = (required > 0), dec_mem_size = 35\<rparr>"
proof -
  let ?fs = "[\<lparr>hf_name = [120], hf_value = [121, 122]\<rparr>] :: header_field list"
  have f: "\<forall>f \<in> set ?fs. field_ok f" "fields_mem_size ?fs = 35"
    by (simp_all add: field_ok_def string_ok_def mem_size_def ESTIMATED_OVERHEAD_BYTES_def)
  have "vas_inserted (dt_vas small_table) + length ?fs < 2 ^ 62" "fields_mem_size ?fs \<le> usize_max"
    using f(2) by (simp_all add: small_table_ok usize_max_def)
  from qpack_roundtrip [OF small_table_ok(1-3) f(1) this, of 4] show ?thesis
    unfolding f(2) by fastforce
qed

end
