(* ===== verification/Errors.thy ===== *)
theory Errors
  imports AcceptStream WriteBuf
begin

text \<open>
  Errors and the state that a connection shares with its streams: \<open>h3/src/error/\<close> and
  \<open>h3/src/shared_state.rs\<close>. The reasons in prose that accompany an error are left out; what is
  kept is the code that goes to the peer and the class of error the caller gets. The atomic
  waker is the list of the calls made on it.
\<close>

section \<open>Error codes\<close>

datatype h3_code = Code u64

fun code_value :: "h3_code \<Rightarrow> u64" where
  "code_value (Code c) = c"

definition H3_DATAGRAM_ERROR :: h3_code where "H3_DATAGRAM_ERROR = Code 0x33"
definition H3_NO_ERROR :: h3_code where "H3_NO_ERROR = Code 0x100"
definition H3_GENERAL_PROTOCOL_ERROR :: h3_code where "H3_GENERAL_PROTOCOL_ERROR = Code 0x101"
definition H3_INTERNAL_ERROR :: h3_code where "H3_INTERNAL_ERROR = Code 0x102"
definition H3_STREAM_CREATION_ERROR :: h3_code where "H3_STREAM_CREATION_ERROR = Code 0x103"
definition H3_CLOSED_CRITICAL_STREAM :: h3_code where "H3_CLOSED_CRITICAL_STREAM = Code 0x104"
definition H3_FRAME_UNEXPECTED :: h3_code where "H3_FRAME_UNEXPECTED = Code 0x105"
definition H3_FRAME_ERROR :: h3_code where "H3_FRAME_ERROR = Code 0x106"
definition H3_EXCESSIVE_LOAD :: h3_code where "H3_EXCESSIVE_LOAD = Code 0x107"
definition H3_ID_ERROR :: h3_code where "H3_ID_ERROR = Code 0x108"
definition H3_SETTINGS_ERROR :: h3_code where "H3_SETTINGS_ERROR = Code 0x109"
definition H3_MISSING_SETTINGS :: h3_code where "H3_MISSING_SETTINGS = Code 0x10a"
definition H3_REQUEST_REJECTED :: h3_code where "H3_REQUEST_REJECTED = Code 0x10b"
definition H3_REQUEST_CANCELLED :: h3_code where "H3_REQUEST_CANCELLED = Code 0x10c"
definition H3_REQUEST_INCOMPLETE :: h3_code where "H3_REQUEST_INCOMPLETE = Code 0x10d"
definition H3_MESSAGE_ERROR :: h3_code where "H3_MESSAGE_ERROR = Code 0x10e"
definition H3_CONNECT_ERROR :: h3_code where "H3_CONNECT_ERROR = Code 0x10f"
definition H3_VERSION_FALLBACK :: h3_code where "H3_VERSION_FALLBACK = Code 0x110"
definition QPACK_DECOMPRESSION_FAILED :: h3_code where "QPACK_DECOMPRESSION_FAILED = Code 0x200"
definition QPACK_ENCODER_STREAM_ERROR :: h3_code where "QPACK_ENCODER_STREAM_ERROR = Code 0x201"
definition QPACK_DECODER_STREAM_ERROR :: h3_code where "QPACK_DECODER_STREAM_ERROR = Code 0x202"

lemmas h3_code_defs =
  H3_DATAGRAM_ERROR_def H3_NO_ERROR_def H3_GENERAL_PROTOCOL_ERROR_def H3_INTERNAL_ERROR_def
  H3_STREAM_CREATION_ERROR_def H3_CLOSED_CRITICAL_STREAM_def H3_FRAME_UNEXPECTED_def
  H3_FRAME_ERROR_def H3_EXCESSIVE_LOAD_def H3_ID_ERROR_def H3_SETTINGS_ERROR_def
  H3_MISSING_SETTINGS_def H3_REQUEST_REJECTED_def H3_REQUEST_CANCELLED_def
  H3_REQUEST_INCOMPLETE_def H3_MESSAGE_ERROR_def H3_CONNECT_ERROR_def H3_VERSION_FALLBACK_def
  QPACK_DECOMPRESSION_FAILED_def QPACK_ENCODER_STREAM_ERROR_def QPACK_DECODER_STREAM_ERROR_def

section \<open>Error types\<close>

datatype internal_connection_error = InternalConnectionError (internal_code: h3_code)

fun got_frame_error :: "frame_protocol_error \<Rightarrow> internal_connection_error" where
  "got_frame_error (PInvalidStreamId _) = InternalConnectionError H3_ID_ERROR"
| "got_frame_error (PInvalidPushId _) = InternalConnectionError H3_ID_ERROR"
| "got_frame_error (PSettings _) = InternalConnectionError H3_SETTINGS_ERROR"
| "got_frame_error (PForbiddenFrame _) = InternalConnectionError H3_FRAME_UNEXPECTED"
| "got_frame_error PInvalidFrameValue = InternalConnectionError H3_FRAME_ERROR"
| "got_frame_error PMalformed = InternalConnectionError H3_FRAME_ERROR"

datatype error_origin =
    OriginInternal internal_connection_error
  | OriginQuic connection_error_incoming

datatype local_error = LocalApplication h3_code | LocalClosing

datatype connection_error =
    ConnLocal local_error
  | ConnRemote connection_error_incoming
  | ConnTimeout

definition QUIC_NO_ERROR :: u64 where
  "QUIC_NO_ERROR = 0"

fun connection_is_no_error :: "connection_error \<Rightarrow> bool" where
  "connection_is_no_error (ConnLocal (LocalApplication c)) \<longleftrightarrow> c = H3_NO_ERROR"
| "connection_is_no_error (ConnRemote (ApplicationClose c)) \<longleftrightarrow> c = code_value H3_NO_ERROR"
| "connection_is_no_error (ConnRemote (ConnectionClosed c)) \<longleftrightarrow> c = QUIC_NO_ERROR"
| "connection_is_no_error _ \<longleftrightarrow> False"

datatype stream_error =
    StreamErrorCode h3_code
  | RemoteTerminate h3_code
  | StreamConnectionError connection_error
  | HeaderTooBig nat nat
  | RemoteClosing
  | StreamUndefined

fun stream_is_no_error :: "stream_error \<Rightarrow> bool" where
  "stream_is_no_error (StreamErrorCode c) \<longleftrightarrow> c = H3_NO_ERROR"
| "stream_is_no_error (RemoteTerminate c) \<longleftrightarrow> c = H3_NO_ERROR"
| "stream_is_no_error (StreamConnectionError e) \<longleftrightarrow> connection_is_no_error e"
| "stream_is_no_error _ \<longleftrightarrow> False"

text \<open>The code a connection error puts on the wire, if it puts one.\<close>

fun convert_to_connection_error :: "error_origin \<Rightarrow> connection_error" where
  "convert_to_connection_error (OriginInternal e) = ConnLocal (LocalApplication (internal_code e))"
| "convert_to_connection_error (OriginQuic Timeout) = ConnTimeout"
| "convert_to_connection_error (OriginQuic e) = ConnRemote e"

section \<open>The shared state\<close>

datatype waker_call = Register | Wake

record shared_state =
  ss_settings :: "config_settings option"
  ss_error :: "error_origin option"
  ss_closing :: bool
  ss_waker :: "waker_call list"

definition shared_state_default :: shared_state where
  "shared_state_default = \<lparr>ss_settings = None, ss_error = None, ss_closing = False, ss_waker = []\<rparr>"

definition get_conn_error :: "shared_state \<Rightarrow> error_origin option" where
  "get_conn_error sh = ss_error sh"

text \<open>\<open>get_or_init\<close>: the first error stays, whoever comes later.\<close>

definition set_conn_error :: "error_origin \<Rightarrow> shared_state \<Rightarrow> error_origin \<times> shared_state" where
  "set_conn_error e sh =
     (case ss_error sh of
        Some first \<Rightarrow> (first, sh)
      | None \<Rightarrow> (e, sh\<lparr>ss_error := Some e\<rparr>))"

definition set_conn_error_and_wake :: "error_origin \<Rightarrow> shared_state \<Rightarrow> error_origin \<times> shared_state" where
  "set_conn_error_and_wake e sh =
     (case set_conn_error e sh of (err, sh1) \<Rightarrow> (err, sh1\<lparr>ss_waker := ss_waker sh1 @ [Wake]\<rparr>))"

definition peer_settings :: "shared_state \<Rightarrow> config_settings" where
  "peer_settings sh = (case ss_settings sh of Some s \<Rightarrow> s | None \<Rightarrow> config_settings_default)"

definition set_closing :: "shared_state \<Rightarrow> shared_state" where
  "set_closing sh = sh\<lparr>ss_closing := True\<rparr>"

definition is_closing :: "shared_state \<Rightarrow> bool" where
  "is_closing sh = ss_closing sh"

text \<open>A \<open>OnceLock\<close> refuses a second value, and the refusal is ignored.\<close>

definition set_settings :: "config_settings \<Rightarrow> shared_state \<Rightarrow> shared_state" where
  "set_settings s sh = (case ss_settings sh of None \<Rightarrow> sh\<lparr>ss_settings := Some s\<rparr> | Some _ \<Rightarrow> sh)"

section \<open>Errors on a stream\<close>

definition handle_connection_error_on_stream ::
  "internal_connection_error \<Rightarrow> shared_state \<Rightarrow> stream_error \<times> shared_state" where
  "handle_connection_error_on_stream e sh =
     (case set_conn_error_and_wake (OriginInternal e) sh of
        (err, sh1) \<Rightarrow> (StreamConnectionError (convert_to_connection_error err), sh1))"

fun handle_quic_stream_error :: "stream_error_incoming \<Rightarrow> shared_state \<Rightarrow> stream_error \<times> shared_state" where
  "handle_quic_stream_error (ConnectionErrorIncoming e) sh =
     (case set_conn_error_and_wake (OriginQuic e) sh of
        (err, sh1) \<Rightarrow> (StreamConnectionError (convert_to_connection_error err), sh1))"
| "handle_quic_stream_error (StreamTerminated c) sh = (RemoteTerminate (Code c), sh)"
| "handle_quic_stream_error UnknownError sh = (StreamUndefined, sh)"

definition check_peer_connection_closing :: "shared_state \<Rightarrow> stream_error option" where
  "check_peer_connection_closing sh = (if is_closing sh then Some RemoteClosing else None)"

fun handle_frame_stream_error :: "frame_stream_error \<Rightarrow> shared_state \<Rightarrow> stream_error \<times> shared_state" where
  "handle_frame_stream_error (Quic e) sh = handle_quic_stream_error e sh"
| "handle_frame_stream_error (Proto e) sh = handle_connection_error_on_stream (got_frame_error e) sh"
| "handle_frame_stream_error StreamUnexpectedEnd sh =
     handle_connection_error_on_stream (InternalConnectionError H3_FRAME_ERROR) sh"

section \<open>The first error wins\<close>

text \<open>
  Everything that touches the shared state only ever adds to it: an error, the peer's
  settings and the closing flag are set once and stay.
\<close>

definition shared_grows :: "shared_state \<Rightarrow> shared_state \<Rightarrow> bool" where
  "shared_grows sh sh' \<longleftrightarrow>
     (\<forall>e. ss_error sh = Some e \<longrightarrow> ss_error sh' = Some e) \<and>
     (\<forall>s. ss_settings sh = Some s \<longrightarrow> ss_settings sh' = Some s) \<and>
     (ss_closing sh \<longrightarrow> ss_closing sh') \<and>
     (\<exists>calls. ss_waker sh' = ss_waker sh @ calls)"

lemma shared_grows_refl [simp, intro]: "shared_grows sh sh"
  by (simp add: shared_grows_def)

lemma shared_grows_trans [trans]: "shared_grows a b \<Longrightarrow> shared_grows b c \<Longrightarrow> shared_grows a c"
  by (auto simp: shared_grows_def)

lemma set_conn_error_spec:
  assumes "set_conn_error e sh = (err, sh')"
  shows "ss_error sh' = Some err" and "shared_grows sh sh'"
    and "ss_error sh = None \<Longrightarrow> err = e" and "ss_error sh = Some first \<Longrightarrow> err = first \<and> sh' = sh"
  using assms by (auto simp: set_conn_error_def shared_grows_def split: option.splits)

lemma set_conn_error_and_wake_spec:
  assumes "set_conn_error_and_wake e sh = (err, sh')"
  shows "ss_error sh' = Some err" and "shared_grows sh sh'"
    and "ss_error sh = None \<Longrightarrow> err = e" and "ss_error sh = Some first \<Longrightarrow> err = first"
    and "ss_waker sh' = ss_waker sh @ [Wake]"
  using assms by (auto simp: set_conn_error_and_wake_def set_conn_error_def shared_grows_def split: option.splits)

lemma set_closing_grows [simp]: "shared_grows sh (set_closing sh)"
  by (simp add: set_closing_def shared_grows_def)

lemma set_settings_grows [simp]: "shared_grows sh (set_settings s sh)"
  by (auto simp: set_settings_def shared_grows_def split: option.splits)

text \<open>What a stream reports for an error it meets, and that the connection is told.\<close>

lemma handle_connection_error_on_stream_spec:
  assumes "handle_connection_error_on_stream e sh = (se, sh')"
  shows "shared_grows sh sh'" and "ss_waker sh' = ss_waker sh @ [Wake]"
    and "\<exists>err. ss_error sh' = Some err \<and> se = StreamConnectionError (convert_to_connection_error err)"
    and "ss_error sh = None \<Longrightarrow> se = StreamConnectionError (ConnLocal (LocalApplication (internal_code e)))"
proof -
  obtain err sh1 where s: "set_conn_error_and_wake (OriginInternal e) sh = (err, sh1)"
    by (cases "set_conn_error_and_wake (OriginInternal e) sh")
  note spec = set_conn_error_and_wake_spec [OF s]
  have eq: "se = StreamConnectionError (convert_to_connection_error err)" "sh' = sh1"
    using assms s by (simp_all add: handle_connection_error_on_stream_def)
  show "shared_grows sh sh'" and "ss_waker sh' = ss_waker sh @ [Wake]"
    using spec eq by simp_all
  show "\<exists>err. ss_error sh' = Some err \<and> se = StreamConnectionError (convert_to_connection_error err)"
    using spec eq by simp
  show "ss_error sh = None \<Longrightarrow> se = StreamConnectionError (ConnLocal (LocalApplication (internal_code e)))"
    using spec(3) eq by simp
qed

lemma handle_quic_stream_error_grows:
  "handle_quic_stream_error e sh = (se, sh') \<Longrightarrow> shared_grows sh sh'"
  by (cases e) (auto dest: set_conn_error_and_wake_spec(2) split: prod.splits)

lemma handle_frame_stream_error_grows:
  "handle_frame_stream_error e sh = (se, sh') \<Longrightarrow> shared_grows sh sh'"
  by (cases e) (auto dest: handle_quic_stream_error_grows handle_connection_error_on_stream_spec(1))

end
