(* ===== verification/Headers.thy ===== *)
theory Headers
  imports StaticTable
begin

text \<open>
  Header sections as HTTP messages see them: \<open>h3/src/proto/headers.rs\<close> and the protocol names of
  \<open>h3/src/ext.rs\<close>. The types of the \<open>http\<close> crate are parameters: a parsed method, scheme,
  authority, path, status or header name is the byte string its \<open>as_str\<close> returns, and the
  record \<open>http\<close> holds the functions of the crate that the code calls. A header map is of any type.
\<close>

section \<open>The http crate\<close>

record ('m, 'u) http =
  name_from_lowercase :: "bytes \<Rightarrow> bytes option"
  value_from_bytes :: "bytes \<Rightarrow> bytes option"
  method_from_bytes :: "bytes \<Rightarrow> bytes option"
  status_from_bytes :: "bytes \<Rightarrow> bytes option"
  scheme_from_str :: "bytes \<Rightarrow> bytes option"
  authority_from_str :: "bytes \<Rightarrow> bytes option"
  path_from_str :: "bytes \<Rightarrow> bytes option"
  path_part :: "bytes \<Rightarrow> bytes"
  uri_scheme :: "'u \<Rightarrow> bytes option"
  uri_authority :: "'u \<Rightarrow> bytes option"
  uri_path_and_query :: "'u \<Rightarrow> bytes option"
  uri_build :: "bytes option \<Rightarrow> bytes option \<Rightarrow> bytes option \<Rightarrow> 'u option"
  map_with_capacity :: "nat \<Rightarrow> 'm may_panic"
  map_append :: "'m \<Rightarrow> bytes \<Rightarrow> bytes \<Rightarrow> 'm may_panic"
  map_get :: "'m \<Rightarrow> bytes \<Rightarrow> bytes option"
  map_into_iter :: "'m \<Rightarrow> (bytes option \<times> bytes) list"
  map_len :: "'m \<Rightarrow> nat"

section \<open>Model\<close>

datatype protocol = WebTransport | ConnectUdp | ConnectIp | WebSocket

fun protocol_as_str :: "protocol \<Rightarrow> bytes" where
  "protocol_as_str WebTransport = ascii ''webtransport''"
| "protocol_as_str ConnectUdp = ascii ''connect-udp''"
| "protocol_as_str ConnectIp = ascii ''connect-ip''"
| "protocol_as_str WebSocket = ascii ''websocket''"

definition protocol_from_str :: "bytes \<Rightarrow> protocol option" where
  "protocol_from_str s =
     (if s = ascii ''webtransport'' then Some WebTransport
      else if s = ascii ''connect-udp'' then Some ConnectUdp
      else if s = ascii ''connect-ip'' then Some ConnectIp
      else if s = ascii ''websocket'' then Some WebSocket
      else None)"

datatype header_error =
    InvalidHeaderName
  | InvalidHeaderValue
  | InvalidRequest
  | MissingMethod
  | MissingStatus
  | MissingAuthority
  | ContradictedAuthority
  | PseudoAfterRegularField

record pseudo =
  ps_method :: "bytes option"
  ps_scheme :: "bytes option"
  ps_authority :: "bytes option"
  ps_path :: "bytes option"
  ps_status :: "bytes option"
  ps_protocol :: "protocol option"
  ps_len :: nat

definition pseudo_default :: pseudo where
  "pseudo_default = \<lparr>ps_method = None, ps_scheme = None, ps_authority = None, ps_path = None,
     ps_status = None, ps_protocol = None, ps_len = 0\<rparr>"

record 'm header =
  h_pseudo :: pseudo
  h_fields :: 'm

definition CONNECT :: bytes where "CONNECT = ascii ''CONNECT''"
definition OPTIONS :: bytes where "OPTIONS = ascii ''OPTIONS''"
definition HTTPS :: bytes where "HTTPS = ascii ''https''"

text \<open>The extension is the \<open>Protocol\<close> among the request's extensions.\<close>

definition pseudo_request :: "('m, 'u) http \<Rightarrow> bytes \<Rightarrow> 'u \<Rightarrow> protocol option \<Rightarrow> pseudo" where
  "pseudo_request http meth uri extension =
     (let path =
            (case uri_path_and_query http uri of
               None \<Rightarrow> ascii ''/''
             | Some p \<Rightarrow> if path_part http p = [] \<and> meth \<noteq> OPTIONS then ascii ''/'' else p);
          protocol = (if meth = CONNECT then extension else None);
          (scheme, path1) =
            (if meth = CONNECT \<and> protocol = None then (None, None)
             else (Some (case uri_scheme http uri of Some s \<Rightarrow> s | None \<Rightarrow> HTTPS), Some path));
          authority = uri_authority http uri
      in \<lparr>ps_method = Some meth, ps_scheme = scheme, ps_authority = authority, ps_path = path1,
          ps_status = None, ps_protocol = protocol,
          ps_len = 3 + (if authority \<noteq> None then 1 else 0) + (if protocol \<noteq> None then 1 else 0)\<rparr>)"

definition pseudo_response :: "bytes \<Rightarrow> pseudo" where
  "pseudo_response status =
     \<lparr>ps_method = None, ps_scheme = None, ps_authority = None, ps_path = None,
      ps_status = Some status, ps_protocol = None, ps_len = 1\<rparr>"

definition header_request :: "('m, 'u) http \<Rightarrow> bytes \<Rightarrow> 'u \<Rightarrow> 'm \<Rightarrow> protocol option \<Rightarrow>
    (header_error, 'm header) result" where
  "header_request http meth uri fs extension =
     (let ok = Ok \<lparr>h_pseudo = pseudo_request http meth uri extension, h_fields = fs\<rparr> in
      case (uri_authority http uri, map_get http fs (ascii ''host'')) of
        (None, None) \<Rightarrow> Err MissingAuthority
      | (Some a, Some h) \<Rightarrow> if a \<noteq> h then Err ContradictedAuthority else ok
      | _ \<Rightarrow> ok)"

definition header_response :: "bytes \<Rightarrow> 'm \<Rightarrow> 'm header" where
  "header_response status fs = \<lparr>h_pseudo = pseudo_response status, h_fields = fs\<rparr>"

definition header_trailer :: "'m \<Rightarrow> 'm header" where
  "header_trailer fs = \<lparr>h_pseudo = pseudo_default, h_fields = fs\<rparr>"

text \<open>The checks come in the order of the code: authority, method, then the URI as a whole.\<close>

definition into_request_parts :: "('m, 'u) http \<Rightarrow> 'm header \<Rightarrow>
    (header_error, bytes \<times> 'u \<times> protocol option \<times> 'm) result" where
  "into_request_parts http h =
     (let p = h_pseudo h;
          authority =
            (case (ps_authority p, map_get http (h_fields h) (ascii ''host'')) of
               (None, None) \<Rightarrow> Err MissingAuthority
             | (Some a, None) \<Rightarrow> Ok a
             | (None, Some v) \<Rightarrow> Ok v
             | (Some a, Some v) \<Rightarrow> if a \<noteq> v then Err ContradictedAuthority else Ok v)
      in and_then authority (\<lambda>a.
           case ps_method p of
             None \<Rightarrow> Err MissingMethod
           | Some meth \<Rightarrow>
               (case uri_build http (ps_scheme p) (Some a) (ps_path p) of
                  None \<Rightarrow> Err InvalidRequest
                | Some uri \<Rightarrow> Ok (meth, uri, ps_protocol p, h_fields h))))"

definition into_response_parts :: "'m header \<Rightarrow> (header_error, bytes \<times> 'm) result" where
  "into_response_parts h =
     (case ps_status (h_pseudo h) of
        None \<Rightarrow> Err MissingStatus
      | Some status \<Rightarrow> Ok (status, h_fields h))"

definition into_fields :: "'m header \<Rightarrow> 'm" where
  "into_fields h = h_fields h"

definition header_len :: "('m, 'u) http \<Rightarrow> 'm header \<Rightarrow> nat" where
  "header_len http h = ps_len (h_pseudo h) + map_len http (h_fields h)"

definition header_size :: "('m, 'u) http \<Rightarrow> 'm header \<Rightarrow> nat" where
  "header_size http h = ps_len (h_pseudo h) + map_len http (h_fields h)"

section \<open>Iterating over the fields\<close>

record header_iter =
  it_pseudo :: "pseudo option"
  it_last_header_name :: "bytes option"
  it_fields :: "(bytes option \<times> bytes) list"

definition header_into_iter :: "('m, 'u) http \<Rightarrow> 'm header \<Rightarrow> header_iter" where
  "header_into_iter http h =
     \<lparr>it_pseudo = Some (h_pseudo h), it_last_header_name = None,
      it_fields = map_into_iter http (h_fields h)\<rparr>"

text \<open>\<open>take()\<close> on the first pseudo-header that is still there, in the order they are sent.\<close>

definition pseudo_take :: "pseudo \<Rightarrow> (header_field \<times> pseudo) option" where
  "pseudo_take p =
     (case ps_method p of
        Some v \<Rightarrow> Some (header_field_of_pair (ascii '':method'', v), p\<lparr>ps_method := None\<rparr>)
      | None \<Rightarrow>
     (case ps_scheme p of
        Some v \<Rightarrow> Some (header_field_of_pair (ascii '':scheme'', v), p\<lparr>ps_scheme := None\<rparr>)
      | None \<Rightarrow>
     (case ps_authority p of
        Some v \<Rightarrow> Some (header_field_of_pair (ascii '':authority'', v), p\<lparr>ps_authority := None\<rparr>)
      | None \<Rightarrow>
     (case ps_path p of
        Some v \<Rightarrow> Some (header_field_of_pair (ascii '':path'', v), p\<lparr>ps_path := None\<rparr>)
      | None \<Rightarrow>
     (case ps_status p of
        Some v \<Rightarrow> Some (header_field_of_pair (ascii '':status'', v), p\<lparr>ps_status := None\<rparr>)
      | None \<Rightarrow>
     (case ps_protocol p of
        Some v \<Rightarrow> Some (header_field_of_pair (ascii '':protocol'', (protocol_as_str v)), p\<lparr>ps_protocol := None\<rparr>)
      | None \<Rightarrow> None))))))"

fun next_regular :: "bytes option \<Rightarrow> (bytes option \<times> bytes) list \<Rightarrow>
    header_field option \<times> bytes option \<times> (bytes option \<times> bytes) list" where
  "next_regular prev [] = (None, prev, [])"
| "next_regular prev ((new_name, v) # rest) =
     (let prev1 = (case new_name of Some n \<Rightarrow> Some n | None \<Rightarrow> prev) in
      case prev1 of
        Some n \<Rightarrow> (Some (header_field_of_pair (n, v)), prev1, rest)
      | None \<Rightarrow> next_regular prev1 rest)"

definition header_iter_next :: "header_iter \<Rightarrow> header_field option \<times> header_iter" where
  "header_iter_next it =
     (case Option.bind (it_pseudo it) pseudo_take of
        Some (f, p) \<Rightarrow> (Some f, it\<lparr>it_pseudo := Some p\<rparr>)
      | None \<Rightarrow>
          (case next_regular (it_last_header_name it) (it_fields it) of
             (r, prev, rest) \<Rightarrow>
               (r, it\<lparr>it_pseudo := None, it_last_header_name := prev, it_fields := rest\<rparr>)))"

definition some_count :: "'a option \<Rightarrow> nat" where
  "some_count x = (case x of Some _ \<Rightarrow> 1 | None \<Rightarrow> 0)"

definition pseudo_count :: "pseudo \<Rightarrow> nat" where
  "pseudo_count p = some_count (ps_method p) + some_count (ps_scheme p) + some_count (ps_authority p)
     + some_count (ps_path p) + some_count (ps_status p) + some_count (ps_protocol p)"

definition iter_left :: "header_iter \<Rightarrow> nat" where
  "iter_left it = (case it_pseudo it of Some p \<Rightarrow> pseudo_count p | None \<Rightarrow> 0) + length (it_fields it)"

lemma pseudo_take_count: "pseudo_take p = Some (f, p') \<Longrightarrow> pseudo_count p' < pseudo_count p"
  by (cases "ps_method p"; cases "ps_scheme p"; cases "ps_authority p"; cases "ps_path p";
      cases "ps_status p"; cases "ps_protocol p")
    (auto simp: pseudo_take_def pseudo_count_def some_count_def)

lemma next_regular_shorter: "next_regular prev fs = (Some f, prev', rest) \<Longrightarrow> length rest < length fs"
  by (induction prev fs rule: next_regular.induct) (auto simp: Let_def split: option.splits)

lemma header_iter_next_left: "header_iter_next it = (Some f, it') \<Longrightarrow> iter_left it' < iter_left it"
  using next_regular_shorter [of "it_last_header_name it" "it_fields it"]
  by (cases "it_pseudo it"; cases "Option.bind (it_pseudo it) pseudo_take";
      cases "next_regular (it_last_header_name it) (it_fields it)")
    (auto simp: header_iter_next_def iter_left_def dest: pseudo_take_count)

text \<open>Everything the iterator yields, as \<open>encode_stateless\<close> consumes it.\<close>

function iter_collect :: "header_iter \<Rightarrow> header_field list" where
  "iter_collect it =
     (case header_iter_next it of
        (Some f, it1) \<Rightarrow> f # iter_collect it1
      | (None, _) \<Rightarrow> [])"
  by pat_completeness auto

termination iter_collect
  by (relation "measure iter_left") (auto dest: header_iter_next_left [OF sym])

declare iter_collect.simps [simp del]

section \<open>Parsing the fields\<close>

datatype field =
    FieldMethod bytes
  | FieldScheme bytes
  | FieldAuthority bytes
  | FieldPath bytes
  | FieldStatus bytes
  | FieldProtocol protocol
  | FieldHeader bytes bytes

text \<open>\<open>std::str::from_utf8\<close>: the well-formed byte sequences of Unicode, shortest forms without surrogates.\<close>

definition utf8_tail :: "u8 \<Rightarrow> bool" where
  "utf8_tail b \<longleftrightarrow> 0x80 \<le> b \<and> b \<le> 0xBF"

fun utf8_valid :: "bytes \<Rightarrow> bool" where
  "utf8_valid [] \<longleftrightarrow> True"
| "utf8_valid (a # bs) \<longleftrightarrow>
     (if a < 0x80 then utf8_valid bs
      else case bs of
        [] \<Rightarrow> False
      | b # cs \<Rightarrow>
          if 0xC2 \<le> a \<and> a \<le> 0xDF then utf8_tail b \<and> utf8_valid cs
          else case cs of
            [] \<Rightarrow> False
          | c # ds \<Rightarrow>
              if 0xE0 \<le> a \<and> a \<le> 0xEF then
                (if a = 0xE0 then 0xA0 \<le> b \<and> b \<le> 0xBF
                 else if a = 0xED then 0x80 \<le> b \<and> b \<le> 0x9F
                 else utf8_tail b) \<and> utf8_tail c \<and> utf8_valid ds
              else case ds of
                [] \<Rightarrow> False
              | d # es \<Rightarrow>
                  0xF0 \<le> a \<and> a \<le> 0xF4 \<and>
                  (if a = 0xF0 then 0x90 \<le> b \<and> b \<le> 0xBF
                   else if a = 0xF4 then 0x80 \<le> b \<and> b \<le> 0x8F
                   else utf8_tail b) \<and> utf8_tail c \<and> utf8_tail d \<and> utf8_valid es)"

definition try_value :: "(bytes \<Rightarrow> 'a option) \<Rightarrow> bytes \<Rightarrow> (header_error, 'a) result" where
  "try_value from_str v =
     (if utf8_valid v then (case from_str v of Some x \<Rightarrow> Ok x | None \<Rightarrow> Err InvalidHeaderValue)
      else Err InvalidHeaderValue)"

definition from_bytes :: "header_error \<Rightarrow> 'a option \<Rightarrow> (header_error, 'a) result" where
  "from_bytes e r = (case r of Some x \<Rightarrow> Ok x | None \<Rightarrow> Err e)"

definition field_parse :: "('m, 'u) http \<Rightarrow> bytes \<Rightarrow> bytes \<Rightarrow> (header_error, field) result" where
  "field_parse http name v =
     (case name of
        [] \<Rightarrow> Err InvalidHeaderName
      | c # _ \<Rightarrow>
          if c \<noteq> 0x3A then
            and_then (from_bytes InvalidHeaderName (name_from_lowercase http name)) (\<lambda>n.
            and_then (from_bytes InvalidHeaderValue (value_from_bytes http v)) (\<lambda>x. Ok (FieldHeader n x)))
          else if name = ascii '':scheme'' then map_ok FieldScheme (try_value (scheme_from_str http) v)
          else if name = ascii '':authority'' then map_ok FieldAuthority (try_value (authority_from_str http) v)
          else if name = ascii '':path'' then map_ok FieldPath (try_value (path_from_str http) v)
          else if name = ascii '':method'' then
            map_ok FieldMethod (from_bytes InvalidHeaderValue (method_from_bytes http v))
          else if name = ascii '':status'' then
            map_ok FieldStatus (from_bytes InvalidHeaderValue (status_from_bytes http v))
          else if name = ascii '':protocol'' then map_ok FieldProtocol (try_value protocol_from_str v)
          else Err InvalidHeaderName)"

fun set_pseudo :: "field \<Rightarrow> pseudo \<Rightarrow> pseudo" where
  "set_pseudo (FieldMethod m) p = p\<lparr>ps_method := Some m, ps_len := ps_len p + 1\<rparr>"
| "set_pseudo (FieldScheme s) p = p\<lparr>ps_scheme := Some s, ps_len := ps_len p + 1\<rparr>"
| "set_pseudo (FieldAuthority a) p = p\<lparr>ps_authority := Some a, ps_len := ps_len p + 1\<rparr>"
| "set_pseudo (FieldPath q) p = p\<lparr>ps_path := Some q, ps_len := ps_len p + 1\<rparr>"
| "set_pseudo (FieldStatus s) p = p\<lparr>ps_status := Some s, ps_len := ps_len p + 1\<rparr>"
| "set_pseudo (FieldProtocol r) p = p\<lparr>ps_protocol := Some r, ps_len := ps_len p + 1\<rparr>"
| "set_pseudo (FieldHeader n v) p = p"

fun try_from_loop :: "('m, 'u) http \<Rightarrow> header_field list \<Rightarrow> bool \<Rightarrow> pseudo \<Rightarrow> 'm \<Rightarrow>
    (header_error, 'm header) result" where
  "try_from_loop http [] regular_field_seen p m = Ok \<lparr>h_pseudo = p, h_fields = m\<rparr>"
| "try_from_loop http (f # fs) regular_field_seen p m =
     (case into_inner f of
        (name, v) \<Rightarrow>
          and_then (field_parse http name v) (\<lambda>parsed.
            case parsed of
              FieldHeader n x \<Rightarrow>
                and_then (unwrap (map_append http m n x)) (\<lambda>m1. try_from_loop http fs True p m1)
            | _ \<Rightarrow>
                if regular_field_seen then Err PseudoAfterRegularField
                else try_from_loop http fs regular_field_seen (set_pseudo parsed p) m))"

definition header_try_from :: "('m, 'u) http \<Rightarrow> header_field list \<Rightarrow> (header_error, 'm header) result" where
  "header_try_from http fs =
     and_then (unwrap (map_with_capacity http (length fs))) (\<lambda>m.
       try_from_loop http fs False pseudo_default m)"

section \<open>Accepted sections\<close>

fun append_all :: "('m, 'u) http \<Rightarrow> 'm \<Rightarrow> (bytes \<times> bytes) list \<Rightarrow> 'm may_panic" where
  "append_all http m [] = Ok m"
| "append_all http m ((n, x) # rest) = and_then (map_append http m n x) (\<lambda>m1. append_all http m1 rest)"

definition parse_field :: "('m, 'u) http \<Rightarrow> header_field \<Rightarrow> (header_error, field) result" where
  "parse_field http f = field_parse http (hf_name f) (hf_value f)"

fun is_pseudo :: "field \<Rightarrow> bool" where
  "is_pseudo (FieldHeader _ _) \<longleftrightarrow> False"
| "is_pseudo _ \<longleftrightarrow> True"

text \<open>A valid pseudo-header field and a valid regular field, said without the parser.\<close>

fun pseudo_field :: "('m, 'u) http \<Rightarrow> header_field \<Rightarrow> field \<Rightarrow> bool" where
  "pseudo_field http f (FieldMethod m) \<longleftrightarrow>
     hf_name f = ascii '':method'' \<and> method_from_bytes http (hf_value f) = Some m"
| "pseudo_field http f (FieldStatus s) \<longleftrightarrow>
     hf_name f = ascii '':status'' \<and> status_from_bytes http (hf_value f) = Some s"
| "pseudo_field http f (FieldScheme s) \<longleftrightarrow>
     hf_name f = ascii '':scheme'' \<and> utf8_valid (hf_value f) \<and> scheme_from_str http (hf_value f) = Some s"
| "pseudo_field http f (FieldAuthority a) \<longleftrightarrow>
     hf_name f = ascii '':authority'' \<and> utf8_valid (hf_value f) \<and> authority_from_str http (hf_value f) = Some a"
| "pseudo_field http f (FieldPath q) \<longleftrightarrow>
     hf_name f = ascii '':path'' \<and> utf8_valid (hf_value f) \<and> path_from_str http (hf_value f) = Some q"
| "pseudo_field http f (FieldProtocol r) \<longleftrightarrow>
     hf_name f = ascii '':protocol'' \<and> utf8_valid (hf_value f) \<and> protocol_from_str (hf_value f) = Some r"
| "pseudo_field http f (FieldHeader n v) \<longleftrightarrow> False"

definition regular_field :: "('m, 'u) http \<Rightarrow> header_field \<Rightarrow> bytes \<times> bytes \<Rightarrow> bool" where
  "regular_field http f e \<longleftrightarrow>
     hf_name f \<noteq> [] \<and> hd (hf_name f) \<noteq> 0x3A
     \<and> name_from_lowercase http (hf_name f) = Some (fst e) \<and> value_from_bytes http (hf_value f) = Some (snd e)"

lemma try_value_eq_Ok [res_simps]: "try_value g v = Ok x \<longleftrightarrow> utf8_valid v \<and> g v = Some x"
  by (auto simp: try_value_def split: option.splits)

lemma from_bytes_eq_Ok [res_simps]: "from_bytes e r = Ok x \<longleftrightarrow> r = Some x"
  by (auto simp: from_bytes_def split: option.splits)

lemma pseudo_names_distinct:
  "ascii '':scheme'' = 0x3A # ascii ''scheme''" "ascii '':authority'' = 0x3A # ascii ''authority''"
  "ascii '':path'' = 0x3A # ascii ''path''" "ascii '':method'' = 0x3A # ascii ''method''"
  "ascii '':status'' = 0x3A # ascii ''status''" "ascii '':protocol'' = 0x3A # ascii ''protocol''"
  "ascii ''scheme'' \<noteq> ascii ''authority''" "ascii ''scheme'' \<noteq> ascii ''path''" "ascii ''scheme'' \<noteq> ascii ''method''"
  "ascii ''scheme'' \<noteq> ascii ''status''" "ascii ''scheme'' \<noteq> ascii ''protocol''"
  "ascii ''authority'' \<noteq> ascii ''path''" "ascii ''authority'' \<noteq> ascii ''method''"
  "ascii ''authority'' \<noteq> ascii ''status''" "ascii ''authority'' \<noteq> ascii ''protocol''"
  "ascii ''path'' \<noteq> ascii ''method''" "ascii ''path'' \<noteq> ascii ''status''" "ascii ''path'' \<noteq> ascii ''protocol''"
  "ascii ''method'' \<noteq> ascii ''status''" "ascii ''method'' \<noteq> ascii ''protocol''"
  "ascii ''status'' \<noteq> ascii ''protocol''"
  by (simp_all add: ascii_def)

lemma regular_field_parse:
  "regular_field http f e \<longleftrightarrow> parse_field http f = Ok (FieldHeader (fst e) (snd e))"
  by (cases "hf_name f") (auto simp: regular_field_def parse_field_def field_parse_def res_simps)

lemma pseudo_field_parse: "pseudo_field http f x \<longleftrightarrow> parse_field http f = Ok x \<and> is_pseudo x"
proof (cases "hf_name f")
  case Nil
  then show ?thesis
    by (cases x) (simp_all add: parse_field_def field_parse_def pseudo_names_distinct)
next
  case (Cons c cs)
  then show ?thesis
    by (cases x) (auto simp: parse_field_def field_parse_def pseudo_names_distinct res_simps)
qed

lemma unwrap_eq_Ok [res_simps, simp]: "unwrap r = Ok x \<longleftrightarrow> r = Ok x"
  by (cases r) auto

lemma unwrap_and_then: "unwrap (and_then r f) = and_then (unwrap r) (\<lambda>x. unwrap (f x))"
  by (cases r) auto

lemma try_from_loop_Cons:
  "try_from_loop http (f # fs) seen p m =
     and_then (parse_field http f) (\<lambda>x.
       if is_pseudo x then (if seen then Err PseudoAfterRegularField else try_from_loop http fs seen (set_pseudo x p) m)
       else case x of FieldHeader n v \<Rightarrow> and_then (unwrap (map_append http m n v)) (\<lambda>m1. try_from_loop http fs True p m1)
            | _ \<Rightarrow> Panic)"
  by (cases "field_parse http (hf_name f) (hf_value f)")
    (simp_all add: parse_field_def into_inner_def split: field.split)

declare try_from_loop.simps(2) [simp del]

lemma regular_field_iff:
  "parse_field http f = Ok (FieldHeader n v) \<Longrightarrow> regular_field http f e \<longleftrightarrow> e = (n, v)"
  by (cases e) (auto simp: regular_field_parse)

lemma try_from_regular:
  "try_from_loop http fs True p m = Ok h \<longleftrightarrow>
     (\<exists>es. list_all2 (regular_field http) fs es \<and> append_all http m es = Ok (h_fields h) \<and> h_pseudo h = p)"
proof (induction fs arbitrary: m)
  case Nil
  then show ?case by (cases h) auto
next
  case (Cons f fs)
  show ?case
  proof (cases "parse_field http f")
    case (Ok x)
    show ?thesis
    proof (cases x)
      case (FieldHeader n v)
      then show ?thesis
        using Ok regular_field_iff [of http f n v]
        by (auto simp: try_from_loop_Cons res_simps list_all2_Cons1 Cons.IH) blast
    qed (use Ok in \<open>auto simp: try_from_loop_Cons list_all2_Cons1 regular_field_parse\<close>)
  qed (auto simp: try_from_loop_Cons list_all2_Cons1 regular_field_parse)
qed

lemma try_from_any:
  "try_from_loop http fs False p m = Ok h \<longleftrightarrow>
     (\<exists>ps rs xs es. fs = ps @ rs \<and> list_all2 (pseudo_field http) ps xs \<and> list_all2 (regular_field http) rs es \<and>
       append_all http m es = Ok (h_fields h) \<and> h_pseudo h = fold set_pseudo xs p)"
    (is "_ \<longleftrightarrow> ?R fs p")
proof (induction fs arbitrary: p)
  case Nil
  then show ?case by (cases h) auto
next
  case (Cons f fs)
  have split: "?R (f # fs) p \<longleftrightarrow>
      (\<exists>x. pseudo_field http f x \<and> ?R fs (set_pseudo x p)) \<or>
      (\<exists>es. list_all2 (regular_field http) (f # fs) es \<and> append_all http m es = Ok (h_fields h) \<and> h_pseudo h = p)"
    (is "?L \<longleftrightarrow> ?A \<or> ?B")
  proof
    assume ?L
    then obtain ps rs xs es where l: "f # fs = ps @ rs" "list_all2 (pseudo_field http) ps xs"
        "list_all2 (regular_field http) rs es" "append_all http m es = Ok (h_fields h)" "h_pseudo h = fold set_pseudo xs p"
      by blast
    show "?A \<or> ?B"
    proof (cases ps)
      case Nil
      then show ?thesis using l by auto
    next
      case (Cons g ps')
      then obtain x xs' where x: "xs = x # xs'" "pseudo_field http f x" "list_all2 (pseudo_field http) ps' xs'"
          "fs = ps' @ rs"
        using l(1,2) by (auto simp: list_all2_Cons1)
      then have "?R fs (set_pseudo x p)" using l(3-5) by auto
      with x(2) show ?thesis by blast
    qed
  next
    assume "?A \<or> ?B"
    then show ?L
    proof
      assume ?A
      then obtain x ps rs xs es where "pseudo_field http f x" "fs = ps @ rs" "list_all2 (pseudo_field http) ps xs"
          "list_all2 (regular_field http) rs es" "append_all http m es = Ok (h_fields h)"
          "h_pseudo h = fold set_pseudo xs (set_pseudo x p)" by blast
      then show ?L
        by (intro exI [of _ "f # ps"] exI [of _ rs] exI [of _ "x # xs"] exI [of _ es]) simp
    next
      assume ?B
      then obtain es where "list_all2 (regular_field http) (f # fs) es" "append_all http m es = Ok (h_fields h)" "h_pseudo h = p"
        by blast
      then show ?L
        by (intro exI [of _ "[]"] exI [of _ "f # fs"] exI [of _ "[]"] exI [of _ es]) simp
    qed
  qed
  show ?case
  proof (cases "parse_field http f")
    case (Ok x)
    show ?thesis
    proof (cases "is_pseudo x")
      case True
      have "(\<exists>y. pseudo_field http f y \<and> ?R fs (set_pseudo y p)) \<longleftrightarrow> ?R fs (set_pseudo x p)"
        using Ok True by (simp add: pseudo_field_parse)
      moreover have "\<not> list_all2 (regular_field http) (f # fs) es" for es
        using Ok True by (cases es) (auto simp: regular_field_parse)
      ultimately show ?thesis
        using Ok True Cons.IH [of "set_pseudo x p"] split by (simp add: try_from_loop_Cons)
    next
      case False
      then have "try_from_loop http (f # fs) False p m = try_from_loop http (f # fs) True p m"
        using Ok by (simp add: try_from_loop_Cons)
      moreover have "\<not> pseudo_field http f y" for y
        using Ok False by (auto simp: pseudo_field_parse)
      ultimately show ?thesis unfolding split try_from_regular [symmetric] by simp
    qed
  next
    case (Err e)
    then show ?thesis unfolding split by (auto simp: try_from_loop_Cons pseudo_field_parse regular_field_parse list_all2_Cons1)
  next
    case Panic
    then show ?thesis unfolding split by (auto simp: try_from_loop_Cons pseudo_field_parse regular_field_parse list_all2_Cons1)
  qed
qed

text \<open>
  C16: a list of fields is accepted as a header section exactly when it is a list of known
  pseudo-header fields with valid values, followed by regular fields with valid names and
  values; the regular fields are appended to the map in order, and of several pseudo-header
  fields of one kind the last one counts.
\<close>
theorem header_try_from_exact:
  "header_try_from http fs = Ok h \<longleftrightarrow>
     (\<exists>m ps rs xs es. map_with_capacity http (length fs) = Ok m \<and> fs = ps @ rs \<and>
       list_all2 (pseudo_field http) ps xs \<and> list_all2 (regular_field http) rs es \<and>
       append_all http m es = Ok (h_fields h) \<and> h_pseudo h = fold set_pseudo xs pseudo_default)"
  by (auto simp: header_try_from_def res_simps try_from_any)

section \<open>What is sent is what is received\<close>

fun iter_entries :: "bytes option \<Rightarrow> (bytes option \<times> bytes) list \<Rightarrow> (bytes \<times> bytes) list" where
  "iter_entries prev [] = []"
| "iter_entries prev ((new_name, v) # rest) =
     (let prev1 = (case new_name of Some n \<Rightarrow> Some n | None \<Rightarrow> prev) in
      case prev1 of
        Some n \<Rightarrow> (n, v) # iter_entries prev1 rest
      | None \<Rightarrow> iter_entries prev1 rest)"

text \<open>The entries of a map: a name counts for the values behind it, until the next name.\<close>

definition map_entries :: "('m, 'u) http \<Rightarrow> 'm \<Rightarrow> (bytes \<times> bytes) list" where
  "map_entries http m = iter_entries None (map_into_iter http m)"

definition opt_list :: "bytes \<Rightarrow> bytes option \<Rightarrow> header_field list" where
  "opt_list name v = (case v of Some x \<Rightarrow> [header_field_of_pair (name, x)] | None \<Rightarrow> [])"

definition pseudo_list :: "pseudo \<Rightarrow> header_field list" where
  "pseudo_list p = opt_list (ascii '':method'') (ps_method p) @ opt_list (ascii '':scheme'') (ps_scheme p)
     @ opt_list (ascii '':authority'') (ps_authority p) @ opt_list (ascii '':path'') (ps_path p)
     @ opt_list (ascii '':status'') (ps_status p)
     @ opt_list (ascii '':protocol'') (map_option protocol_as_str (ps_protocol p))"

lemma pseudo_take_list:
  "case pseudo_take p of
     None \<Rightarrow> pseudo_list p = []
   | Some (f, p') \<Rightarrow> pseudo_list p = f # pseudo_list p'"
  by (cases "ps_method p"; cases "ps_scheme p"; cases "ps_authority p"; cases "ps_path p";
      cases "ps_status p"; cases "ps_protocol p")
    (simp_all add: pseudo_take_def pseudo_list_def opt_list_def)

lemma next_regular_entries:
  "case next_regular prev fs of
     (None, prev', rest) \<Rightarrow> iter_entries prev fs = [] \<and> rest = []
   | (Some f, prev', rest) \<Rightarrow> map header_field_of_pair (iter_entries prev fs) =
       f # map header_field_of_pair (iter_entries prev' rest)"
  by (induction prev fs rule: next_regular.induct) (auto simp: Let_def split: option.splits prod.splits)

lemma iter_collect_regular:
  "it_pseudo it = None \<Longrightarrow>
     iter_collect it = map header_field_of_pair (iter_entries (it_last_header_name it) (it_fields it))"
proof (induction it rule: iter_collect.induct)
  case (1 it)
  obtain r prev' rest where n: "next_regular (it_last_header_name it) (it_fields it) = (r, prev', rest)"
    by (cases "next_regular (it_last_header_name it) (it_fields it)")
  note e = next_regular_entries [of "it_last_header_name it" "it_fields it", unfolded n prod.case]
  let ?it1 = "it\<lparr>it_pseudo := None, it_last_header_name := prev', it_fields := rest\<rparr>"
  have next': "header_iter_next it = (r, ?it1)"
    using 1(2) n by (simp add: header_iter_next_def)
  show ?case
  proof (cases r)
    case None
    then show ?thesis using e next' by (simp add: iter_collect.simps [of it])
  next
    case (Some f)
    have "iter_collect ?it1 = map header_field_of_pair (iter_entries prev' rest)"
      using 1(1) [OF next' [symmetric] Some] by simp
    then show ?thesis using e next' Some by (simp add: iter_collect.simps [of it])
  qed
qed

lemma iter_collect_pseudo:
  "it_pseudo it = Some p \<Longrightarrow> iter_collect it = pseudo_list p @
     map header_field_of_pair (iter_entries (it_last_header_name it) (it_fields it))"
proof (induction it arbitrary: p rule: iter_collect.induct)
  case (1 it)
  show ?case
  proof (cases "pseudo_take p")
    case (Some q)
    then obtain f p' where q: "pseudo_take p = Some (f, p')" by (cases q) auto
    let ?it1 = "it\<lparr>it_pseudo := Some p'\<rparr>"
    have n: "header_iter_next it = (Some f, ?it1)"
      using 1(2) q by (simp add: header_iter_next_def)
    have "iter_collect ?it1 = pseudo_list p' @
        map header_field_of_pair (iter_entries (it_last_header_name it) (it_fields it))"
      using 1(1) [OF n [symmetric] refl, of p'] by simp
    then show ?thesis
      using n q pseudo_take_list [of p] by (simp add: iter_collect.simps [of it])
  next
    case None
    have "header_iter_next it = header_iter_next (it\<lparr>it_pseudo := None\<rparr>)"
      using 1(2) None by (cases it) (simp add: header_iter_next_def)
    then have "iter_collect it = iter_collect (it\<lparr>it_pseudo := None\<rparr>)"
      by (simp add: iter_collect.simps [of it] iter_collect.simps [of "it\<lparr>it_pseudo := None\<rparr>"])
    then show ?thesis
      using iter_collect_regular [of "it\<lparr>it_pseudo := None\<rparr>"] pseudo_take_list [of p] None by simp
  qed
qed

lemma iter_collect_header:
  "iter_collect (header_into_iter http h) =
     pseudo_list (h_pseudo h) @ map header_field_of_pair (map_entries http (h_fields h))"
  using iter_collect_pseudo [of "header_into_iter http h" "h_pseudo h"]
  by (simp add: header_into_iter_def map_entries_def)

text \<open>The values of a header parse to themselves: \<open>as_str\<close> of a parsed value is accepted again.\<close>

definition pseudo_valid :: "('m, 'u) http \<Rightarrow> pseudo \<Rightarrow> bool" where
  "pseudo_valid http p \<longleftrightarrow>
     (\<forall>v. ps_method p = Some v \<longrightarrow> method_from_bytes http v = Some v) \<and>
     (\<forall>v. ps_scheme p = Some v \<longrightarrow> utf8_valid v \<and> scheme_from_str http v = Some v) \<and>
     (\<forall>v. ps_authority p = Some v \<longrightarrow> utf8_valid v \<and> authority_from_str http v = Some v) \<and>
     (\<forall>v. ps_path p = Some v \<longrightarrow> utf8_valid v \<and> path_from_str http v = Some v) \<and>
     (\<forall>v. ps_status p = Some v \<longrightarrow> status_from_bytes http v = Some v)"

definition entry_valid :: "('m, 'u) http \<Rightarrow> bytes \<times> bytes \<Rightarrow> bool" where
  "entry_valid http e \<longleftrightarrow> fst e \<noteq> [] \<and> hd (fst e) \<noteq> 0x3A \<and>
     name_from_lowercase http (fst e) = Some (fst e) \<and> value_from_bytes http (snd e) = Some (snd e)"

definition pseudo_values :: "pseudo \<Rightarrow> field list" where
  "pseudo_values p = (case ps_method p of Some v \<Rightarrow> [FieldMethod v] | None \<Rightarrow> [])
     @ (case ps_scheme p of Some v \<Rightarrow> [FieldScheme v] | None \<Rightarrow> [])
     @ (case ps_authority p of Some v \<Rightarrow> [FieldAuthority v] | None \<Rightarrow> [])
     @ (case ps_path p of Some v \<Rightarrow> [FieldPath v] | None \<Rightarrow> [])
     @ (case ps_status p of Some v \<Rightarrow> [FieldStatus v] | None \<Rightarrow> [])
     @ (case ps_protocol p of Some v \<Rightarrow> [FieldProtocol v] | None \<Rightarrow> [])"

lemma pseudo_names:
  "ascii '':method'' = [0x3A, 0x6D, 0x65, 0x74, 0x68, 0x6F, 0x64]"
  "ascii '':scheme'' = [0x3A, 0x73, 0x63, 0x68, 0x65, 0x6D, 0x65]"
  "ascii '':authority'' = [0x3A, 0x61, 0x75, 0x74, 0x68, 0x6F, 0x72, 0x69, 0x74, 0x79]"
  "ascii '':path'' = [0x3A, 0x70, 0x61, 0x74, 0x68]"
  "ascii '':status'' = [0x3A, 0x73, 0x74, 0x61, 0x74, 0x75, 0x73]"
  "ascii '':protocol'' = [0x3A, 0x70, 0x72, 0x6F, 0x74, 0x6F, 0x63, 0x6F, 0x6C]"
  by (simp_all add: ascii_def)

lemma protocol_roundtrip: "utf8_valid (protocol_as_str r) \<and> protocol_from_str (protocol_as_str r) = Some r"
  by (cases r) (simp_all add: protocol_from_str_def ascii_def)

lemma opt_list_parses:
  assumes "\<And>x. v = Some x \<Longrightarrow> field_parse http name x = Ok (mk x)" and "\<And>x. is_pseudo (mk x)"
  shows "list_all2 (pseudo_field http) (opt_list name v) (case v of Some x \<Rightarrow> [mk x] | None \<Rightarrow> [])"
  using assms by (cases v) (simp_all add: opt_list_def pseudo_field_parse parse_field_def header_field_of_pair_def)

lemma pseudo_list_parses:
  assumes "pseudo_valid http p"
  shows "list_all2 (pseudo_field http) (pseudo_list p) (pseudo_values p)"
proof -
  have pr: "list_all2 (pseudo_field http) (opt_list (ascii '':protocol'') (map_option protocol_as_str (ps_protocol p)))
      (case ps_protocol p of Some v \<Rightarrow> [FieldProtocol v] | None \<Rightarrow> [])"
    using protocol_roundtrip
    by (cases "ps_protocol p")
      (simp_all add: opt_list_def pseudo_field_parse parse_field_def header_field_of_pair_def field_parse_def
        pseudo_names try_value_def)
  show ?thesis
    unfolding pseudo_list_def pseudo_values_def
    by (intro list_all2_appendI opt_list_parses pr)
      (use assms in \<open>simp_all add: pseudo_valid_def field_parse_def pseudo_names try_value_def from_bytes_def\<close>)
qed

lemma pseudo_values_fold:
  "fold set_pseudo (pseudo_values p) pseudo_default = p\<lparr>ps_len := pseudo_count p\<rparr>"
  by (cases p; cases "ps_method p"; cases "ps_scheme p"; cases "ps_authority p"; cases "ps_path p";
      cases "ps_status p"; cases "ps_protocol p")
    (simp_all add: pseudo_values_def pseudo_default_def pseudo_count_def some_count_def)

lemma entries_parse:
  assumes "\<forall>e \<in> set es. entry_valid http e"
  shows "list_all2 (regular_field http) (map header_field_of_pair es) es"
proof -
  have "regular_field http (header_field_of_pair e) e" if "entry_valid http e" for e
    using that by (cases e; cases "fst e")
      (auto simp: regular_field_parse parse_field_def header_field_of_pair_def field_parse_def entry_valid_def
        from_bytes_def)
  with assms show ?thesis by (simp add: list_all2_map1 list_all2_same)
qed

definition header_fields :: "('m, 'u) http \<Rightarrow> 'm header \<Rightarrow> header_field list" where
  "header_fields http h = iter_collect (header_into_iter http h)"

definition header_valid :: "('m, 'u) http \<Rightarrow> 'm header \<Rightarrow> bool" where
  "header_valid http h \<longleftrightarrow> pseudo_valid http (h_pseudo h) \<and>
     (\<forall>e \<in> set (map_entries http (h_fields h)). entry_valid http e)"

lemma header_roundtrip:
  assumes "header_valid http h" and "map_with_capacity http (length (header_fields http h)) = Ok m0"
    and "append_all http m0 (map_entries http (h_fields h)) = Ok m"
  shows "header_try_from http (header_fields http h) =
    Ok \<lparr>h_pseudo = (h_pseudo h)\<lparr>ps_len := pseudo_count (h_pseudo h)\<rparr>, h_fields = m\<rparr>"
proof -
  let ?p = "h_pseudo h" and ?es = "map_entries http (h_fields h)"
  have "header_fields http h = pseudo_list ?p @ map header_field_of_pair ?es"
    by (simp add: header_fields_def iter_collect_header)
  moreover have "list_all2 (pseudo_field http) (pseudo_list ?p) (pseudo_values ?p)"
    "list_all2 (regular_field http) (map header_field_of_pair ?es) ?es"
    using assms(1) pseudo_list_parses entries_parse by (auto simp: header_valid_def)
  ultimately show ?thesis
    unfolding header_try_from_def using assms(2,3)
    by (auto simp: res_simps try_from_any pseudo_values_fold intro!: exI)
qed

text \<open>
  The count that \<open>Pseudo::request\<close> stores is two too high for a plain CONNECT request, which
  has neither scheme nor path.
\<close>

lemma pseudo_request_len:
  "ps_len (pseudo_request http meth uri ext) = pseudo_count (pseudo_request http meth uri ext) +
     (if meth = CONNECT \<and> ext = None then 2 else 0)"
  by (auto simp: pseudo_request_def pseudo_count_def some_count_def Let_def split: option.splits)

text \<open>
  Of two pseudo-header fields of one kind the last one counts: the section is not rejected.
\<close>

lemma repeated_pseudo_accepted:
  assumes "map_with_capacity http 2 = Ok m" and "method_from_bytes http v = Some v" and "method_from_bytes http w = Some w"
  shows "header_try_from http [\<lparr>hf_name = ascii '':method'', hf_value = v\<rparr>, \<lparr>hf_name = ascii '':method'', hf_value = w\<rparr>] =
    Ok \<lparr>h_pseudo = pseudo_default\<lparr>ps_method := Some w, ps_len := 2\<rparr>, h_fields = m\<rparr>"
  using assms
  by (simp add: header_try_from_def try_from_loop_Cons parse_field_def field_parse_def pseudo_names from_bytes_def
      pseudo_default_def numeral_2_eq_2)

text \<open>
  The map is created for as many fields as the section has, before any of them is looked at;
  a capacity the map does not support is a panic.
\<close>

lemma many_fields_panic:
  assumes "map_with_capacity http (length fs) = Panic"
  shows "header_try_from http fs = Panic"
  using assms by (simp add: header_try_from_def)

end
