(* ===== verification/Messages.thy ===== *)
theory Messages
  imports Headers QpackEncoder
begin

text \<open>
  A message on its way: \<open>Header\<close> of \<open>h3/src/proto/headers.rs\<close> on both sides, with the stateless
  QPACK encoder and decoder of \<open>h3/src/qpack/\<close> between them, as \<open>send_request\<close> and
  \<open>resolve_request\<close>, \<open>send_response\<close> and \<open>recv_response\<close>, and the trailers use them.
\<close>

section \<open>Encoding and decoding a header section\<close>

definition encode_header :: "('m, 'u) http \<Rightarrow> 'm header \<Rightarrow> (encoder_error, nat \<times> bytes) result" where
  "encode_header http h = encode_stateless (header_fields http h)"

text \<open>The fields must be short enough for the Huffman coder, and their sizes must add up.\<close>

definition header_small :: "('m, 'u) http \<Rightarrow> 'm header \<Rightarrow> bool" where
  "header_small http h \<longleftrightarrow> (\<forall>f \<in> set (header_fields http h). field_ok f) \<and>
     fields_mem_size (header_fields http h) \<le> usize_max"

text \<open>A block is not much longer than its fields: no code of a byte has more than 30 bits.\<close>

lemma prefix_int_encode_length:
  assumes "prefix_int_encode sz flags v = Ok bs"
  shows "length bs \<le> 2 + v"
proof -
  have "length (prefix_int_encode_loop n) \<le> n + 1" for n
  proof (induction n rule: prefix_int_encode_loop.induct)
    case (1 n)
    then show ?case by (cases "n \<ge> 128") (auto simp: prefix_int_encode_loop.simps [of n])
  qed
  from this [of "v - unat (NOT (push_bit sz 0xFF) :: u8)"] show ?thesis
    using assms by (auto simp: prefix_int_encode_def assert_then_def Let_def split: if_splits)
qed

lemma prefix_string_encode_length:
  "prefix_string_encode sz flags val = Ok bs \<Longrightarrow> length bs \<le> 2 + 8 * length val"
  by (auto simp: prefix_string_encode_def res_simps dest!: hpack_encode_length prefix_int_encode_length)

lemma stateless_line_length:
  assumes "stateless_line f = Ok bs"
  shows "length bs \<le> 8 * mem_size f"
proof (cases "static_find f")
  case (Some i)
  then have "i < 99" using static_find_Some_iff by blast
  then show ?thesis
    using assms Some by (auto simp: stateless_line_def mem_size_def ESTIMATED_OVERHEAD_BYTES_def dest!: prefix_int_encode_length)
next
  case None
  show ?thesis
  proof (cases "static_find_name (hf_name f)")
    case (Some i)
    then have "i < 99" using static_find_name_Some by blast
    then show ?thesis
      using assms None Some by (auto simp: stateless_line_def res_simps mem_size_def ESTIMATED_OVERHEAD_BYTES_def
          dest!: prefix_int_encode_length prefix_string_encode_length)
  next
    case none: None
    then show ?thesis
      using assms None by (auto simp: stateless_line_def literal_encode_def res_simps mem_size_def
          ESTIMATED_OVERHEAD_BYTES_def dest!: prefix_string_encode_length)
  qed
qed

lemma encode_stateless_loop_length:
  "encode_stateless_loop fs sz = Ok (n, bs) \<Longrightarrow> length bs \<le> 8 * fields_mem_size fs"
proof (induction fs arbitrary: sz n bs)
  case (Cons f fs)
  then show ?case
    by (auto simp: res_simps fields_mem_size_def dest!: stateless_line_length) fastforce
qed (simp add: fields_mem_size_def)

lemma encode_header_length:
  assumes "encode_header http h = Ok (n, block)" and "fields_mem_size (header_fields http h) < 2 ^ 58"
  shows "length_ok (length block)"
proof -
  have p: "(and_then (header_prefix_new 0 0 0 0) header_prefix_encode :: (encoder_error, bytes) result) = Ok [0, 0]"
    by code_simp
  show ?thesis
    using assms by (auto simp: encode_header_def encode_stateless_def p res_simps length_ok_def
        dest!: encode_stateless_loop_length)
qed

text \<open>The receiver's map, filled with the entries of the sender's.\<close>

definition rebuilt :: "('m, 'u) http \<Rightarrow> 'm header \<Rightarrow> 'm \<Rightarrow> bool" where
  "rebuilt http h m \<longleftrightarrow> (\<exists>m0. map_with_capacity http (length (header_fields http h)) = Ok m0 \<and>
     append_all http m0 (map_entries http (h_fields h)) = Ok m)"

lemma header_section_roundtrip:
  assumes "header_valid http h" and "header_small http h" and "rebuilt http h m"
    and "fields_mem_size (header_fields http h) \<le> max_size"
  shows "\<exists>block d. encode_header http h = Ok (fields_mem_size (header_fields http h), block) \<and>
    decode_stateless block max_size = Ok d \<and>
    header_try_from http (dec_fields d) =
      Ok \<lparr>h_pseudo = (h_pseudo h)\<lparr>ps_len := pseudo_count (h_pseudo h)\<rparr>, h_fields = m\<rparr>"
proof -
  have small: "\<forall>f \<in> set (header_fields http h). field_ok f" "fields_mem_size (header_fields http h) \<le> usize_max"
    using assms(2) by (simp_all add: header_small_def)
  obtain block where "encode_stateless (header_fields http h) = Ok (fields_mem_size (header_fields http h), block)"
    "decode_stateless block max_size = Ok \<lparr>dec_fields = header_fields http h, dec_dyn_ref = False,
       dec_mem_size = fields_mem_size (header_fields http h)\<rparr>"
    using stateless_roundtrip_spec [OF small, of max_size] assms(4) by auto
  then show ?thesis
    using header_roundtrip [OF assms(1)] assms(3) by (auto simp: encode_header_def rebuilt_def)
qed

section \<open>Requests, responses and trailers\<close>

lemma pseudo_request_values:
  "ps_method (pseudo_request http meth uri ext) = Some meth"
  "ps_authority (pseudo_request http meth uri ext) = uri_authority http uri"
  "ps_status (pseudo_request http meth uri ext) = None"
  by (auto simp: pseudo_request_def Let_def split: prod.split)

lemma request_parts_of_request:
  assumes "header_request http meth uri fs ext = Ok h"
    and "map_get http m (ascii ''host'') = map_get http fs (ascii ''host'')"
  shows "\<exists>a. (uri_authority http uri = Some a \<or> uri_authority http uri = None \<and> map_get http fs (ascii ''host'') = Some a) \<and>
    into_request_parts http \<lparr>h_pseudo = (h_pseudo h)\<lparr>ps_len := n\<rparr>, h_fields = m\<rparr> =
      (case uri_build http (ps_scheme (h_pseudo h)) (Some a) (ps_path (h_pseudo h)) of
         None \<Rightarrow> Err InvalidRequest
       | Some u \<Rightarrow> Ok (meth, u, ps_protocol (h_pseudo h), m))"
proof -
  have h: "h = \<lparr>h_pseudo = pseudo_request http meth uri ext, h_fields = fs\<rparr>"
    using assms(1) by (auto simp: header_request_def Let_def split: option.splits if_splits)
  show ?thesis
    using assms
    by (cases "uri_authority http uri"; cases "map_get http fs (ascii ''host'')")
      (auto simp: header_request_def into_request_parts_def h pseudo_request_values Let_def split: option.splits if_splits)
qed

text \<open>
  A request that the client could build reaches the server as it was sent: the encoded
  header section decodes within the size limit and yields the method, the protocol of an
  extended CONNECT, the header map, and the URI that scheme, authority and path make up; only
  a URI that the \<open>http\<close> crate does not build from them is an error.
\<close>
theorem request_exchange:
  assumes "header_request http meth uri fs ext = Ok h"
    and "header_valid http h" and "header_small http h" and "rebuilt http h m"
    and "map_get http m (ascii ''host'') = map_get http fs (ascii ''host'')"
    and "fields_mem_size (header_fields http h) \<le> max_size"
  shows "\<exists>block d a. encode_header http h = Ok (fields_mem_size (header_fields http h), block) \<and>
    decode_stateless block max_size = Ok d \<and>
    (uri_authority http uri = Some a \<or> uri_authority http uri = None \<and> map_get http fs (ascii ''host'') = Some a) \<and>
    and_then (header_try_from http (dec_fields d)) (into_request_parts http) =
      (case uri_build http (ps_scheme (h_pseudo h)) (Some a) (ps_path (h_pseudo h)) of
         None \<Rightarrow> Err InvalidRequest
       | Some u \<Rightarrow> Ok (meth, u, ps_protocol (h_pseudo h), m))"
  using header_section_roundtrip [OF assms(2-4,6)] request_parts_of_request [OF assms(1,5)]
  by fastforce

text \<open>A concrete \<open>http\<close>: every value parses, maps are lists, a URI is its three parts.\<close>

type_synonym entry_list = "(bytes \<times> bytes) list"
type_synonym uri_parts = "bytes option \<times> bytes option \<times> bytes option"

definition simple_http :: "(entry_list, uri_parts) http" where
  "simple_http = \<lparr>name_from_lowercase = Some, value_from_bytes = Some, method_from_bytes = Some,
     status_from_bytes = Some, scheme_from_str = Some,
     authority_from_str = (\<lambda>b. if b = [] then None else Some b), path_from_str = Some,
     path_part = (\<lambda>p. p), uri_scheme = fst, uri_authority = (\<lambda>u. fst (snd u)),
     uri_path_and_query = (\<lambda>u. snd (snd u)),
     uri_build = (\<lambda>s a p. if a = Some [] then None else Some (s, a, p)),
     map_with_capacity = (\<lambda>n. if n \<le> 32768 then Ok [] else Panic),
     map_append = (\<lambda>m n x. if length m < 32768 then Ok (m @ [(n, x)]) else Panic),
     map_get = map_of, map_into_iter = map (\<lambda>(n, x). (Some n, x)), map_len = length\<rparr>"

definition example_uri :: uri_parts where
  "example_uri = (Some HTTPS, Some (ascii ''a.b''), Some (ascii ''/c''))"

lemma example_header:
  "\<exists>h. header_request simple_http (ascii ''GET'') example_uri [(ascii ''x'', ascii ''y'')] None = Ok h \<and>
    header_valid simple_http h \<and> header_small simple_http h \<and>
    rebuilt simple_http h [(ascii ''x'', ascii ''y'')] \<and> fields_mem_size (header_fields simple_http h) = 204 \<and>
    h_pseudo h = pseudo_request simple_http (ascii ''GET'') example_uri None"
proof -
  let ?h = "\<lparr>h_pseudo = pseudo_request simple_http (ascii ''GET'') example_uri None, h_fields = [(ascii ''x'', ascii ''y'')]\<rparr>"
  have p: "pseudo_request simple_http (ascii ''GET'') example_uri None =
      \<lparr>ps_method = Some (ascii ''GET''), ps_scheme = Some HTTPS, ps_authority = Some (ascii ''a.b''),
       ps_path = Some (ascii ''/c''), ps_status = None, ps_protocol = None, ps_len = 4\<rparr>"
    by (simp add: pseudo_request_def simple_http_def example_uri_def CONNECT_def ascii_def)
  have e: "map_entries simple_http [(ascii ''x'', ascii ''y'')] = [(ascii ''x'', ascii ''y'')]"
    by (simp add: map_entries_def simple_http_def)
  have f: "header_fields simple_http ?h = [
      \<lparr>hf_name = ascii '':method'', hf_value = ascii ''GET''\<rparr>, \<lparr>hf_name = ascii '':scheme'', hf_value = HTTPS\<rparr>,
      \<lparr>hf_name = ascii '':authority'', hf_value = ascii ''a.b''\<rparr>, \<lparr>hf_name = ascii '':path'', hf_value = ascii ''/c''\<rparr>,
      \<lparr>hf_name = ascii ''x'', hf_value = ascii ''y''\<rparr>]"
    by (simp add: header_fields_def iter_collect_header e p pseudo_list_def opt_list_def header_field_of_pair_def)
  have "header_request simple_http (ascii ''GET'') example_uri [(ascii ''x'', ascii ''y'')] None = Ok ?h"
    by (simp add: header_request_def simple_http_def example_uri_def Let_def ascii_def)
  moreover have "header_valid simple_http ?h"
    by (simp add: header_valid_def pseudo_valid_def entry_valid_def p e)
      (simp add: simple_http_def ascii_def HTTPS_def)
  moreover have "fields_mem_size (header_fields simple_http ?h) = 204"
    unfolding f by (simp add: mem_size_def ESTIMATED_OVERHEAD_BYTES_def ascii_def HTTPS_def)
  moreover have "header_small simple_http ?h"
    using calculation(3) unfolding header_small_def f
    by (simp add: field_ok_def string_ok_def ascii_def HTTPS_def usize_max_def)
  moreover have "rebuilt simple_http ?h [(ascii ''x'', ascii ''y'')]"
    unfolding rebuilt_def f by (simp add: e) (simp add: simple_http_def)
  ultimately show ?thesis by auto
qed

theorem request_exchange_witness:
  "\<exists>h block d. header_request simple_http (ascii ''GET'') example_uri [(ascii ''x'', ascii ''y'')] None = Ok h \<and>
    encode_header simple_http h = Ok (204, block) \<and> decode_stateless block 300 = Ok d \<and>
    and_then (header_try_from simple_http (dec_fields d)) (into_request_parts simple_http) =
      Ok (ascii ''GET'', example_uri, None, [(ascii ''x'', ascii ''y'')])"
proof -
  obtain h where h: "header_request simple_http (ascii ''GET'') example_uri [(ascii ''x'', ascii ''y'')] None = Ok h"
      "header_valid simple_http h" "header_small simple_http h" "rebuilt simple_http h [(ascii ''x'', ascii ''y'')]"
      "fields_mem_size (header_fields simple_http h) = 204"
      "h_pseudo h = pseudo_request simple_http (ascii ''GET'') example_uri None"
    using example_header by blast
  have "fields_mem_size (header_fields simple_http h) \<le> 300" using h(5) by simp
  from request_exchange [OF h(1-4) refl this] obtain block d a where
    b: "encode_header simple_http h = Ok (204, block)" "decode_stateless block 300 = Ok d"
      "uri_authority simple_http example_uri = Some a \<or> uri_authority simple_http example_uri = None"
      "and_then (header_try_from simple_http (dec_fields d)) (into_request_parts simple_http) =
        (case uri_build simple_http (ps_scheme (h_pseudo h)) (Some a) (ps_path (h_pseudo h)) of
           None \<Rightarrow> Err InvalidRequest
         | Some u \<Rightarrow> Ok (ascii ''GET'', u, ps_protocol (h_pseudo h), [(ascii ''x'', ascii ''y'')]))"
    unfolding h(5) by blast
  have "a = ascii ''a.b''" using b(3) by (simp add: simple_http_def example_uri_def)
  then have "and_then (header_try_from simple_http (dec_fields d)) (into_request_parts simple_http) =
      Ok (ascii ''GET'', example_uri, None, [(ascii ''x'', ascii ''y'')])"
    using b(4) unfolding h(6)
    by (simp add: simple_http_def example_uri_def pseudo_request_def CONNECT_def ascii_def)
  with h(1) b(1,2) show ?thesis by blast
qed

end
