(* ===== verification/Transport.thy ===== *)
theory Transport
  imports Errors
begin

text \<open>
  The QUIC transport as the connection uses it. It is not part of the repository: what it
  answers to each poll is a list, one answer per poll, pending when the list is exhausted, and
  what it is told (bytes to send, codes to close, reset or stop with) is recorded. The traits
  are those of \<open>h3/src/quic.rs\<close>; \<open>write\<close> is the function of \<open>h3/src/stream.rs\<close>.
\<close>

section \<open>Polling\<close>

text \<open>\<open>ready!\<close> followed by \<open>?\<close>: go on with the value of a result that is ready.\<close>

fun poll_then :: "('e, 'a) result poll \<times> 's \<Rightarrow> ('a \<Rightarrow> 's \<Rightarrow> ('f, 'b) result poll \<times> 's) \<Rightarrow> ('e \<Rightarrow> 's \<Rightarrow> 'f \<times> 's) \<Rightarrow>
    ('f, 'b) result poll \<times> 's" where
  "poll_then (Pending, s) f h = (Pending, s)"
| "poll_then (Ready (Ok x), s) f h = f x s"
| "poll_then (Ready (Err e), s) f h = (case h e s of (e', s') \<Rightarrow> (Ready (Err e'), s'))"
| "poll_then (Ready Panic, s) f h = (Ready Panic, s)"

lemma poll_result_cases [case_names pending ok err panic]:
  obtains "p = Pending" | x where "p = Ready (Ok x)" | e where "p = Ready (Err e)" | "p = Ready Panic"
  by (metis poll.exhaust result.exhaust)

lemma poll_then_split:
  "P (poll_then (p, s) f h) \<longleftrightarrow>
     (p = Pending \<longrightarrow> P (Pending, s)) \<and> (\<forall>x. p = Ready (Ok x) \<longrightarrow> P (f x s))
     \<and> (\<forall>e e' s'. p = Ready (Err e) \<longrightarrow> h e s = (e', s') \<longrightarrow> P (Ready (Err e'), s'))
     \<and> (p = Ready Panic \<longrightarrow> P (Ready Panic, s))"
  by (cases "((p, s), f, h)" rule: poll_then.cases) (auto split: prod.splits)

section \<open>Sending streams\<close>

datatype send_answer = SendPending | SendOk | SendErr stream_error_incoming

datatype out_data =
    OutFrame "bytes frame"
  | OutUniHeader uni_stream_header
  | OutTypedFrame stream_type "bytes frame"

text \<open>\<open>Into<WriteBuf>\<close>; \<open>r\<close> is the random number of a grease frame.\<close>

fun into_write_buf :: "u64 \<Rightarrow> out_data \<Rightarrow> write_buf may_panic" where
  "into_write_buf r (OutFrame f) = write_buf_of_frame r f"
| "into_write_buf r (OutUniHeader h) = write_buf_of_uni_header h"
| "into_write_buf r (OutTypedFrame ty f) = write_buf_of_typed_frame r ty f"

record out_stream =
  os_refused :: "stream_error_incoming option"
  os_ready :: "send_answer list"
  os_finish :: "send_answer list"
  os_sent :: "write_buf list"
  os_reset :: "h3_code list"

text \<open>\<open>os_refused\<close> is the error \<open>send_data\<close> answers with, if it does.\<close>

definition out_send_data :: "u64 \<Rightarrow> out_data \<Rightarrow> out_stream \<Rightarrow> (stream_error_incoming, unit) result \<times> out_stream" where
  "out_send_data r d st =
     (case into_write_buf r d of
        Ok wb \<Rightarrow>
          (case os_refused st of
             Some e \<Rightarrow> (Err e, st)
           | None \<Rightarrow> (Ok (), st\<lparr>os_sent := os_sent st @ [wb]\<rparr>))
      | _ \<Rightarrow> (Panic, st))"

fun answer :: "send_answer list \<Rightarrow> (stream_error_incoming, unit) result poll \<times> send_answer list" where
  "answer [] = (Pending, [])"
| "answer (SendPending # as) = (Pending, as)"
| "answer (SendOk # as) = (Ready (Ok ()), as)"
| "answer (SendErr e # as) = (Ready (Err e), as)"

definition out_poll_ready :: "out_stream \<Rightarrow> (stream_error_incoming, unit) result poll \<times> out_stream" where
  "out_poll_ready st = (case answer (os_ready st) of (r, as) \<Rightarrow> (r, st\<lparr>os_ready := as\<rparr>))"

definition out_poll_finish :: "out_stream \<Rightarrow> (stream_error_incoming, unit) result poll \<times> out_stream" where
  "out_poll_finish st = (case answer (os_finish st) of (r, as) \<Rightarrow> (r, st\<lparr>os_finish := as\<rparr>))"

text \<open>Awaiting a poll function: ask until the answer is not pending; \<open>Pending\<close> is never.\<close>

fun await_answer :: "send_answer list \<Rightarrow> (stream_error_incoming, unit) result poll \<times> send_answer list" where
  "await_answer [] = (Pending, [])"
| "await_answer (SendPending # as) = await_answer as"
| "await_answer (SendOk # as) = (Ready (Ok ()), as)"
| "await_answer (SendErr e # as) = (Ready (Err e), as)"

definition out_ready :: "out_stream \<Rightarrow> (stream_error_incoming, unit) result poll \<times> out_stream" where
  "out_ready st = (case await_answer (os_ready st) of (r, as) \<Rightarrow> (r, st\<lparr>os_ready := as\<rparr>))"

definition out_finish :: "out_stream \<Rightarrow> (stream_error_incoming, unit) result poll \<times> out_stream" where
  "out_finish st = (case await_answer (os_finish st) of (r, as) \<Rightarrow> (r, st\<lparr>os_finish := as\<rparr>))"

definition write_out :: "u64 \<Rightarrow> out_data \<Rightarrow> out_stream \<Rightarrow> (stream_error_incoming, unit) result poll \<times> out_stream" where
  "write_out r d st =
     poll_then (out_ready st) (\<lambda>_ st1.
     poll_then (case out_send_data r d st1 of (res, st2) \<Rightarrow> (Ready res, st2)) (\<lambda>_ st2.
       out_ready st2) Pair) Pair"

lemma out_ready_sent: "out_ready st = (p, st') \<Longrightarrow> os_sent st' = os_sent st"
  by (auto simp: out_ready_def split: prod.splits)

lemma out_send_data_sent:
  "out_send_data r d st = (x, st') \<Longrightarrow>
   os_sent st' = os_sent st \<or> (\<exists>wb. into_write_buf r d = Ok wb \<and> os_sent st' = os_sent st @ [wb])"
  by (auto simp: out_send_data_def split: result.splits option.splits)

lemma write_out_sent:
  assumes "write_out r d st = (res, st')"
  shows "os_sent st' = os_sent st \<or> (\<exists>wb. into_write_buf r d = Ok wb \<and> os_sent st' = os_sent st @ [wb])"
proof -
  obtain p st1 where p: "out_ready st = (p, st1)" by (cases "out_ready st")
  obtain x st2 where x: "out_send_data r d st1 = (x, st2)" by (cases "out_send_data r d st1")
  obtain p2 st3 where p2: "out_ready st2 = (p2, st3)" by (cases "out_ready st2")
  have "st' = st1 \<or> st' = st2 \<or> st' = st3"
    using assms p x p2
    by (cases p rule: poll_result_cases; cases x; cases p2 rule: poll_result_cases) (auto simp: write_out_def)
  then show ?thesis
    using out_ready_sent [OF p] out_send_data_sent [OF x] out_ready_sent [OF p2] by auto
qed

lemma write_out_Ok:
  assumes "write_out r d st = (Ready (Ok u), st')"
  shows "\<exists>wb. into_write_buf r d = Ok wb \<and> os_sent st' = os_sent st @ [wb]"
proof -
  obtain p st1 where p: "out_ready st = (p, st1)" by (cases "out_ready st")
  obtain x st2 where x: "out_send_data r d st1 = (x, st2)" by (cases "out_send_data r d st1")
  obtain p2 st3 where p2: "out_ready st2 = (p2, st3)" by (cases "out_ready st2")
  have "x = Ok () \<and> st' = st3"
    using assms p x p2 by (cases p rule: poll_result_cases; cases x; cases p2 rule: poll_result_cases)
      (auto simp: write_out_def)
  moreover from this have "\<exists>wb. into_write_buf r d = Ok wb \<and> os_sent st2 = os_sent st1 @ [wb]"
    using x by (auto simp: out_send_data_def split: result.splits option.splits)
  ultimately show ?thesis
    using out_ready_sent [OF p] out_ready_sent [OF p2] by auto
qed

section \<open>Connections\<close>

record bidi_stream =
  bs_id :: u64
  bs_recv :: "recv_event list"
  bs_send :: out_stream
  bs_stopped :: "h3_code list"

datatype uni_event = UniPending | UniStream "recv_event list" | UniError connection_error_incoming

datatype bidi_event = BidiPending | BidiStream bidi_stream | BidiError connection_error_incoming

datatype open_event = OpenPending | OpenStream out_stream | OpenError stream_error_incoming

record quic_conn =
  qc_uni :: "uni_event list"
  qc_bidi :: "bidi_event list"
  qc_open :: "open_event list"
  qc_closed :: "h3_code list"

definition qc_close :: "h3_code \<Rightarrow> quic_conn \<Rightarrow> quic_conn" where
  "qc_close c q = q\<lparr>qc_closed := qc_closed q @ [c]\<rparr>"

fun accept_uni :: "uni_event list \<Rightarrow> (connection_error_incoming, recv_event list) result poll \<times> uni_event list" where
  "accept_uni [] = (Pending, [])"
| "accept_uni (UniPending # es) = (Pending, es)"
| "accept_uni (UniStream tr # es) = (Ready (Ok tr), es)"
| "accept_uni (UniError e # es) = (Ready (Err e), es)"

fun accept_bidi :: "bidi_event list \<Rightarrow> (connection_error_incoming, bidi_stream) result poll \<times> bidi_event list" where
  "accept_bidi [] = (Pending, [])"
| "accept_bidi (BidiPending # es) = (Pending, es)"
| "accept_bidi (BidiStream b # es) = (Ready (Ok b), es)"
| "accept_bidi (BidiError e # es) = (Ready (Err e), es)"

fun open_answer :: "open_event list \<Rightarrow> (stream_error_incoming, out_stream) result poll \<times> open_event list" where
  "open_answer [] = (Pending, [])"
| "open_answer (OpenPending # es) = (Pending, es)"
| "open_answer (OpenStream st # es) = (Ready (Ok st), es)"
| "open_answer (OpenError e # es) = (Ready (Err e), es)"

fun await_open :: "open_event list \<Rightarrow> (stream_error_incoming, out_stream) result poll \<times> open_event list" where
  "await_open [] = (Pending, [])"
| "await_open (OpenPending # es) = await_open es"
| "await_open (OpenStream st # es) = (Ready (Ok st), es)"
| "await_open (OpenError e # es) = (Ready (Err e), es)"

definition qc_poll_open_send :: "quic_conn \<Rightarrow> (stream_error_incoming, out_stream) result poll \<times> quic_conn" where
  "qc_poll_open_send q = (case open_answer (qc_open q) of (r, es) \<Rightarrow> (r, q\<lparr>qc_open := es\<rparr>))"

definition qc_open_send :: "quic_conn \<Rightarrow> (stream_error_incoming, out_stream) result poll \<times> quic_conn" where
  "qc_open_send q = (case await_open (qc_open q) of (r, es) \<Rightarrow> (r, q\<lparr>qc_open := es\<rparr>))"

definition qc_poll_accept_recv ::
  "quic_conn \<Rightarrow> (connection_error_incoming, recv_event list) result poll \<times> quic_conn" where
  "qc_poll_accept_recv q = (case accept_uni (qc_uni q) of (r, es) \<Rightarrow> (r, q\<lparr>qc_uni := es\<rparr>))"

definition qc_poll_accept_bidi ::
  "quic_conn \<Rightarrow> (connection_error_incoming, bidi_stream) result poll \<times> quic_conn" where
  "qc_poll_accept_bidi q = (case accept_bidi (qc_bidi q) of (r, es) \<Rightarrow> (r, q\<lparr>qc_bidi := es\<rparr>))"

section \<open>Errors before there is a connection\<close>

fun handle_quic_error_raw :: "connection_error_incoming \<Rightarrow> quic_conn \<Rightarrow> connection_error \<times> quic_conn" where
  "handle_quic_error_raw Timeout q = (ConnTimeout, q)"
| "handle_quic_error_raw (InternalErrorIncoming _) q =
     (ConnLocal (LocalApplication H3_INTERNAL_ERROR), qc_close H3_INTERNAL_ERROR q)"
| "handle_quic_error_raw e q = (ConnRemote e, q)"

definition close_raw_connection_with_h3_error ::
  "internal_connection_error \<Rightarrow> quic_conn \<Rightarrow> connection_error \<times> quic_conn" where
  "close_raw_connection_with_h3_error e q =
     (ConnLocal (LocalApplication (internal_code e)), qc_close (internal_code e) q)"

lemma qc_poll_accept_recv_shorter:
  "qc_poll_accept_recv q = (Ready r, q') \<Longrightarrow> length (qc_uni q') < length (qc_uni q)"
  by (cases "qc_uni q" rule: accept_uni.cases) (auto simp: qc_poll_accept_recv_def)

lemma qc_poll_accept_bidi_shorter:
  "qc_poll_accept_bidi q = (Ready r, q') \<Longrightarrow> length (qc_bidi q') < length (qc_bidi q)"
  by (cases "qc_bidi q" rule: accept_bidi.cases) (auto simp: qc_poll_accept_bidi_def)

end
