(* ===== verification/Connection.thy ===== *)
theory Connection
  imports Transport
begin

text \<open>
  The connection driver, \<open>ConnectionInner\<close> of \<open>h3/src/connection.rs\<close>, with the handling of
  connection errors of \<open>h3/src/error/connection_error_creators.rs\<close>: accepting unidirectional
  streams, reading the control stream, GOAWAY in both directions and the grease stream. The
  state the streams share with it is \<open>ci_shared\<close>.
\<close>

section \<open>State\<close>

datatype grease_status =
    GreaseNotStarted
  | GreaseStarted "out_stream option"
  | GreaseDataPrepared "out_stream option"
  | GreaseDataSent out_stream
  | GreaseFinished

record conn_inner =
  ci_shared :: shared_state
  ci_conn :: quic_conn
  ci_control_send :: out_stream
  ci_control_recv :: "frame_stream option"
  ci_decoder_send :: "out_stream option"
  ci_decoder_recv :: "recv_stream option"
  ci_encoder_send :: "out_stream option"
  ci_encoder_recv :: "recv_stream option"
  ci_wt_uni :: "(session_id \<times> recv_stream) list"
  ci_pending_recv :: "accept_recv_stream option list"
  ci_got_peer_settings :: bool
  ci_handled_error :: "connection_error option"
  ci_send_grease_frame :: bool
  ci_send_grease_stream :: bool
  ci_grease_step :: grease_status
  ci_config :: config
  ci_stopped :: "h3_code list"
  ci_random :: "u64 \<times> u64"

section \<open>Connection errors\<close>

definition close_connection :: "h3_code \<Rightarrow> conn_inner \<Rightarrow> conn_inner" where
  "close_connection code c = c\<lparr>ci_conn := qc_close code (ci_conn c)\<rparr>"

fun close_if_needed :: "error_origin \<Rightarrow> conn_inner \<Rightarrow> conn_inner" where
  "close_if_needed (OriginInternal e) c = close_connection (internal_code e) c"
| "close_if_needed (OriginQuic (InternalErrorIncoming _)) c = close_connection H3_INTERNAL_ERROR c"
| "close_if_needed _ c = c"

definition convert_and_store :: "error_origin \<Rightarrow> conn_inner \<Rightarrow> connection_error \<times> conn_inner" where
  "convert_and_store origin c =
     (let e = convert_to_connection_error origin in (e, c\<lparr>ci_handled_error := Some e\<rparr>))"

definition handle_connection_error :: "error_origin \<Rightarrow> conn_inner \<Rightarrow> connection_error \<times> conn_inner" where
  "handle_connection_error origin c =
     (case ci_handled_error c of
        Some e \<Rightarrow> (e, c)
      | None \<Rightarrow>
          (case set_conn_error origin (ci_shared c) of
             (err, sh) \<Rightarrow> convert_and_store err (close_if_needed err (c\<lparr>ci_shared := sh\<rparr>))))"

definition internal_error :: "h3_code \<Rightarrow> conn_inner \<Rightarrow> connection_error \<times> conn_inner" where
  "internal_error code c = handle_connection_error (OriginInternal (InternalConnectionError code)) c"

definition poll_connection_error :: "conn_inner \<Rightarrow> (connection_error, unit) result poll \<times> conn_inner" where
  "poll_connection_error c =
     (case ci_handled_error c of
        Some e \<Rightarrow> (Ready (Err e), c)
      | None \<Rightarrow>
          (case get_conn_error (ci_shared c) of
             Some err \<Rightarrow>
               (case convert_and_store err (close_if_needed err c) of (e, c1) \<Rightarrow> (Ready (Err e), c1))
           | None \<Rightarrow>
               (Pending, c\<lparr>ci_shared := (ci_shared c)\<lparr>ss_waker := ss_waker (ci_shared c) @ [Register]\<rparr>\<rparr>)))"

text \<open>\<open>let _ = self.poll_connection_error(cx)?;\<close> goes on unless there is an error.\<close>

definition unless_error :: "conn_inner \<Rightarrow> (conn_inner \<Rightarrow> (connection_error, 'a) result poll \<times> conn_inner) \<Rightarrow>
    (connection_error, 'a) result poll \<times> conn_inner" where
  "unless_error c f =
     (case poll_connection_error c of
        (Ready (Err e), c1) \<Rightarrow> (Ready (Err e), c1)
      | (_, c1) \<Rightarrow> f c1)"

text \<open>What a failed write on the control stream means for the connection.\<close>

fun control_send_error :: "stream_error_incoming \<Rightarrow> conn_inner \<Rightarrow> connection_error \<times> conn_inner" where
  "control_send_error (ConnectionErrorIncoming e) c = handle_connection_error (OriginQuic e) c"
| "control_send_error (StreamTerminated _) c = internal_error H3_CLOSED_CRITICAL_STREAM c"
| "control_send_error UnknownError c = internal_error H3_CLOSED_CRITICAL_STREAM c"

section \<open>Starting a connection\<close>

text \<open>
  The settings on the control stream; the headers of the QPACK streams are written at the same
  time, and what becomes of them is ignored, but all three writes are awaited.
\<close>

definition write_ignored :: "u64 \<Rightarrow> out_data \<Rightarrow> out_stream option \<Rightarrow>
    (stream_error_incoming, unit) result poll \<times> out_stream option" where
  "write_ignored r d st =
     (case st of
        None \<Rightarrow> (Ready (Ok ()), None)
      | Some st1 \<Rightarrow> (case write_out r d st1 of (res, st2) \<Rightarrow> (res, Some st2)))"

definition send_control_stream_headers :: "conn_inner \<Rightarrow> (connection_error, unit) result poll \<times> conn_inner" where
  "send_control_stream_headers c =
     (let r = snd (ci_random c) in
      case settings_try_from_config r (ci_config c) of
        Err _ \<Rightarrow> (case internal_error H3_INTERNAL_ERROR c of (e, c1) \<Rightarrow> (Ready (Err e), c1))
      | Panic \<Rightarrow> (Ready Panic, c)
      | Ok settings \<Rightarrow>
          (case (write_out r (OutUniHeader (Control settings)) (ci_control_send c),
                 write_ignored r (OutUniHeader Decoder) (ci_decoder_send c),
                 write_ignored r (OutUniHeader Encoder) (ci_encoder_send c)) of
             ((control, control_send), (dec, decoder_send), (enc, encoder_send)) \<Rightarrow>
               let c1 = c\<lparr>ci_control_send := control_send, ci_decoder_send := decoder_send,
                          ci_encoder_send := encoder_send\<rparr> in
               if control = Ready Panic \<or> dec = Ready Panic \<or> enc = Ready Panic then (Ready Panic, c1)
               else if dec = Pending \<or> enc = Pending then (Pending, c1)
               else poll_then (control, c1) (\<lambda>_ c2. (Ready (Ok ()), c2)) control_send_error))"

fun control_open_error :: "stream_error_incoming \<Rightarrow> quic_conn \<Rightarrow> connection_error \<times> quic_conn" where
  "control_open_error (ConnectionErrorIncoming e) q = handle_quic_error_raw e q"
| "control_open_error (StreamTerminated _) q =
     close_raw_connection_with_h3_error (InternalConnectionError H3_CLOSED_CRITICAL_STREAM) q"
| "control_open_error UnknownError q =
     close_raw_connection_with_h3_error (InternalConnectionError H3_CLOSED_CRITICAL_STREAM) q"

fun opened :: "(stream_error_incoming, out_stream) result \<Rightarrow> out_stream option" where
  "opened (Ok st) = Some st"
| "opened _ = None"

definition conn_inner_start :: "quic_conn \<Rightarrow> shared_state \<Rightarrow> config \<Rightarrow> u64 \<times> u64 \<Rightarrow> out_stream \<Rightarrow>
    out_stream option \<Rightarrow> out_stream option \<Rightarrow> conn_inner" where
  "conn_inner_start q sh cfg rnd control encoder decoder =
     \<lparr>ci_shared = sh, ci_conn = q, ci_control_send = control, ci_control_recv = None,
      ci_decoder_send = decoder, ci_decoder_recv = None, ci_encoder_send = encoder,
      ci_encoder_recv = None, ci_wt_uni = [], ci_pending_recv = [], ci_got_peer_settings = False,
      ci_handled_error = None, ci_send_grease_frame = send_grease cfg,
      ci_send_grease_stream = send_grease cfg, ci_grease_step = GreaseNotStarted,
      ci_config = cfg, ci_stopped = [], ci_random = rnd\<rparr>"

text \<open>Without a control stream there is no connection, only the error and the closed transport.\<close>

definition conn_inner_new :: "quic_conn \<Rightarrow> shared_state \<Rightarrow> config \<Rightarrow> u64 \<times> u64 \<Rightarrow>
    (connection_error, unit) result poll \<times> (quic_conn + conn_inner)" where
  "conn_inner_new q sh cfg rnd =
     (case qc_open_send q of
        (Pending, q1) \<Rightarrow> (Pending, Inl q1)
      | (Ready control, q1) \<Rightarrow>
     (case qc_open_send q1 of
        (Pending, q2) \<Rightarrow> (Pending, Inl q2)
      | (Ready encoder, q2) \<Rightarrow>
     (case qc_open_send q2 of
        (Pending, q3) \<Rightarrow> (Pending, Inl q3)
      | (Ready decoder, q3) \<Rightarrow>
          (case control of
             Ok st \<Rightarrow>
               (case send_control_stream_headers
                       (conn_inner_start q3 sh cfg rnd st (opened encoder) (opened decoder)) of
                  (r, c) \<Rightarrow> (r, Inr c))
           | Err e \<Rightarrow> (case control_open_error e q3 of (err, q4) \<Rightarrow> (Ready (Err err), Inl q4))
           | Panic \<Rightarrow> (Ready Panic, Inl q3)))))"

section \<open>Shutting down\<close>

definition conn_shutdown :: "u64 option \<Rightarrow> u64 \<Rightarrow> conn_inner \<Rightarrow>
    (connection_error, unit) result poll \<times> u64 option \<times> conn_inner" where
  "conn_shutdown sent_closing max_id c =
     (if (case sent_closing of Some sent_id \<Rightarrow> sent_id \<le> max_id | None \<Rightarrow> False)
      then (Ready (Ok ()), sent_closing, c)
      else
        let c1 = c\<lparr>ci_shared := set_closing (ci_shared c)\<rparr> in
        case write_out (snd (ci_random c)) (OutFrame (Goaway max_id)) (ci_control_send c1) of
          (r, st) \<Rightarrow>
            (case poll_then (r, c1\<lparr>ci_control_send := st\<rparr>) (\<lambda>_ c2. (Ready (Ok ()), c2)) control_send_error of
               (res, c3) \<Rightarrow> (res, Some max_id, c3)))"

definition process_goaway :: "u64 option \<Rightarrow> u64 \<Rightarrow> conn_inner \<Rightarrow>
    (connection_error, unit) result \<times> u64 option \<times> conn_inner" where
  "process_goaway recv_closing i c =
     (if (case recv_closing of Some prev_id \<Rightarrow> prev_id < i | None \<Rightarrow> False)
      then (case internal_error H3_ID_ERROR c of (e, c1) \<Rightarrow> (Err e, recv_closing, c1))
      else (Ok (), Some i, c\<lparr>ci_shared := set_closing (ci_shared c)\<rparr>))"

section \<open>Accepting streams\<close>

definition poll_accept_bi :: "conn_inner \<Rightarrow> (connection_error, bidi_stream) result poll \<times> conn_inner" where
  "poll_accept_bi c =
     unless_error c (\<lambda>c1.
       case qc_poll_accept_bidi (ci_conn c1) of
         (Pending, q) \<Rightarrow> (Pending, c1\<lparr>ci_conn := q\<rparr>)
       | (Ready (Ok b), q) \<Rightarrow> (Ready (Ok b), c1\<lparr>ci_conn := q\<rparr>)
       | (Ready (Err e), q) \<Rightarrow>
           (case handle_connection_error (OriginQuic e) (c1\<lparr>ci_conn := q\<rparr>) of (err, c2) \<Rightarrow> (Ready (Err err), c2))
       | (Ready Panic, q) \<Rightarrow> (Ready Panic, c1\<lparr>ci_conn := q\<rparr>))"

text \<open>Every stream the transport has is taken before any of them is looked at.\<close>

function collect_streams :: "conn_inner \<Rightarrow> (connection_error, unit) result \<times> conn_inner" where
  "collect_streams c =
     (case qc_poll_accept_recv (ci_conn c) of
        (Pending, q) \<Rightarrow> (Ok (), c\<lparr>ci_conn := q\<rparr>)
      | (Ready (Ok tr), q) \<Rightarrow>
          collect_streams
            (c\<lparr>ci_conn := q, ci_pending_recv := ci_pending_recv c @ [Some (accept_recv_stream_new tr)]\<rparr>)
      | (Ready (Err e), q) \<Rightarrow>
          (case handle_connection_error (OriginQuic e) (c\<lparr>ci_conn := q\<rparr>) of (err, c1) \<Rightarrow> (Err err, c1))
      | (Ready Panic, q) \<Rightarrow> (Panic, c\<lparr>ci_conn := q\<rparr>))"
  by pat_completeness auto

termination collect_streams
  by (relation "measure (\<lambda>c. length (qc_uni (ci_conn c)))")
    (auto dest: qc_poll_accept_recv_shorter [OF sym])

declare collect_streams.simps [simp del]

definition claim_stream :: "accepted_recv_stream \<Rightarrow> conn_inner \<Rightarrow> (connection_error, unit) result \<times> conn_inner" where
  "claim_stream a c =
     (let refuse = (\<lambda>c1. case internal_error H3_STREAM_CREATION_ERROR c1 of (e, c2) \<Rightarrow> (Err e, c2)) in
      case a of
        AcceptedControl s \<Rightarrow>
          if ci_control_recv c \<noteq> None then refuse c
          else (Ok (), c\<lparr>ci_control_recv := Some s\<rparr>)
      | AcceptedEncoder s \<Rightarrow>
          let c1 = c\<lparr>ci_encoder_recv := Some s\<rparr> in
          if ci_encoder_recv c \<noteq> None then refuse c1 else (Ok (), c1)
      | AcceptedDecoder s \<Rightarrow>
          let c1 = c\<lparr>ci_decoder_recv := Some s\<rparr> in
          if ci_decoder_recv c \<noteq> None then refuse c1 else (Ok (), c1)
      | AcceptedWebTransportUni i s \<Rightarrow>
          if enable_webtransport (config_settings (ci_config c))
          then (Ok (), c\<lparr>ci_wt_uni := ci_wt_uni c @ [(i, s)]\<rparr>)
          else (Ok (), c)
      | AcceptedUnknown s \<Rightarrow> (Ok (), c\<lparr>ci_stopped := ci_stopped c @ [H3_STREAM_CREATION_ERROR]\<rparr>)
      | AcceptedPush s \<Rightarrow> (Ok (), c))"

text \<open>One round of the loop: the stream is kept while its type is not known.\<close>

definition resolve_stream :: "accept_recv_stream \<Rightarrow> conn_inner \<Rightarrow>
    (connection_error, unit) result \<times> accept_recv_stream option \<times> conn_inner" where
  "resolve_stream s c =
     (case poll_type s of
        (Ready (Err (IncomingError e)), s1) \<Rightarrow>
          (case handle_connection_error (OriginQuic e) c of (err, c1) \<Rightarrow> (Err err, Some s1, c1))
      | (Ready (Err InternalPollError), s1) \<Rightarrow>
          (case internal_error H3_INTERNAL_ERROR c of (err, c1) \<Rightarrow> (Err err, Some s1, c1))
      | (Ready (Err EndOfStreamError), s1) \<Rightarrow> (Ok (), None, c)
      | (Ready (Ok _), s1) \<Rightarrow>
          (case into_stream s1 of
             Ok a \<Rightarrow> (case claim_stream a c of (r, c1) \<Rightarrow> (r, None, c1))
           | _ \<Rightarrow> (Panic, None, c))
      | (Ready Panic, s1) \<Rightarrow> (Panic, Some s1, c)
      | (Pending, s1) \<Rightarrow> (Ok (), Some s1, c))"

fun resolve_streams :: "accept_recv_stream option list \<Rightarrow> conn_inner \<Rightarrow>
    (connection_error, unit) result \<times> accept_recv_stream option list \<times> conn_inner" where
  "resolve_streams [] c = (Ok (), [], c)"
| "resolve_streams (None # ss) c =
     (case resolve_streams ss c of (r, ss1, c1) \<Rightarrow> (r, None # ss1, c1))"
| "resolve_streams (Some s # ss) c =
     (case resolve_stream s c of
        (Ok _, s1, c1) \<Rightarrow> (case resolve_streams ss c1 of (r, ss1, c2) \<Rightarrow> (r, s1 # ss1, c2))
      | (Err e, s1, c1) \<Rightarrow> (Err e, s1 # ss, c1)
      | (Panic, s1, c1) \<Rightarrow> (Panic, s1 # ss, c1))"

definition poll_accept_recv :: "conn_inner \<Rightarrow> (connection_error, unit) result \<times> conn_inner" where
  "poll_accept_recv c =
     (case poll_connection_error c of
        (Ready (Err e), c1) \<Rightarrow> (Err e, c1)
      | (_, c1) \<Rightarrow>
          st_then (collect_streams c1) (\<lambda>_ c2.
            case resolve_streams (ci_pending_recv c2) c2 of
              (Ok _, ss, c3) \<Rightarrow> (Ok (), c3\<lparr>ci_pending_recv := filter (\<lambda>s. s \<noteq> None) ss\<rparr>)
            | (Err e, ss, c3) \<Rightarrow> (Err e, c3\<lparr>ci_pending_recv := ss\<rparr>)
            | (Panic, ss, c3) \<Rightarrow> (Panic, c3\<lparr>ci_pending_recv := ss\<rparr>)))"


section \<open>The grease stream\<close>

text \<open>
  A stream of a reserved type with one reserved frame, opened, written and finished step by
  step; any failure gives it up. What is sent last comes first here: each step goes on with
  the one after it. The last flag says that the stream is not to be tried again.
\<close>

definition grease_over :: "conn_inner \<Rightarrow> (connection_error, unit) result poll \<times> conn_inner" where
  "grease_over c = (Ready (Ok ()), c\<lparr>ci_send_grease_stream := False\<rparr>)"

definition grease_finish :: "conn_inner \<Rightarrow> (connection_error, unit) result poll \<times> conn_inner" where
  "grease_finish c =
     (case ci_grease_step c of
        GreaseDataSent st \<Rightarrow>
          (case out_poll_finish st of
             (Pending, st1) \<Rightarrow> (Pending, c\<lparr>ci_grease_step := GreaseDataSent st1\<rparr>)
           | (Ready (Ok _), st1) \<Rightarrow> grease_over (c\<lparr>ci_grease_step := GreaseFinished\<rparr>)
           | (Ready _, st1) \<Rightarrow> grease_over (c\<lparr>ci_grease_step := GreaseDataSent st1\<rparr>))
      | _ \<Rightarrow> grease_over c)"

definition grease_ready :: "conn_inner \<Rightarrow> (connection_error, unit) result poll \<times> conn_inner" where
  "grease_ready c =
     (case ci_grease_step c of
        GreaseDataPrepared (Some st) \<Rightarrow>
          (case out_poll_ready st of
             (Pending, st1) \<Rightarrow> (Pending, c\<lparr>ci_grease_step := GreaseDataPrepared (Some st1)\<rparr>)
           | (Ready (Ok _), st1) \<Rightarrow> grease_finish (c\<lparr>ci_grease_step := GreaseDataSent st1\<rparr>)
           | (Ready _, st1) \<Rightarrow> grease_over (c\<lparr>ci_grease_step := GreaseDataPrepared (Some st1)\<rparr>))
      | GreaseDataPrepared None \<Rightarrow> grease_over c
      | _ \<Rightarrow> grease_finish c)"

definition grease_send :: "conn_inner \<Rightarrow> (connection_error, unit) result poll \<times> conn_inner" where
  "grease_send c =
     (case ci_grease_step c of
        GreaseStarted (Some st) \<Rightarrow>
          (case out_send_data (snd (ci_random c)) (OutTypedFrame (stream_type_grease (fst (ci_random c))) Grease) st of
             (Ok _, st1) \<Rightarrow> grease_ready (c\<lparr>ci_grease_step := GreaseDataPrepared (Some st1)\<rparr>)
           | (Err _, st1) \<Rightarrow> grease_over (c\<lparr>ci_grease_step := GreaseStarted (Some st1)\<rparr>)
           | (Panic, st1) \<Rightarrow> (Ready Panic, c\<lparr>ci_grease_step := GreaseStarted (Some st1)\<rparr>))
      | GreaseStarted None \<Rightarrow> grease_ready (c\<lparr>ci_grease_step := GreaseDataPrepared None\<rparr>)
      | _ \<Rightarrow> grease_ready c)"

definition poll_grease_stream :: "conn_inner \<Rightarrow> (connection_error, unit) result poll \<times> conn_inner" where
  "poll_grease_stream c =
     (case ci_grease_step c of
        GreaseNotStarted \<Rightarrow>
          (case qc_poll_open_send (ci_conn c) of
             (Pending, q) \<Rightarrow> (Pending, c\<lparr>ci_conn := q\<rparr>)
           | (Ready (Ok st), q) \<Rightarrow> grease_send (c\<lparr>ci_conn := q, ci_grease_step := GreaseStarted (Some st)\<rparr>)
           | (Ready _, q) \<Rightarrow> grease_over (c\<lparr>ci_conn := q\<rparr>))
      | _ \<Rightarrow> grease_send c)"

section \<open>The control stream\<close>

text \<open>A frame of the control stream, then an error of it or its end.\<close>

fun control_frame :: "recv_frame \<Rightarrow> conn_inner \<Rightarrow> (connection_error, recv_frame) result \<times> conn_inner" where
  "control_frame (Settings s) c =
     (if \<not> ci_got_peer_settings c
      then (Ok (Settings s),
            c\<lparr>ci_got_peer_settings := True,
              ci_shared := set_settings (config_settings_of_frame s) (ci_shared c)\<rparr>)
      else (case internal_error H3_FRAME_UNEXPECTED c of (e, c1) \<Rightarrow> (Err e, c1)))"
| "control_frame f c =
     (if \<not> ci_got_peer_settings c
      then (case internal_error H3_MISSING_SETTINGS c of (e, c1) \<Rightarrow> (Err e, c1))
      else
        (case f of
           Goaway _ \<Rightarrow> (Ok f, c)
         | CancelPush _ \<Rightarrow> (Ok f, c)
         | MaxPushId _ \<Rightarrow> (Ok f, c)
         | _ \<Rightarrow> (case internal_error H3_FRAME_UNEXPECTED c of (e, c1) \<Rightarrow> (Err e, c1))))"

fun control_error :: "frame_stream_error \<Rightarrow> conn_inner \<Rightarrow> connection_error \<times> conn_inner" where
  "control_error (Quic (ConnectionErrorIncoming e)) c = handle_connection_error (OriginQuic e) c"
| "control_error (Quic (StreamTerminated _)) c = internal_error H3_CLOSED_CRITICAL_STREAM c"
| "control_error (Quic UnknownError) c = internal_error H3_CLOSED_CRITICAL_STREAM c"
| "control_error StreamUnexpectedEnd c = internal_error H3_FRAME_ERROR c"
| "control_error (Proto e) c = handle_connection_error (OriginInternal (got_frame_error e)) c"

fun control_received :: "(frame_stream_error, recv_frame option) result \<Rightarrow> conn_inner \<Rightarrow>
    (connection_error, recv_frame) result \<times> conn_inner" where
  "control_received (Ok (Some f)) c = control_frame f c"
| "control_received (Ok None) c =
     (case internal_error H3_CLOSED_CRITICAL_STREAM c of (e, c1) \<Rightarrow> (Err e, c1))"
| "control_received (Err fe) c = (case control_error fe c of (e, c1) \<Rightarrow> (Err e, c1))"
| "control_received Panic c = (Panic, c)"

definition poll_control :: "conn_inner \<Rightarrow> (connection_error, recv_frame) result poll \<times> conn_inner" where
  "poll_control c =
     unless_error c (\<lambda>c1.
       case poll_accept_recv c1 of
         (Err e, c2) \<Rightarrow> (Ready (Err e), c2)
       | (Panic, c2) \<Rightarrow> (Ready Panic, c2)
       | (Ok _, c2) \<Rightarrow>
           (case ci_control_recv c2 of
              None \<Rightarrow> (Pending, c2)
            | Some s \<Rightarrow>
                (case poll_next s of
                   (Pending, s1) \<Rightarrow> (Pending, c2\<lparr>ci_control_recv := Some s1\<rparr>)
                 | (Ready r, s1) \<Rightarrow>
                     (case control_received r (c2\<lparr>ci_control_recv := Some s1\<rparr>) of
                        (Ok f, c3) \<Rightarrow>
                          if ci_send_grease_stream c3
                          then poll_then (poll_grease_stream c3) (\<lambda>_ c4. (Ready (Ok f), c4)) Pair
                          else (Ready (Ok f), c3)
                      | (Err e, c3) \<Rightarrow> (Ready (Err e), c3)
                      | (Panic, c3) \<Rightarrow> (Ready Panic, c3)))))"

end
