(* ===== verification/ConnectionInv.thy ===== *)
theory ConnectionInv
  imports Connection
begin

text \<open>
  What holds of a connection at all times: the first error is the one every later operation
  returns, and the transport is closed at most once, with the code of that error.
\<close>

section \<open>One error, one close\<close>

fun close_codes :: "error_origin \<Rightarrow> h3_code list" where
  "close_codes (OriginInternal e) = [internal_code e]"
| "close_codes (OriginQuic (InternalErrorIncoming _)) = [H3_INTERNAL_ERROR]"
| "close_codes (OriginQuic _) = []"

definition conn_ok :: "conn_inner \<Rightarrow> bool" where
  "conn_ok c \<longleftrightarrow>
     (case ci_handled_error c of
        None \<Rightarrow> qc_closed (ci_conn c) = []
      | Some e \<Rightarrow> \<exists>origin. ss_error (ci_shared c) = Some origin \<and> e = convert_to_connection_error origin
          \<and> qc_closed (ci_conn c) = close_codes origin)
     \<and> (ci_got_peer_settings c \<longrightarrow> ss_settings (ci_shared c) \<noteq> None)"

text \<open>What any operation may do to a connection.\<close>

definition conn_evolves :: "conn_inner \<Rightarrow> conn_inner \<Rightarrow> bool" where
  "conn_evolves c c' \<longleftrightarrow>
     shared_grows (ci_shared c) (ci_shared c')
     \<and> (conn_ok c \<longrightarrow> conn_ok c')
     \<and> (\<forall>e. ci_handled_error c = Some e \<longrightarrow> ci_handled_error c' = Some e \<and> qc_closed (ci_conn c') = qc_closed (ci_conn c))
     \<and> (ci_got_peer_settings c \<longrightarrow> ci_got_peer_settings c')
     \<and> (ci_control_recv c \<noteq> None \<longrightarrow> ci_control_recv c' \<noteq> None)"

lemma conn_evolves_refl [simp, intro]: "conn_evolves c c"
  by (simp add: conn_evolves_def)

lemma conn_evolves_trans [trans]: "conn_evolves a b \<Longrightarrow> conn_evolves b c \<Longrightarrow> conn_evolves a c"
  by (auto simp: conn_evolves_def intro: shared_grows_trans)

lemma conn_evolves_same:
  assumes "ci_shared c' = ci_shared c" and "qc_closed (ci_conn c') = qc_closed (ci_conn c)"
    and "ci_handled_error c' = ci_handled_error c" and "ci_got_peer_settings c' = ci_got_peer_settings c"
    and "ci_control_recv c \<noteq> None \<longrightarrow> ci_control_recv c' \<noteq> None"
  shows "conn_evolves c c'"
  using assms by (auto simp: conn_evolves_def conn_ok_def split: option.splits)

lemma conn_evolves_shared:
  assumes "shared_grows (ci_shared c) sh"
  shows "conn_evolves c (c\<lparr>ci_shared := sh\<rparr>)"
  using assms by (auto simp: conn_evolves_def conn_ok_def shared_grows_def split: option.splits)

lemma close_if_needed_simps [simp]:
  "ci_shared (close_if_needed o1 c) = ci_shared c"
  "ci_handled_error (close_if_needed o1 c) = ci_handled_error c"
  "ci_got_peer_settings (close_if_needed o1 c) = ci_got_peer_settings c"
  "ci_control_recv (close_if_needed o1 c) = ci_control_recv c"
  "qc_closed (ci_conn (close_if_needed o1 c)) = qc_closed (ci_conn c) @ close_codes o1"
  by (cases "(o1, c)" rule: close_if_needed.cases; simp add: close_connection_def qc_close_def)+

text \<open>Handling an error: whoever came first is reported, and from then on handled.\<close>

lemma handle_connection_error_spec:
  assumes "handle_connection_error o1 c = (e, c')"
  shows "conn_evolves c c'" and "ci_handled_error c' = Some e"
    and "conn_ok c \<Longrightarrow> ss_error (ci_shared c) = None \<Longrightarrow> ci_handled_error c = None \<Longrightarrow>
      e = convert_to_connection_error o1"
    and "ci_control_recv c' = ci_control_recv c" and "ci_got_peer_settings c' = ci_got_peer_settings c"
proof -
  have "conn_evolves c c' \<and> ci_handled_error c' = Some e \<and>
    (ss_error (ci_shared c) = None \<and> ci_handled_error c = None \<longrightarrow> e = convert_to_connection_error o1) \<and>
    ci_control_recv c' = ci_control_recv c \<and> ci_got_peer_settings c' = ci_got_peer_settings c"
  proof (cases "ci_handled_error c")
    case None
    obtain err sh where s: "set_conn_error o1 (ci_shared c) = (err, sh)"
      by (cases "set_conn_error o1 (ci_shared c)")
    note spec = set_conn_error_spec [OF s]
    have c': "e = convert_to_connection_error err"
      "c' = close_if_needed err (c\<lparr>ci_shared := sh\<rparr>)\<lparr>ci_handled_error := Some e\<rparr>"
      using assms None s by (auto simp: handle_connection_error_def convert_and_store_def Let_def)
    then show ?thesis
      using spec(1,2,3) None
      by (auto simp: conn_evolves_def conn_ok_def shared_grows_def)
  qed (use assms in \<open>auto simp: handle_connection_error_def\<close>)
  then show "conn_evolves c c'" and "ci_handled_error c' = Some e"
    and "conn_ok c \<Longrightarrow> ss_error (ci_shared c) = None \<Longrightarrow> ci_handled_error c = None \<Longrightarrow>
      e = convert_to_connection_error o1"
    and "ci_control_recv c' = ci_control_recv c" and "ci_got_peer_settings c' = ci_got_peer_settings c"
    by auto
qed

lemma internal_error_spec:
  assumes "internal_error co c = (e, c')"
  shows "conn_evolves c c'" and "ci_handled_error c' = Some e"
  using assms handle_connection_error_spec(1,2) unfolding internal_error_def by blast+

lemma poll_connection_error_spec:
  assumes "poll_connection_error c = (r, c')"
  shows "conn_evolves c c'" and "r = Pending \<or> (\<exists>e. r = Ready (Err e) \<and> ci_handled_error c' = Some e)"
    and "r = Pending \<Longrightarrow> ci_handled_error c' = None \<and> ss_error (ci_shared c') = None
      \<and> ci_control_recv c' = ci_control_recv c \<and> ci_got_peer_settings c' = ci_got_peer_settings c"
proof -
  have "conn_evolves c c' \<and> (r = Pending \<or> (\<exists>e. r = Ready (Err e) \<and> ci_handled_error c' = Some e))
    \<and> (r = Pending \<longrightarrow> ci_handled_error c' = None \<and> ss_error (ci_shared c') = None
      \<and> ci_control_recv c' = ci_control_recv c \<and> ci_got_peer_settings c' = ci_got_peer_settings c)"
    using assms
    by (auto simp: poll_connection_error_def get_conn_error_def convert_and_store_def Let_def conn_evolves_def
        conn_ok_def shared_grows_def split: option.splits)
  then show "conn_evolves c c'" and "r = Pending \<or> (\<exists>e. r = Ready (Err e) \<and> ci_handled_error c' = Some e)"
    and "r = Pending \<Longrightarrow> ci_handled_error c' = None \<and> ss_error (ci_shared c') = None
      \<and> ci_control_recv c' = ci_control_recv c \<and> ci_got_peer_settings c' = ci_got_peer_settings c"
    by auto
qed

text \<open>An operation that evolves the connection and whose error is the handled one.\<close>

definition op_ok :: "conn_inner \<Rightarrow> (connection_error, 'a) result poll \<times> conn_inner \<Rightarrow> bool" where
  "op_ok c out \<longleftrightarrow>
     conn_evolves c (snd out) \<and> (\<forall>e. fst out = Ready (Err e) \<longrightarrow> ci_handled_error (snd out) = Some e)"

lemma op_okI:
  "conn_evolves c c' \<Longrightarrow> (\<And>e. r = Ready (Err e) \<Longrightarrow> ci_handled_error c' = Some e) \<Longrightarrow> op_ok c (r, c')"
  by (simp add: op_ok_def)

lemma op_ok_then: "conn_evolves c c1 \<Longrightarrow> op_ok c1 out \<Longrightarrow> op_ok c out"
  by (auto simp: op_ok_def intro: conn_evolves_trans)

lemma op_ok_handle: "op_ok c (case handle_connection_error o1 c of (e, c1) \<Rightarrow> (Ready (Err e), c1))"
  using handle_connection_error_spec(1,2) by (auto simp: op_ok_def split: prod.splits)

lemma op_ok_internal: "op_ok c (case internal_error co c of (e, c1) \<Rightarrow> (Ready (Err e), c1))"
  using internal_error_spec by (auto simp: op_ok_def split: prod.splits)

lemma unless_error_ok:
  assumes "\<And>c1. conn_evolves c c1 \<Longrightarrow> ci_handled_error c1 = None \<Longrightarrow> op_ok c1 (f c1)"
  shows "op_ok c (unless_error c f)"
proof -
  obtain r c1 where p: "poll_connection_error c = (r, c1)" by (cases "poll_connection_error c")
  note spec = poll_connection_error_spec [OF p]
  show ?thesis
    using spec assms [OF spec(1)] p
    by (auto simp: unless_error_def intro: op_ok_then op_okI)
qed


section \<open>Every operation of the driver\<close>

lemma qc_polls_closed [simp]:
  "qc_poll_accept_recv q = (r1, q1) \<Longrightarrow> qc_closed q1 = qc_closed q"
  "qc_poll_accept_bidi q = (r2, q2) \<Longrightarrow> qc_closed q2 = qc_closed q"
  "qc_poll_open_send q = (r3, q3) \<Longrightarrow> qc_closed q3 = qc_closed q"
  by (auto simp: qc_poll_accept_recv_def qc_poll_accept_bidi_def qc_poll_open_send_def split: prod.splits)

lemma op_ok_conn:
  assumes "qc_closed q = qc_closed (ci_conn c)" and "op_ok (c\<lparr>ci_conn := q\<rparr>) out"
  shows "op_ok c out"
  by (rule op_ok_then [OF conn_evolves_same assms(2)]) (simp_all add: assms(1))

lemma poll_accept_bi_ok: "op_ok c (poll_accept_bi c)"
  unfolding poll_accept_bi_def
proof (rule unless_error_ok)
  fix c1
  show "op_ok c1 (case qc_poll_accept_bidi (ci_conn c1) of
         (Pending, q) \<Rightarrow> (Pending, c1\<lparr>ci_conn := q\<rparr>)
       | (Ready (Ok b), q) \<Rightarrow> (Ready (Ok b), c1\<lparr>ci_conn := q\<rparr>)
       | (Ready (Err e), q) \<Rightarrow>
           (case handle_connection_error (OriginQuic e) (c1\<lparr>ci_conn := q\<rparr>) of (err, c2) \<Rightarrow> (Ready (Err err), c2))
       | (Ready Panic, q) \<Rightarrow> (Ready Panic, c1\<lparr>ci_conn := q\<rparr>))"
  proof (cases "qc_poll_accept_bidi (ci_conn c1)")
    case (Pair r q)
    note closed = qc_polls_closed(2) [OF Pair]
    have same: "conn_evolves c1 (c1\<lparr>ci_conn := q\<rparr>)"
      by (rule conn_evolves_same) (simp_all add: closed)
    show ?thesis
    proof (cases r)
      case (Ready x)
      then show ?thesis
        using Pair same by (cases x) (auto intro: op_okI op_ok_conn [OF closed] op_ok_handle)
    qed (use Pair same in \<open>auto intro: op_okI\<close>)
  qed
qed

lemma collect_streams_ok:
  "collect_streams c = (r, c') \<Longrightarrow>
   conn_evolves c c' \<and> (\<forall>e. r = Err e \<longrightarrow> ci_handled_error c' = Some e) \<and> ci_control_recv c' = ci_control_recv c
   \<and> ci_got_peer_settings c' = ci_got_peer_settings c"
proof (induction c arbitrary: r c' rule: collect_streams.induct)
  case (1 c)
  obtain a q where q: "qc_poll_accept_recv (ci_conn c) = (a, q)" by (cases "qc_poll_accept_recv (ci_conn c)")
  note closed = qc_polls_closed(1) [OF q]
  show ?case
  proof (cases a)
    case Pending
    then show ?thesis
      using "1.prems" q closed by (subst (asm) collect_streams.simps) (auto intro: conn_evolves_same)
  next
    case (Ready x)
    show ?thesis
    proof (cases x)
      case (Ok tr)
      define c1 where "c1 = c\<lparr>ci_conn := q, ci_pending_recv := ci_pending_recv c @ [Some (accept_recv_stream_new tr)]\<rparr>"
      have eq: "collect_streams c1 = (r, c')"
        using "1.prems" q Ready Ok by (subst (asm) collect_streams.simps) (simp add: c1_def)
      have step: "conn_evolves c c1" by (rule conn_evolves_same) (simp_all add: c1_def closed)
      from "1.IH" [OF q [symmetric] Ready Ok, folded c1_def, OF eq]
      show ?thesis using step by (auto simp: c1_def intro: conn_evolves_trans)
    next
      case (Err e)
      have step: "conn_evolves c (c\<lparr>ci_conn := q\<rparr>)" by (rule conn_evolves_same) (simp_all add: closed)
      obtain err c1 where h: "handle_connection_error (OriginQuic e) (c\<lparr>ci_conn := q\<rparr>) = (err, c1)"
        by (cases "handle_connection_error (OriginQuic e) (c\<lparr>ci_conn := q\<rparr>)")
      note spec = handle_connection_error_spec [OF h]
      have eq: "r = Err err" "c' = c1"
        using "1.prems" q Ready Err h by (simp_all add: collect_streams.simps [of c])
      show ?thesis
        using spec step eq by (auto intro: conn_evolves_trans)
    next
      case Panic
      then show ?thesis
        using "1.prems" q closed Ready
        by (subst (asm) collect_streams.simps) (auto intro: conn_evolves_same)
    qed
  qed
qed

lemma internal_error_fields:
  "internal_error co c = (e, c') \<Longrightarrow> ci_control_recv c' = ci_control_recv c \<and> ci_got_peer_settings c' = ci_got_peer_settings c"
  unfolding internal_error_def by (auto dest: handle_connection_error_spec(4,5))

lemma claim_stream_ok:
  assumes "claim_stream a c = (r, c')"
  shows "conn_evolves c c' \<and> (\<forall>e. r = Err e \<longrightarrow> ci_handled_error c' = Some e)"
proof -
  have refuse: "conn_evolves c c2 \<and> ci_handled_error c2 = Some e"
    if "internal_error H3_STREAM_CREATION_ERROR c1 = (e, c2)" and "conn_evolves c c1" for c1 c2 e
    using internal_error_spec [OF that(1)] that(2) by (auto intro: conn_evolves_trans)
  show ?thesis
    using assms
    by (cases a) (auto simp: claim_stream_def Let_def intro!: conn_evolves_same
        dest!: refuse split: if_splits prod.splits)
qed

lemma resolve_stream_ok:
  assumes "resolve_stream s c = (r, s', c')"
  shows "conn_evolves c c' \<and> (\<forall>e. r = Err e \<longrightarrow> ci_handled_error c' = Some e)"
proof -
  obtain p s1 where p: "poll_type s = (p, s1)" by (cases "poll_type s")
  show ?thesis
  proof (cases p)
    case (Ready x)
    show ?thesis
    proof (cases x)
      case (Ok u)
      then show ?thesis
        using assms p Ready claim_stream_ok
        by (cases "into_stream s1") (auto simp: resolve_stream_def split: prod.splits)
    next
      case (Err e)
      then show ?thesis
        using assms p Ready handle_connection_error_spec(1,2) internal_error_spec
        by (cases e) (auto simp: resolve_stream_def split: prod.splits)
    qed (use assms p Ready in \<open>auto simp: resolve_stream_def\<close>)
  qed (use assms p in \<open>auto simp: resolve_stream_def\<close>)
qed

lemma resolve_streams_ok:
  "resolve_streams ss c = (r, ss', c') \<Longrightarrow>
   conn_evolves c c' \<and> (\<forall>e. r = Err e \<longrightarrow> ci_handled_error c' = Some e)"
proof (induction ss c arbitrary: r ss' c' rule: resolve_streams.induct)
  case (3 s ss c)
  obtain r1 s1 c1 where s: "resolve_stream s c = (r1, s1, c1)" by (cases "resolve_stream s c") auto
  note ok = resolve_stream_ok [OF s]
  show ?case
  proof (cases r1)
    case (Ok u)
    obtain r2 ss2 c2 where rest: "resolve_streams ss c1 = (r2, ss2, c2)" by (cases "resolve_streams ss c1") auto
    have "conn_evolves c1 c2 \<and> (\<forall>e. r2 = Err e \<longrightarrow> ci_handled_error c2 = Some e)"
      using "3.IH" s Ok rest by auto
    then show ?thesis
      using "3.prems" s Ok rest ok by (auto intro: conn_evolves_trans)
  qed (use "3.prems" s ok in auto)
qed (auto split: prod.splits)

lemma poll_accept_recv_ok:
  assumes "poll_accept_recv c = (r, c')"
  shows "conn_evolves c c' \<and> (\<forall>e. r = Err e \<longrightarrow> ci_handled_error c' = Some e)"
proof -
  obtain p c1 where p: "poll_connection_error c = (p, c1)" by (cases "poll_connection_error c")
  note spec = poll_connection_error_spec [OF p]
  show ?thesis
  proof (cases p)
    case Pending
    obtain r2 c2 where col: "collect_streams c1 = (r2, c2)" by (cases "collect_streams c1")
    note cok = collect_streams_ok [OF col]
    show ?thesis
    proof (cases r2)
      case (Ok u)
      obtain r3 ss c3 where res: "resolve_streams (ci_pending_recv c2) c2 = (r3, ss, c3)"
        by (cases "resolve_streams (ci_pending_recv c2) c2") auto
      have pend: "conn_evolves c3 (c3\<lparr>ci_pending_recv := x\<rparr>)" for x by (rule conn_evolves_same) simp_all
      show ?thesis
        using assms p Pending col Ok res resolve_streams_ok [OF res] cok spec(1) pend
        by (cases r3) (auto simp: poll_accept_recv_def, (blast intro: conn_evolves_trans)+)
    qed (use assms p Pending col cok spec(1) in \<open>auto simp: poll_accept_recv_def intro: conn_evolves_trans\<close>)
  next
    case (Ready x)
    then obtain e where e: "x = Err e" "ci_handled_error c1 = Some e" using spec(2) by auto
    then show ?thesis using assms p Ready spec(1) by (auto simp: poll_accept_recv_def)
  qed
qed


text \<open>The grease stream reports no error, and none of it concerns the rest of the connection.\<close>

definition grease_only :: "conn_inner \<Rightarrow> (connection_error, unit) result poll \<times> conn_inner \<Rightarrow> bool" where
  "grease_only c out \<longleftrightarrow>
     (\<forall>e. fst out \<noteq> Ready (Err e)) \<and> conn_evolves c (snd out)
     \<and> ci_control_recv (snd out) = ci_control_recv c
     \<and> ci_got_peer_settings (snd out) = ci_got_peer_settings c
     \<and> ci_shared (snd out) = ci_shared c
     \<and> (fst out = Ready (Ok ()) \<longrightarrow> \<not> ci_send_grease_stream (snd out))"

lemma grease_only_over: "grease_only c (grease_over c)"
  by (auto simp: grease_over_def grease_only_def intro: conn_evolves_same)

lemma grease_only_step [simp]: "grease_only (c\<lparr>ci_grease_step := g\<rparr>) out = grease_only c out"
proof -
  have "conn_evolves (c\<lparr>ci_grease_step := g\<rparr>) x = conn_evolves c x" for x
    using conn_evolves_same [of "c\<lparr>ci_grease_step := g\<rparr>" c] conn_evolves_same [of c "c\<lparr>ci_grease_step := g\<rparr>"]
    by (auto intro: conn_evolves_trans)
  then show ?thesis by (simp add: grease_only_def)
qed

lemma grease_only_conn:
  "qc_closed q = qc_closed (ci_conn c) \<Longrightarrow> grease_only (c\<lparr>ci_conn := q\<rparr>) out \<Longrightarrow> grease_only c out"
  using conn_evolves_same [of "c\<lparr>ci_conn := q\<rparr>" c]
  by (auto simp: grease_only_def intro: conn_evolves_trans)

lemma grease_only_wait [simp]:
  "grease_only c (Pending, c\<lparr>ci_grease_step := g\<rparr>)" "grease_only c (Ready Panic, c\<lparr>ci_grease_step := g\<rparr>)"
  by (auto simp: grease_only_def intro: conn_evolves_same)

lemmas grease_over_step = grease_only_over [of "c\<lparr>ci_grease_step := g\<rparr>" for c g, simplified]

lemma grease_finish_only: "grease_only c (grease_finish c)"
  unfolding grease_finish_def
  by (auto intro: grease_only_over grease_over_step split: grease_status.splits prod.splits poll.splits result.splits)

lemmas grease_finish_step = grease_finish_only [of "c\<lparr>ci_grease_step := g\<rparr>" for c g, simplified]

lemma grease_ready_only: "grease_only c (grease_ready c)"
  unfolding grease_ready_def
  by (auto intro: grease_only_over grease_over_step grease_finish_only grease_finish_step
      split: grease_status.splits option.splits prod.splits poll.splits result.splits)

lemmas grease_ready_step = grease_ready_only [of "c\<lparr>ci_grease_step := g\<rparr>" for c g, simplified]

lemma grease_send_only: "grease_only c (grease_send c)"
  unfolding grease_send_def
  by (auto intro: grease_over_step grease_ready_only grease_ready_step
      split: grease_status.splits option.splits prod.splits result.splits)

lemma poll_grease_stream_only: "grease_only c (poll_grease_stream c)"
proof (cases "ci_grease_step c = GreaseNotStarted")
  case True
  obtain r q where q: "qc_poll_open_send (ci_conn c) = (r, q)" by (cases "qc_poll_open_send (ci_conn c)")
  note closed = qc_polls_closed(3) [OF q]
  have wait: "grease_only c (Pending, c\<lparr>ci_conn := q\<rparr>)"
    by (auto simp: grease_only_def closed intro: conn_evolves_same)
  have sent: "grease_only c (grease_send (c\<lparr>ci_conn := q, ci_grease_step := g\<rparr>))" for g
    by (rule grease_only_conn [OF closed]) (metis grease_only_step grease_send_only)
  have over: "grease_only c (grease_over (c\<lparr>ci_conn := q\<rparr>))"
    by (rule grease_only_conn [OF closed grease_only_over])
  show ?thesis
    using True q wait sent over
    by (auto simp: poll_grease_stream_def split: poll.splits result.splits)
next
  case False
  then show ?thesis
    using grease_send_only [of c] by (cases "ci_grease_step c") (simp_all add: poll_grease_stream_def)
qed

lemma control_frame_ok:
  assumes "control_frame f c = (r, c')"
  shows "conn_evolves c c' \<and> (\<forall>e. r = Err e \<longrightarrow> ci_handled_error c' = Some e)"
proof -
  have learn: "conn_evolves c (c\<lparr>ci_got_peer_settings := True, ci_shared := set_settings cs (ci_shared c)\<rparr>)" for cs
    by (auto simp: conn_evolves_def conn_ok_def set_settings_def shared_grows_def split: option.splits)
  show ?thesis
    using assms internal_error_spec learn
    by (cases f) (auto split: if_splits prod.splits)
qed

lemma control_received_ok:
  assumes "control_received a c = (r, c')"
  shows "conn_evolves c c' \<and> (\<forall>e. r = Err e \<longrightarrow> ci_handled_error c' = Some e)"
proof -
  have err: "conn_evolves c c2 \<and> ci_handled_error c2 = Some e" if "control_error fe c = (e, c2)" for fe e c2
    using that internal_error_spec handle_connection_error_spec(1,2)
    by (cases "(fe, c)" rule: control_error.cases) auto
  show ?thesis
    using assms control_frame_ok internal_error_spec err
    by (cases "(a, c)" rule: control_received.cases) (auto split: prod.splits)
qed


lemma poll_control_ok: "op_ok c (poll_control c)"
  unfolding poll_control_def
proof (rule unless_error_ok)
  fix c1
  let ?go = "\<lambda>c2. case ci_control_recv c2 of
              None \<Rightarrow> (Pending, c2)
            | Some s \<Rightarrow>
                (case poll_next s of
                   (Pending, s1) \<Rightarrow> (Pending, c2\<lparr>ci_control_recv := Some s1\<rparr>)
                 | (Ready r, s1) \<Rightarrow>
                     (case control_received r (c2\<lparr>ci_control_recv := Some s1\<rparr>) of
                        (Ok f, c3) \<Rightarrow>
                          if ci_send_grease_stream c3
                          then poll_then (poll_grease_stream c3) (\<lambda>_ c4. (Ready (Ok f), c4)) Pair
                          else (Ready (Ok f), c3)
                      | (Err e, c3) \<Rightarrow> (Ready (Err e), c3)
                      | (Panic, c3) \<Rightarrow> (Ready Panic, c3)))"
  obtain r c2 where a: "poll_accept_recv c1 = (r, c2)" by (cases "poll_accept_recv c1")
  note aok = poll_accept_recv_ok [OF a]
  have greased: "op_ok c3 (poll_then (poll_grease_stream c3) (\<lambda>_ c4. (Ready (Ok f), c4)) Pair)"
    for c3 and f :: recv_frame
    using poll_grease_stream_only [of c3]
    by (cases "poll_grease_stream c3") (auto simp: poll_then_split grease_only_def op_ok_def)
  have "op_ok c2 (?go c2)"
  proof (cases "ci_control_recv c2")
    case (Some s)
    obtain p s1 where p: "poll_next s = (p, s1)" by (cases "poll_next s")
    define c3 where "c3 = c2\<lparr>ci_control_recv := Some s1\<rparr>"
    have c3: "conn_evolves c2 c3" unfolding c3_def by (rule conn_evolves_same) simp_all
    show ?thesis
    proof (cases p)
      case (Ready x)
      obtain r4 c4 where f: "control_received x c3 = (r4, c4)" by (cases "control_received x c3")
      note fok = control_received_ok [OF f]
      have c4: "conn_evolves c2 c4" using c3 fok by (blast intro: conn_evolves_trans)
      show ?thesis
        using Some p Ready f fok c4 greased
        by (cases r4) (auto simp flip: c3_def intro: op_okI op_ok_then)
    qed (use Some p c3 in \<open>auto simp: c3_def intro: op_okI\<close>)
  qed (auto intro: op_okI)
  then show "op_ok c1 (case poll_accept_recv c1 of
         (Err e, c2) \<Rightarrow> (Ready (Err e), c2)
       | (Panic, c2) \<Rightarrow> (Ready Panic, c2)
       | (Ok _, c2) \<Rightarrow> ?go c2)"
    using a aok by (cases r) (auto intro: op_okI op_ok_then)
qed

lemma control_send_error_ok:
  "control_send_error e c = (err, c') \<Longrightarrow> conn_evolves c c' \<and> ci_handled_error c' = Some err"
  using internal_error_spec handle_connection_error_spec(1,2)
  by (cases "(e, c)" rule: control_send_error.cases) auto

lemma poll_then_send_ok:
  "conn_evolves c0 c \<Longrightarrow> op_ok c0 (poll_then (r, c) (\<lambda>_ c2. (Ready (Ok ()), c2)) control_send_error)"
  using control_send_error_ok
  by (auto simp: poll_then_split op_ok_def intro: conn_evolves_trans)

lemma conn_shutdown_ok:
  assumes "conn_shutdown sent m c = (r, sent', c')"
  shows "conn_evolves c c' \<and> (\<forall>e. r = Ready (Err e) \<longrightarrow> ci_handled_error c' = Some e)"
proof (cases "case sent of Some sent_id \<Rightarrow> sent_id \<le> m | None \<Rightarrow> False")
  case False
  define c1 where "c1 = c\<lparr>ci_shared := set_closing (ci_shared c)\<rparr>"
  obtain x st where w: "write_out (snd (ci_random c)) (OutFrame (Goaway m)) (ci_control_send c1) = (x, st)"
    by (cases "write_out (snd (ci_random c)) (OutFrame (Goaway m)) (ci_control_send c1)")
  have "conn_evolves c (c1\<lparr>ci_control_send := st\<rparr>)"
    unfolding c1_def by (rule conn_evolves_trans [OF conn_evolves_shared conn_evolves_same]) simp_all
  note ok = poll_then_send_ok [OF this, of x]
  have "poll_then (x, c1\<lparr>ci_control_send := st\<rparr>) (\<lambda>_ c2. (Ready (Ok ()), c2)) control_send_error = (r, c')"
    using assms False w by (simp add: conn_shutdown_def Let_def split: prod.splits flip: c1_def)
  then show ?thesis using ok by (simp add: op_ok_def)
qed (use assms in \<open>auto simp: conn_shutdown_def\<close>)

lemma process_goaway_ok:
  assumes "process_goaway recv i c = (r, recv', c')"
  shows "conn_evolves c c' \<and> (\<forall>e. r = Err e \<longrightarrow> ci_handled_error c' = Some e)"
  using assms internal_error_spec conn_evolves_shared [of c "set_closing (ci_shared c)"]
  by (auto simp: process_goaway_def split: if_splits prod.splits option.splits)


lemma send_control_stream_headers_ok: "op_ok c (send_control_stream_headers c)"
proof (cases "settings_try_from_config (snd (ci_random c)) (ci_config c)")
  case (Ok s)
  obtain control cs dec ds enc es
    where w: "write_out (snd (ci_random c)) (OutUniHeader (Control s)) (ci_control_send c) = (control, cs)"
      "write_ignored (snd (ci_random c)) (OutUniHeader Decoder) (ci_decoder_send c) = (dec, ds)"
      "write_ignored (snd (ci_random c)) (OutUniHeader Encoder) (ci_encoder_send c) = (enc, es)"
    by (metis surj_pair)
  define c1 where "c1 = c\<lparr>ci_control_send := cs, ci_decoder_send := ds, ci_encoder_send := es\<rparr>"
  have c1: "conn_evolves c c1" unfolding c1_def by (rule conn_evolves_same) simp_all
  show ?thesis
    using poll_then_send_ok [OF c1, of control] c1
    by (simp add: send_control_stream_headers_def Ok w Let_def op_ok_def flip: c1_def)
next
  case (Err e)
  then show ?thesis
    using op_ok_internal [of c H3_INTERNAL_ERROR] by (simp add: send_control_stream_headers_def Let_def)
qed (simp add: send_control_stream_headers_def Let_def op_ok_def)

section \<open>A connection over its life\<close>

text \<open>
  What can happen to a connection: the operations of the driver in any order, and streams,
  which only reach the shared state (theory RequestStream).
\<close>

inductive conn_step :: "conn_inner \<Rightarrow> conn_inner \<Rightarrow> bool" where
  step_headers: "conn_step c (snd (send_control_stream_headers c))"
| step_control: "conn_step c (snd (poll_control c))"
| step_accept: "conn_step c (snd (poll_accept_bi c))"
| step_shutdown: "conn_shutdown sent m c = (r, sent', c') \<Longrightarrow> conn_step c c'"
| step_goaway: "process_goaway recv i c = (r, recv', c') \<Longrightarrow> conn_step c c'"
| step_error: "conn_step c (snd (handle_connection_error origin c))"
| step_stream: "shared_grows (ci_shared c) sh \<Longrightarrow> conn_step c (c\<lparr>ci_shared := sh\<rparr>)"

inductive conn_reachable :: "conn_inner \<Rightarrow> bool" where
  reach_start: "qc_closed q = [] \<Longrightarrow>
    conn_reachable (conn_inner_start q shared_state_default cfg rnd control encoder decoder)"
| reach_step: "conn_reachable c \<Longrightarrow> conn_step c c' \<Longrightarrow> conn_reachable c'"

lemma conn_step_evolves: "conn_step c c' \<Longrightarrow> conn_evolves c c'"
proof (induction rule: conn_step.induct)
  case (step_headers c)
  then show ?case using send_control_stream_headers_ok [of c] by (simp add: op_ok_def)
next
  case (step_control c)
  then show ?case using poll_control_ok [of c] by (simp add: op_ok_def)
next
  case (step_accept c)
  then show ?case using poll_accept_bi_ok [of c] by (simp add: op_ok_def)
next
  case (step_shutdown sent m c r sent' c')
  then show ?case using conn_shutdown_ok by blast
next
  case (step_goaway recv i c r recv' c')
  then show ?case using process_goaway_ok by blast
next
  case (step_error c origin)
  then show ?case by (cases "handle_connection_error origin c") (auto dest: handle_connection_error_spec(1))
next
  case (step_stream c sh)
  then show ?case by (rule conn_evolves_shared)
qed

lemma conn_steps_evolve: "conn_step\<^sup>*\<^sup>* c c' \<Longrightarrow> conn_evolves c c'"
  by (induction rule: rtranclp_induct) (auto dest: conn_step_evolves intro: conn_evolves_trans)

lemma reachable_ok: "conn_reachable c \<Longrightarrow> conn_ok c"
proof (induction rule: conn_reachable.induct)
  case (reach_step c c')
  then show ?case using conn_step_evolves by (auto simp: conn_evolves_def)
qed (simp add: conn_ok_def conn_inner_start_def shared_state_default_def)


text \<open>The connection of the witnesses: no streams yet, a stream of it has failed.\<close>

definition idle_conn :: "uni_event list \<Rightarrow> bidi_event list \<Rightarrow> quic_conn" where
  "idle_conn unis bidis = \<lparr>qc_uni = unis, qc_bidi = bidis, qc_open = [], qc_closed = []\<rparr>"

definition idle_out :: out_stream where
  "idle_out = \<lparr>os_refused = None, os_ready = [], os_finish = [], os_sent = [], os_reset = []\<rparr>"

definition idle_start :: "uni_event list \<Rightarrow> bidi_event list \<Rightarrow> conn_inner" where
  "idle_start unis bidis =
     conn_inner_start (idle_conn unis bidis) shared_state_default config_default (0, 0) idle_out None None"

lemma idle_reachable: "conn_reachable (idle_start unis bidis)"
  unfolding idle_start_def by (rule reach_start) (simp add: idle_conn_def)

lemma idle_error_reachable: "conn_reachable (snd (internal_error co (idle_start unis bidis)))"
  unfolding internal_error_def by (rule reach_step [OF idle_reachable step_error])

lemma idle_error:
  "ci_handled_error (snd (internal_error co (idle_start unis bidis))) = Some (ConnLocal (LocalApplication co))
   \<and> ss_error (ci_shared (snd (internal_error co (idle_start unis bidis))))
      = Some (OriginInternal (InternalConnectionError co))"
  by (simp add: internal_error_def handle_connection_error_def set_conn_error_def idle_start_def
      conn_inner_start_def shared_state_default_def convert_and_store_def Let_def close_connection_def)


text \<open>
  C11: the first error is final. After it has been handled, every poll of the connection, at
  any later time, returns that same error, without a further close and without asking the
  transport for a stream.
\<close>

theorem first_error_is_final:
  assumes "ci_handled_error c = Some e" and "conn_step\<^sup>*\<^sup>* c c'"
  shows "poll_control c' = (Ready (Err e), c') \<and> poll_accept_bi c' = (Ready (Err e), c')
    \<and> poll_accept_recv c' = (Err e, c') \<and> handle_connection_error origin c' = (e, c')
    \<and> qc_closed (ci_conn c') = qc_closed (ci_conn c)"
proof -
  have h: "ci_handled_error c' = Some e" and q: "qc_closed (ci_conn c') = qc_closed (ci_conn c)"
    using conn_steps_evolve [OF assms(2)] assms(1) by (auto simp: conn_evolves_def)
  have "poll_connection_error c' = (Ready (Err e), c')"
    by (simp add: poll_connection_error_def h)
  then show ?thesis
    by (simp add: poll_control_def poll_accept_bi_def poll_accept_recv_def unless_error_def
        handle_connection_error_def h q)
qed

theorem first_error_is_final_witness:
  "fst (poll_control (snd (internal_error H3_ID_ERROR (idle_start [] []))))
     = Ready (Err (ConnLocal (LocalApplication H3_ID_ERROR)))"
proof -
  let ?c = "snd (internal_error H3_ID_ERROR (idle_start [] []))"
  have "ci_handled_error ?c = Some (ConnLocal (LocalApplication H3_ID_ERROR))"
    by (simp add: idle_error)
  then show ?thesis using first_error_is_final [OF _ rtranclp.rtrancl_refl] by simp
qed

text \<open>
  C12: an error a stream records reaches the driver: the next poll of a reachable connection
  that has not handled an error returns it, converted, and closes the transport with its code.
\<close>

theorem stream_error_reaches_driver:
  assumes "conn_reachable c" and "ci_handled_error c = None" and "ss_error (ci_shared c) = Some origin"
  shows "\<exists>c'. poll_control c = (Ready (Err (convert_to_connection_error origin)), c')
    \<and> poll_accept_bi c = (Ready (Err (convert_to_connection_error origin)), c')
    \<and> qc_closed (ci_conn c') = close_codes origin
    \<and> ci_handled_error c' = Some (convert_to_connection_error origin)"
proof -
  have closed: "qc_closed (ci_conn c) = []"
    using reachable_ok [OF assms(1)] assms(2) by (simp add: conn_ok_def)
  have "poll_connection_error c
    = (Ready (Err (convert_to_connection_error origin)),
       close_if_needed origin c\<lparr>ci_handled_error := Some (convert_to_connection_error origin)\<rparr>)"
    using assms(2,3) by (simp add: poll_connection_error_def get_conn_error_def convert_and_store_def Let_def)
  then show ?thesis
    by (simp add: poll_control_def poll_accept_bi_def unless_error_def closed)
qed

theorem stream_error_reaches_driver_witness:
  "fst (poll_control ((idle_start [] [])\<lparr>ci_shared := snd (handle_connection_error_on_stream
       (InternalConnectionError QPACK_DECOMPRESSION_FAILED) (ci_shared (idle_start [] [])))\<rparr>))
     = Ready (Err (ConnLocal (LocalApplication QPACK_DECOMPRESSION_FAILED)))"
proof -
  let ?e = "OriginInternal (InternalConnectionError QPACK_DECOMPRESSION_FAILED)"
  let ?sh = "snd (handle_connection_error_on_stream (InternalConnectionError QPACK_DECOMPRESSION_FAILED)
    (ci_shared (idle_start [] [])))"
  let ?c = "(idle_start [] [])\<lparr>ci_shared := ?sh\<rparr>"
  have "shared_grows (ci_shared (idle_start [] [])) ?sh"
    using handle_connection_error_on_stream_spec(1) by (metis surjective_pairing)
  then have "conn_reachable ?c" by (rule reach_step [OF idle_reachable step_stream])
  moreover have "ci_handled_error ?c = None" by (simp add: idle_start_def conn_inner_start_def)
  moreover have "ss_error (ci_shared ?c) = Some ?e"
    by (simp add: idle_start_def conn_inner_start_def shared_state_default_def
        handle_connection_error_on_stream_def set_conn_error_and_wake_def set_conn_error_def)
  ultimately show ?thesis
    using stream_error_reaches_driver [of ?c ?e] by auto
qed

end
