(* ===== verification/ControlStream.thy ===== *)
theory ControlStream
  imports ConnectionInv
begin

text \<open>
  The control stream of a connection: what \<open>poll_control\<close> makes of the bytes it carries, and
  GOAWAY in both directions.
\<close>

section \<open>The contract of the control stream\<close>

text \<open>
  RFC 9114, sections 6.2.1 and 7.2: SETTINGS first and only once, then GOAWAY, CANCEL_PUSH and
  MAX_PUSH_ID only; the stream must neither end nor be cut inside a frame.
\<close>

fun control_code :: "bool \<Rightarrow> recv_frame \<Rightarrow> h3_code option" where
  "control_code got (Settings _) = (if got then Some H3_FRAME_UNEXPECTED else None)"
| "control_code got (Goaway _) = (if got then None else Some H3_MISSING_SETTINGS)"
| "control_code got (CancelPush _) = (if got then None else Some H3_MISSING_SETTINGS)"
| "control_code got (MaxPushId _) = (if got then None else Some H3_MISSING_SETTINGS)"
| "control_code got _ = Some (if got then H3_FRAME_UNEXPECTED else H3_MISSING_SETTINGS)"

fun control_spec :: "bool \<Rightarrow> parsed \<Rightarrow> (h3_code, recv_frame) result" where
  "control_spec got (Parsed f rest) = (case control_code got f of None \<Rightarrow> Ok f | Some co \<Rightarrow> Err co)"
| "control_spec got (Bad e) = Err (internal_code (got_frame_error e))"
| "control_spec got (Partial rest) = Err (if rest = [] then H3_CLOSED_CRITICAL_STREAM else H3_FRAME_ERROR)"
| "control_spec got Stuck = Panic"

text \<open>A connection with its control stream and nothing else to accept.\<close>

definition quiet :: "conn_inner \<Rightarrow> frame_stream \<Rightarrow> bool" where
  "quiet c s \<longleftrightarrow> ci_handled_error c = None \<and> ss_error (ci_shared c) = None \<and> qc_uni (ci_conn c) = []
     \<and> ci_pending_recv c = [] \<and> ci_control_recv c = Some s \<and> frame_stream_inv s \<and> remaining_data s = 0"

definition registered :: "conn_inner \<Rightarrow> conn_inner" where
  "registered c = c\<lparr>ci_shared := (ci_shared c)\<lparr>ss_waker := ss_waker (ci_shared c) @ [Register, Register]\<rparr>\<rparr>"

lemma registered_simps [simp]:
  "ci_handled_error (registered c) = ci_handled_error c"
  "ss_error (ci_shared (registered c)) = ss_error (ci_shared c)"
  "ss_closing (ci_shared (registered c)) = ss_closing (ci_shared c)"
  "ci_got_peer_settings (registered c) = ci_got_peer_settings c"
  "ci_send_grease_stream (registered c) = ci_send_grease_stream c"
  "ci_grease_step (registered c) = ci_grease_step c"
  "ci_control_recv (registered c) = ci_control_recv c"
  "ci_conn (registered c) = ci_conn c"
  by (simp_all add: registered_def)

lemma poll_control_quiet:
  assumes "quiet c s"
  shows "poll_control c =
    (case poll_next s of
       (Pending, s1) \<Rightarrow> (Pending, (registered c)\<lparr>ci_control_recv := Some s1\<rparr>)
     | (Ready r, s1) \<Rightarrow>
         (case control_received r ((registered c)\<lparr>ci_control_recv := Some s1\<rparr>) of
            (Ok f, c3) \<Rightarrow>
              if ci_send_grease_stream c3
              then poll_then (poll_grease_stream c3) (\<lambda>_ c4. (Ready (Ok f), c4)) Pair
              else (Ready (Ok f), c3)
          | (Err e, c3) \<Rightarrow> (Ready (Err e), c3)
          | (Panic, c3) \<Rightarrow> (Ready Panic, c3)))"
proof -
  have q: "qc_poll_accept_recv (ci_conn c) = (Pending, ci_conn c)" "ci_pending_recv c = []"
    "ci_handled_error c = None" "ss_error (ci_shared c) = None" "ci_control_recv c = Some s"
    using assms by (simp_all add: quiet_def qc_poll_accept_recv_def)
  have "poll_accept_recv (c\<lparr>ci_shared := (ci_shared c)\<lparr>ss_waker := ss_waker (ci_shared c) @ [Register]\<rparr>\<rparr>)
    = (Ok (), registered c)"
    by (cases c) (use q in \<open>simp add: poll_accept_recv_def poll_connection_error_def get_conn_error_def
        collect_streams.simps registered_def\<close>)
  then show ?thesis
    by (simp add: poll_control_def unless_error_def poll_connection_error_def q get_conn_error_def)
qed

lemma internal_error_fresh:
  assumes "ci_handled_error c = None" and "ss_error (ci_shared c) = None" and "internal_error co c = (e, c')"
  shows "e = ConnLocal (LocalApplication co)"
  using assms by (auto simp: internal_error_def handle_connection_error_def set_conn_error_def
      convert_and_store_def Let_def)

lemma control_frame_code:
  assumes "ci_handled_error c = None" and "ss_error (ci_shared c) = None" and "control_frame f c = (r, c')"
  shows "r = (case control_code (ci_got_peer_settings c) f of
      None \<Rightarrow> Ok f | Some co \<Rightarrow> Err (ConnLocal (LocalApplication co)))"
  using assms internal_error_fresh [OF assms(1,2)]
  by (cases f) (auto split: if_splits prod.splits)



text \<open>The connection of the witnesses: \<open>evs\<close> is what the transport delivers on the control stream.\<close>

definition control_conn :: "bool \<Rightarrow> bool \<Rightarrow> recv_event list \<Rightarrow> conn_inner" where
  "control_conn got grease evs = (idle_start [] [])
     \<lparr>ci_control_recv := Some (frame_stream_new (recv_stream_new evs)),
      ci_got_peer_settings := got, ci_send_grease_stream := grease\<rparr>"

lemma control_conn_quiet:
  "PollData [] \<notin> set evs \<Longrightarrow> quiet (control_conn got grease evs) (frame_stream_new (recv_stream_new evs))"
  by (simp add: quiet_def control_conn_def idle_start_def conn_inner_start_def shared_state_default_def
      idle_conn_def frame_stream_inv_new)
    (simp add: frame_stream_new_def)


section \<open>A control frame that is lost\<close>

text \<open>
  C28: while the grease stream cannot be opened, control frames are read and dropped. A GOAWAY
  that is complete leaves the control stream, but \<open>poll_control\<close> answers that it is pending, and
  the frame is gone: it is not returned by a later poll either.
\<close>

theorem pending_grease_loses_goaway:
  assumes "quiet c s" and "ci_got_peer_settings c" and "poll_next s = (Ready (Ok (Some (Goaway i))), s')"
    and "ci_send_grease_stream c" and "ci_grease_step c = GreaseNotStarted" and "qc_open (ci_conn c) = []"
  shows "\<exists>c'. poll_control c = (Pending, c') \<and> ci_control_recv c' = Some s'
    \<and> next_frame (fs_bytes s) = Parsed (Goaway i) (fs_bytes s')
    \<and> ci_send_grease_stream c' \<and> ci_grease_step c' = GreaseNotStarted \<and> qc_open (ci_conn c') = []
    \<and> ss_closing (ci_shared c') = ss_closing (ci_shared c)"
proof -
  have "poll_next_post s (poll_next s)"
    using poll_next_loop_spec assms(1) by (simp add: poll_next_def quiet_def)
  then have "next_frame (fs_bytes s) = Parsed (Goaway i) (fs_bytes s')"
    by (simp add: assms(3) poll_next_post_def)
  then show ?thesis
    using assms(2-) by (simp add: poll_control_quiet [OF assms(1)] poll_grease_stream_def qc_poll_open_send_def)
qed

theorem pending_grease_loses_goaway_witness:
  "fst (poll_control (control_conn True True [PollData [7, 1, 4]])) = Pending"
proof -
  let ?s = "frame_stream_new (recv_stream_new [PollData [7, 1, 4]])"
  have q: "quiet (control_conn True True [PollData [7, 1, 4]]) ?s" by (rule control_conn_quiet) simp
  have "fst (poll_next ?s) = Ready (Ok (Some (Goaway 4)))" by code_simp
  then obtain s' where "poll_next ?s = (Ready (Ok (Some (Goaway 4))), s')"
    by (metis prod.collapse)
  from pending_grease_loses_goaway [OF q _ this] show ?thesis
    by (auto simp: control_conn_def idle_start_def conn_inner_start_def idle_conn_def)
qed

section \<open>GOAWAY\<close>

text \<open>\<open>shutdown\<close> called with one identifier after the other.\<close>

fun shutdowns :: "u64 list \<Rightarrow> u64 option \<Rightarrow> conn_inner \<Rightarrow> u64 option \<times> conn_inner" where
  "shutdowns [] sent c = (sent, c)"
| "shutdowns (m # ms) sent c = (case conn_shutdown sent m c of (_, sent1, c1) \<Rightarrow> shutdowns ms sent1 c1)"

lemma handle_connection_error_send:
  "handle_connection_error o1 c = (e, c') \<Longrightarrow> ci_control_send c' = ci_control_send c \<and> ci_random c' = ci_random c"
  by (cases "(fst (set_conn_error o1 (ci_shared c)), c)" rule: close_if_needed.cases)
    (auto simp: handle_connection_error_def convert_and_store_def Let_def close_connection_def
      split: option.splits prod.splits)

lemma control_send_error_send:
  "control_send_error e c = (err, c') \<Longrightarrow> ci_control_send c' = ci_control_send c \<and> ci_random c' = ci_random c"
  by (cases "(e, c)" rule: control_send_error.cases) (auto simp: internal_error_def dest: handle_connection_error_send)

definition goaway_buf :: "conn_inner \<Rightarrow> write_buf \<Rightarrow> u64 \<Rightarrow> bool" where
  "goaway_buf c wb i \<longleftrightarrow> into_write_buf (snd (ci_random c)) (OutFrame (Goaway i)) = Ok wb"

lemma conn_shutdown_sends:
  assumes "conn_shutdown sent m c = (r, sent', c')"
  shows "ci_random c' = ci_random c
    \<and> (if \<exists>x. sent = Some x \<and> x \<le> m then sent' = sent \<and> c' = c
       else sent' = Some m \<and> (\<exists>wbs. os_sent (ci_control_send c') = os_sent (ci_control_send c) @ wbs
              \<and> (wbs = [] \<or> (\<exists>wb. wbs = [wb] \<and> goaway_buf c wb m))))"
proof (cases "\<exists>x. sent = Some x \<and> x \<le> m")
  case False
  define c1 where "c1 = c\<lparr>ci_shared := set_closing (ci_shared c)\<rparr>"
  obtain x st where w: "write_out (snd (ci_random c)) (OutFrame (Goaway m)) (ci_control_send c1) = (x, st)"
    by (cases "write_out (snd (ci_random c)) (OutFrame (Goaway m)) (ci_control_send c1)")
  have no: "\<not> (case sent of Some sent_id \<Rightarrow> sent_id \<le> m | None \<Rightarrow> False)"
    using False by (auto split: option.splits)
  have eq: "poll_then (x, c1\<lparr>ci_control_send := st\<rparr>) (\<lambda>_ c2. (Ready (Ok ()), c2)) control_send_error = (r, c')"
    "sent' = Some m"
    using assms no w by (auto simp: conn_shutdown_def Let_def split: prod.splits simp flip: c1_def)
  have "ci_control_send c' = st \<and> ci_random c' = ci_random c"
    using eq(1) control_send_error_send [of _ "c1\<lparr>ci_control_send := st\<rparr>"]
    by (cases x rule: poll_result_cases) (auto simp: c1_def split: prod.splits)
  then show ?thesis
    using False eq(2) write_out_sent [OF w] by (auto simp: c1_def goaway_buf_def)
qed (use assms in \<open>auto simp: conn_shutdown_def\<close>)


lemma shutdowns_send:
  "shutdowns ms sent c = (sent', c') \<Longrightarrow>
   \<exists>ids wbs. os_sent (ci_control_send c') = os_sent (ci_control_send c) @ wbs
     \<and> list_all2 (goaway_buf c) wbs ids \<and> sorted_wrt (>) ids \<and> set ids \<subseteq> set ms
     \<and> (\<forall>x. sent = Some x \<longrightarrow> (\<forall>i\<in>set ids. i < x))"
proof (induction ms arbitrary: sent c)
  case (Cons m ms)
  obtain r sent1 c1 where s: "conn_shutdown sent m c = (r, sent1, c1)"
    by (cases "conn_shutdown sent m c") auto
  note one = conn_shutdown_sends [OF s]
  have buf: "goaway_buf c1 = goaway_buf c" using one by (simp add: goaway_buf_def fun_eq_iff)
  have "shutdowns ms sent1 c1 = (sent', c')" using Cons.prems s by simp
  from Cons.IH [OF this] obtain ids wbs
    where ih: "os_sent (ci_control_send c') = os_sent (ci_control_send c1) @ wbs"
      "list_all2 (goaway_buf c) wbs ids" "sorted_wrt (>) ids" "set ids \<subseteq> set ms"
      "\<forall>x. sent1 = Some x \<longrightarrow> (\<forall>i\<in>set ids. i < x)"
    unfolding buf by blast
  show ?case
  proof (cases "\<exists>x. sent = Some x \<and> x \<le> m")
    case True
    then show ?thesis using one ih by (intro exI [of _ ids] exI [of _ wbs]) auto
  next
    case False
    have two: "sent1 = Some m \<and> (\<exists>ws. os_sent (ci_control_send c1) = os_sent (ci_control_send c) @ ws
      \<and> (ws = [] \<or> (\<exists>wb. ws = [wb] \<and> goaway_buf c wb m)))"
      using one by (simp only: False if_False)
    then obtain ws where ws: "sent1 = Some m" "os_sent (ci_control_send c1) = os_sent (ci_control_send c) @ ws"
      "ws = [] \<or> (\<exists>wb. ws = [wb] \<and> goaway_buf c wb m)"
      by blast
    have less: "\<forall>x. sent = Some x \<longrightarrow> m < x" using False by (auto simp: not_le)
    from ws(3) show ?thesis
    proof
      assume "ws = []"
      then show ?thesis
        using ih ws less by (intro exI [of _ ids] exI [of _ wbs]) (auto intro: less_trans)
    next
      assume "\<exists>wb. ws = [wb] \<and> goaway_buf c wb m"
      then obtain wb where "ws = [wb]" "goaway_buf c wb m" by blast
      then show ?thesis
        using ih ws less by (intro exI [of _ "m # ids"] exI [of _ "wb # wbs"]) (auto intro: less_trans)
    qed
  qed
qed auto

text \<open>
  C25: whatever identifiers \<open>shutdown\<close> is called with, the GOAWAY frames that leave on the
  control stream have strictly decreasing identifiers, each of them one it was called with; a
  call that would not lower the identifier sends nothing.
\<close>

theorem goaway_sent_decreasing:
  assumes "shutdowns ms None c = (sent', c')"
  shows "\<exists>ids wbs. os_sent (ci_control_send c') = os_sent (ci_control_send c) @ wbs
    \<and> list_all2 (goaway_buf c) wbs ids \<and> sorted_wrt (>) ids \<and> set ids \<subseteq> set ms"
  using shutdowns_send [OF assms] by auto

theorem goaway_sent_decreasing_witness:
  "\<exists>ids. list_all2 (goaway_buf (control_conn True True []))
      (os_sent (ci_control_send (snd (shutdowns [8, 8, 12, 4]
        None ((control_conn True True [])\<lparr>ci_control_send := idle_out\<lparr>os_ready := replicate 4 SendOk\<rparr>\<rparr>))))) ids
    \<and> sorted_wrt (>) ids"
proof -
  let ?c = "(control_conn True True [])\<lparr>ci_control_send := idle_out\<lparr>os_ready := replicate 4 SendOk\<rparr>\<rparr>"
  obtain sent' c' where s: "shutdowns [8, 8, 12, 4] None ?c = (sent', c')"
    by (cases "shutdowns [8, 8, 12, 4] None ?c")
  have "goaway_buf ?c = goaway_buf (control_conn True True [])" by (simp add: goaway_buf_def fun_eq_iff)
  moreover have "os_sent (ci_control_send ?c) = []" by (simp add: idle_out_def)
  ultimately show ?thesis using goaway_sent_decreasing [OF s] s by auto
qed

text \<open>The received identifiers, one after the other, until one is refused.\<close>

fun goaways :: "u64 list \<Rightarrow> u64 option \<Rightarrow> conn_inner \<Rightarrow> (connection_error, unit) result \<times> u64 option \<times> conn_inner" where
  "goaways [] recv c = (Ok (), recv, c)"
| "goaways (i # is) recv c =
     (case process_goaway recv i c of
        (Ok _, recv1, c1) \<Rightarrow> goaways is recv1 c1
      | other \<Rightarrow> other)"

lemma goaways_verdict:
  "ci_handled_error c = None \<Longrightarrow> ss_error (ci_shared c) = None \<Longrightarrow>
   fst (goaways is recv c) =
     (if sorted_wrt (\<ge>) ((case recv of None \<Rightarrow> [] | Some x \<Rightarrow> [x]) @ is) then Ok ()
      else Err (ConnLocal (LocalApplication H3_ID_ERROR)))"
proof (induction "is" arbitrary: recv c)
  case Nil
  then show ?case by (simp split: option.splits)
next
  case (Cons i "is")
  note fresh = Cons.prems
  show ?case
  proof (cases "\<exists>x. recv = Some x \<and> x < i")
    case True
    then show ?thesis
      using internal_error_fresh [OF fresh]
      by (auto simp: process_goaway_def split: prod.splits)
  next
    case False
    then have "process_goaway recv i c = (Ok (), Some i, c\<lparr>ci_shared := set_closing (ci_shared c)\<rparr>)"
      by (auto simp: process_goaway_def split: option.splits)
    moreover have "fst (goaways is (Some i) (c\<lparr>ci_shared := set_closing (ci_shared c)\<rparr>))
      = (if sorted_wrt (\<ge>) (i # is) then Ok () else Err (ConnLocal (LocalApplication H3_ID_ERROR)))"
      using Cons.IH [of "c\<lparr>ci_shared := set_closing (ci_shared c)\<rparr>" "Some i"] fresh by (simp add: set_closing_def)
    ultimately show ?thesis
      using False by (cases recv) (auto simp: not_less intro: order_trans)
  qed
qed

text \<open>
  C24: a sequence of GOAWAY identifiers is accepted exactly when none is greater than one
  before it, and otherwise ends the connection with H3_ID_ERROR.
\<close>

theorem goaway_received_sorted:
  assumes "ci_handled_error c = None" and "ss_error (ci_shared c) = None"
  shows "fst (goaways is None c) =
    (if sorted_wrt (\<ge>) is then Ok () else Err (ConnLocal (LocalApplication H3_ID_ERROR)))"
  using goaways_verdict [OF assms, of "is" None] by simp

theorem goaway_received_sorted_witness:
  "fst (goaways [8, 8, 4, 12] None (idle_start [] [])) = Err (ConnLocal (LocalApplication H3_ID_ERROR))"
proof -
  have "ci_handled_error (idle_start [] []) = None" "ss_error (ci_shared (idle_start [] [])) = None"
    by (simp_all add: idle_start_def conn_inner_start_def shared_state_default_def)
  from goaway_received_sorted [OF this, of "[8, 8, 4, 12]"] show ?thesis by simp
qed

end
