(* ===== verification/ControlProgress.thy ===== *)
theory ControlProgress
  imports ControlStream
begin

text \<open>
  Reading the control stream comes to an end: every frame takes bytes, and the bytes of the
  streams of a connection are never more than the transport has delivered or will deliver.
  The loops of the client and the server around \<open>poll_control\<close> stop because of it.
\<close>

section \<open>Bytes that are left\<close>

definition available :: "recv_event list \<Rightarrow> nat" where
  "available evs = sum_list (map (\<lambda>ev. case ev of PollData d \<Rightarrow> length d | _ \<Rightarrow> 0) evs)"

definition recv_load :: "recv_stream \<Rightarrow> nat" where
  "recv_load st = buf_remaining (rs_buf st) + available (rs_transport st)"

lemma available_Cons: "available (ev # evs) = (case ev of PollData d \<Rightarrow> length d | _ \<Rightarrow> 0) + available evs"
  by (simp add: available_def)

lemma poll_read_load: "poll_read st = (p, st') \<Longrightarrow> recv_load st' \<le> recv_load st"
  by (cases "rs_transport st"; cases "hd (rs_transport st)")
    (auto simp: poll_read_def Let_def recv_load_def available_Cons push_bytes_def buf_remaining_eq assert_then_def
      split: if_splits)

lemma decoder_decode_load:
  "decoder_decode expected src = (r, expected', src') \<Longrightarrow>
   buf_remaining src' \<le> buf_remaining src \<and> (\<forall>f. r = Ok (Some f) \<longrightarrow> buf_remaining src' < buf_remaining src)"
proof (induction expected src rule: decoder_decode.induct)
  case (1 expected src)
  show ?case
  proof (cases "buf_remaining src = 0 \<or> (case expected of Some needed \<Rightarrow> buf_remaining src < needed | None \<Rightarrow> False)")
    case True
    then show ?thesis
      using "1.prems" by (auto simp: decoder_decode.simps [of expected src] split: if_splits)
  next
    case False
    show ?thesis
    proof (cases "buf_contents src" rule: frame_decode_cases)
      case (frame f rest)
      have "length rest < length (buf_contents src)"
        using frame_decode_Ok_suffix [OF frame(1)] by auto
      then show ?thesis
        using "1.prems" False frame(1)
        by (cases "buf_advance src (buf_remaining src - length rest)")
          (auto simp: decoder_decode.simps [of expected src] buf_remaining_eq dest!: buf_advance_remaining)
    next
      case (unknown ty rest)
      show ?thesis
      proof (cases "buf_advance src (buf_remaining src - length rest)")
        case (Ok src1)
        have "decoder_decode None src1 = (r, expected', src')"
          using "1.prems" False unknown(1) Ok by (simp add: decoder_decode.simps [of expected src])
        moreover note decoder_progress [OF unknown(1) Ok]
        ultimately show ?thesis
          using "1.IH" False unknown(1) Ok by fastforce
      qed (use "1.prems" False unknown(1) in \<open>auto simp: decoder_decode.simps [of expected src]\<close>)
    next
      case (incomplete n rest)
      then show ?thesis using "1.prems" False by (auto simp: decoder_decode.simps [of expected src])
    next
      case (bad e pe rest)
      then show ?thesis
        using "1.prems" False by (cases e) (auto simp: decoder_decode.simps [of expected src])
    qed
  qed
qed

abbreviation fs_load :: "frame_stream \<Rightarrow> nat" where
  "fs_load s \<equiv> recv_load (fs_stream s)"

lemma decoded_load:
  "decoded s = (r, s1) \<Longrightarrow> fs_load s1 \<le> fs_load s \<and> (\<forall>f. r = Ok (Some f) \<longrightarrow> fs_load s1 < fs_load s)"
  using decoder_decode_load [of "fs_expected s" "rs_buf (fs_stream s)"]
  by (fastforce simp: decoded_def recv_load_def split: prod.splits)

lemma try_recv_load: "try_recv s = (p, s') \<Longrightarrow> fs_load s' \<le> fs_load s"
  by (auto simp: try_recv_def dest: poll_read_load split: if_splits prod.splits poll.splits)

lemma poll_next_loop_load:
  "poll_next_loop s = (p, s') \<Longrightarrow> fs_load s' \<le> fs_load s \<and> (\<forall>f. p = Ready (Ok (Some f)) \<longrightarrow> fs_load s' < fs_load s)"
proof (induction s arbitrary: p s' rule: measure_induct_rule [where f = "\<lambda>s. length (rs_transport (fs_stream s))"])
  case (less s)
  obtain r s1 where d: "decoded s = (r, s1)" by (cases "decoded s")
  note dl = decoded_load [OF d]
  obtain q s2 where t: "try_recv s1 = (q, s2)" by (cases "try_recv s1")
  note tl = try_recv_load [OF t]
  have s1: "rs_transport (fs_stream s1) = rs_transport (fs_stream s)"
    using d by (auto simp: decoded_def split: prod.splits)
  have again: "fs_load s' \<le> fs_load s2 \<and> (\<forall>f. p = Ready (Ok (Some f)) \<longrightarrow> fs_load s' < fs_load s2)"
    if "q = Ready (Ok False)" and "poll_next_loop s2 = (p, s')"
    using less.IH [OF _ that(2)] try_recv_false_shorter [of s1 s2] t that(1) s1 by simp
  have fin: "fs_load (case f of Data n \<Rightarrow> s1\<lparr>remaining_data := n\<rparr>
      | WebTransportStream i \<Rightarrow> s1\<lparr>remaining_data := usize_max\<rparr> | _ \<Rightarrow> s1) = fs_load s1" for f
    by (cases f) auto
  show ?case
  proof (cases r)
    case (Ok fo)
    show ?thesis
    proof (cases fo)
      case (Some f)
      then show ?thesis
        using less.prems d Ok dl fin [of f] by (auto simp: poll_next_loop_decoded [of s])
    next
      case None
      show ?thesis
      proof (cases q rule: poll_result_cases)
        case (ok b)
        then show ?thesis
          using less.prems d Ok None t dl tl again
          by (cases b) (fastforce simp: poll_next_loop_decoded [of s] split: if_splits)+
      qed (use less.prems d Ok None t dl tl in \<open>auto simp: poll_next_loop_decoded [of s]\<close>)
    qed
  qed (use less.prems d dl in \<open>auto simp: poll_next_loop_decoded [of s]\<close>)
qed

lemma poll_next_load:
  "poll_next s = (p, s') \<Longrightarrow> fs_load s' \<le> fs_load s \<and> (\<forall>f. p = Ready (Ok (Some f)) \<longrightarrow> fs_load s' < fs_load s)"
  using poll_next_loop_load [of s p s'] by (auto simp: poll_next_def split: if_splits)

lemma poll_varint_load:
  "poll_next_varint_loop stopped s = (p, s') \<Longrightarrow> recv_load (ar_stream s') \<le> recv_load (ar_stream s)"
proof (induction s arbitrary: stopped p s' rule: measure_induct_rule [where f = "\<lambda>s. length (rs_transport (ar_stream s))"])
  case (less s)
  obtain q st where q: "poll_read (ar_stream s) = (q, st)" by (cases "poll_read (ar_stream s)")
  note ql = poll_read_load [OF q]
  show ?case
  proof (cases "stopped = None \<and> (\<exists>answer stopped1. q = Ready answer \<and> stopped_by answer = Ok stopped1)")
    case True
    then obtain answer stopped1 where a: "stopped = None" "q = Ready answer" "stopped_by answer = Ok stopped1" by blast
    define s1 where "s1 = expect_varint (s\<lparr>ar_stream := st\<rparr>)"
    have s1: "ar_stream s1 = st" by (simp add: s1_def)
    have again: "recv_load (ar_stream s') \<le> recv_load st" if "poll_next_varint_loop stopped1 s1 = (p, s')"
      using less.IH [OF _ that] poll_read_shorter [of "ar_stream s" answer st] q a(2) s1 by simp
    have step: "poll_next_varint_loop stopped s =
      (case ar_expected s1 of
         None \<Rightarrow> poll_next_varint_loop stopped1 s1
       | Some expected \<Rightarrow>
           if buf_remaining (rs_buf (ar_stream s1)) < expected then poll_next_varint_loop stopped1 s1
           else
             (case varint_decode (buf_contents (rs_buf (ar_stream s1))) of
                Ok (v, rest) \<Rightarrow>
                  (case buf_advance (rs_buf (ar_stream s1)) (buf_remaining (rs_buf (ar_stream s1)) - length rest) of
                     Ok src1 \<Rightarrow> (Ready (Ok (v, stopped1)), s1\<lparr>ar_stream := (ar_stream s1)\<lparr>rs_buf := src1\<rparr>\<rparr>)
                   | _ \<Rightarrow> (Ready Panic, s1))
              | Err _ \<Rightarrow> (Ready (Err InternalPollError), s1)
              | Panic \<Rightarrow> (Ready Panic, s1)))"
      unfolding s1_def using a q by (subst poll_next_varint_loop.simps) (simp add: Let_def)
    have adv: "recv_load (st\<lparr>rs_buf := src1\<rparr>) \<le> recv_load (ar_stream s)"
      if "buf_advance (rs_buf st) k = Ok src1" for k src1
      using buf_advance_remaining [OF that] ql by (simp add: recv_load_def)
    show ?thesis
      using less.prems again ql s1 adv unfolding step
      by (auto split: option.splits if_splits result.splits prod.splits intro: order_trans)
  next
    case False
    then show ?thesis
      using less.prems q ql
      by (subst (asm) poll_next_varint_loop.simps) (auto split: if_splits poll.splits result.splits)
  qed
qed

lemma poll_id_load: "poll_id s = (p, s') \<Longrightarrow> recv_load (ar_stream s') \<le> recv_load (ar_stream s)"
  by (cases "poll_next_varint s")
    (auto simp: poll_id_def poll_next_varint_def split: if_splits poll.splits result.splits dest: poll_varint_load)

lemma poll_type_load: "poll_type s = (p, s') \<Longrightarrow> recv_load (ar_stream s') \<le> recv_load (ar_stream s)"
proof (cases "ar_ty s = None")
  case True
  assume a: "poll_type s = (p, s')"
  obtain q s1 where v: "poll_next_varint s = (q, s1)" by (cases "poll_next_varint s")
  have l: "recv_load (ar_stream s1) \<le> recv_load (ar_stream s)"
    using v by (auto simp: poll_next_varint_def dest: poll_varint_load)
  show ?thesis
    using a True v l poll_id_load [of "s1\<lparr>ar_ty := Some (StreamType x)\<rparr>" for x]
    by (cases q rule: poll_result_cases) (auto simp: poll_type_def intro: order_trans)
qed (auto simp: poll_type_def dest: poll_id_load)

section \<open>The connection\<close>

definition uni_load :: "uni_event list \<Rightarrow> nat" where
  "uni_load es = sum_list (map (\<lambda>e. case e of UniStream tr \<Rightarrow> available tr | _ \<Rightarrow> 0) es)"

fun opt_load :: "accept_recv_stream option \<Rightarrow> nat" where
  "opt_load (Some s) = recv_load (ar_stream s)"
| "opt_load None = 0"

definition pending_load :: "accept_recv_stream option list \<Rightarrow> nat" where
  "pending_load ss = sum_list (map opt_load ss)"

definition control_load :: "conn_inner \<Rightarrow> nat" where
  "control_load c = uni_load (qc_uni (ci_conn c)) + (case ci_control_recv c of Some s \<Rightarrow> fs_load s | None \<Rightarrow> 0)"

definition conn_load :: "conn_inner \<Rightarrow> nat" where
  "conn_load c = pending_load (ci_pending_recv c) + control_load c"

text \<open>Handling errors, and the grease stream, read nothing.\<close>

definition same_streams :: "conn_inner \<Rightarrow> conn_inner \<Rightarrow> bool" where
  "same_streams c c' \<longleftrightarrow> qc_uni (ci_conn c') = qc_uni (ci_conn c) \<and> ci_control_recv c' = ci_control_recv c
     \<and> ci_pending_recv c' = ci_pending_recv c \<and> qc_bidi (ci_conn c') = qc_bidi (ci_conn c)"

lemma same_streams_load: "same_streams c c' \<Longrightarrow> conn_load c' = conn_load c \<and> control_load c' = control_load c
    \<and> ci_pending_recv c' = ci_pending_recv c"
  by (simp add: same_streams_def conn_load_def control_load_def)

lemma same_streams_trans: "same_streams a b \<Longrightarrow> same_streams b c \<Longrightarrow> same_streams a c"
  by (simp add: same_streams_def)

lemma close_if_needed_streams: "same_streams c (close_if_needed o1 c)"
  by (cases "(o1, c)" rule: close_if_needed.cases) (simp_all add: same_streams_def close_connection_def qc_close_def)

lemma handle_connection_error_streams: "handle_connection_error o1 c = (e, c') \<Longrightarrow> same_streams c c'"
  using close_if_needed_streams [of "c\<lparr>ci_shared := snd (set_conn_error o1 (ci_shared c))\<rparr>"
      "fst (set_conn_error o1 (ci_shared c))"]
  by (auto simp: handle_connection_error_def convert_and_store_def Let_def same_streams_def
      split: option.splits prod.splits)

lemma internal_error_streams: "internal_error co c = (e, c') \<Longrightarrow> same_streams c c'"
  unfolding internal_error_def by (rule handle_connection_error_streams)

lemma poll_connection_error_streams: "poll_connection_error c = (p, c') \<Longrightarrow> same_streams c c'"
  using close_if_needed_streams [of c]
  by (auto simp: poll_connection_error_def convert_and_store_def Let_def same_streams_def split: option.splits)

lemma collect_streams_load: "collect_streams c = (r, c') \<Longrightarrow> conn_load c' \<le> conn_load c"
proof (induction c arbitrary: r c' rule: collect_streams.induct)
  case (1 c)
  obtain a q where q: "qc_poll_accept_recv (ci_conn c) = (a, q)" by (cases "qc_poll_accept_recv (ci_conn c)")
  have bidi: "qc_bidi q = qc_bidi (ci_conn c)" using q by (auto simp: qc_poll_accept_recv_def split: prod.splits)
  have taken: "(case a of Ready (Ok tr) \<Rightarrow> available tr | _ \<Rightarrow> 0) + uni_load (qc_uni q) \<le> uni_load (qc_uni (ci_conn c))"
    using q by (cases "qc_uni (ci_conn c)" rule: accept_uni.cases) (auto simp: qc_poll_accept_recv_def uni_load_def)
  have same: "conn_load (c\<lparr>ci_conn := q\<rparr>) \<le> conn_load c"
    using taken by (simp add: conn_load_def control_load_def)
  show ?case
  proof (cases a rule: poll_result_cases)
    case (ok tr)
    define c1 where "c1 = c\<lparr>ci_conn := q, ci_pending_recv := ci_pending_recv c @ [Some (accept_recv_stream_new tr)]\<rparr>"
    have eq: "collect_streams c1 = (r, c')"
      using "1.prems" q ok by (subst (asm) collect_streams.simps) (simp add: c1_def)
    have "conn_load c1 \<le> conn_load c"
      using taken ok by (simp add: c1_def conn_load_def control_load_def pending_load_def recv_load_def
          accept_recv_stream_new_def recv_stream_new_def buf_remaining_eq)
    moreover have "conn_load c' \<le> conn_load c1"
      using "1.IH" [OF q [symmetric] ok refl, folded c1_def, OF eq] .
    ultimately show ?thesis by simp
  next
    case (err e)
    obtain e1 c1 where h: "handle_connection_error (OriginQuic e) (c\<lparr>ci_conn := q\<rparr>) = (e1, c1)"
      by (cases "handle_connection_error (OriginQuic e) (c\<lparr>ci_conn := q\<rparr>)")
    have "c' = c1" using "1.prems" q err h by (subst (asm) collect_streams.simps) simp
    then show ?thesis using same same_streams_load [OF handle_connection_error_streams [OF h]] by simp
  qed (use "1.prems" q same in \<open>auto simp: collect_streams.simps [of c]\<close>)
qed


lemma into_stream_load:
  "into_stream s = Ok a \<Longrightarrow> case a of AcceptedControl fs \<Rightarrow> fs_load fs = recv_load (ar_stream s) | _ \<Rightarrow> True"
  by (auto simp: into_stream_def frame_stream_new_def split: option.splits if_splits)

lemma claim_stream_load:
  assumes "claim_stream a c = (r, c')"
  shows "control_load c' \<le> control_load c + (case a of AcceptedControl fs \<Rightarrow> fs_load fs | _ \<Rightarrow> 0)
    \<and> ci_pending_recv c' = ci_pending_recv c"
proof -
  have refuse: "control_load c2 = control_load c1 \<and> ci_pending_recv c2 = ci_pending_recv c1"
    if "internal_error H3_STREAM_CREATION_ERROR c1 = (e, c2)" for c1 c2 e
    using same_streams_load [OF internal_error_streams [OF that]] by simp
  show ?thesis
    using assms by (cases a) (auto simp: claim_stream_def Let_def control_load_def dest!: refuse
        split: if_splits prod.splits)
qed

lemma resolve_stream_load:
  assumes "resolve_stream s c = (r, s', c')"
  shows "opt_load s' + control_load c' \<le> recv_load (ar_stream s) + control_load c
    \<and> ci_pending_recv c' = ci_pending_recv c"
proof -
  obtain p s1 where p: "poll_type s = (p, s1)" by (cases "poll_type s")
  note l = poll_type_load [OF p]
  have refuse: "control_load c2 = control_load c \<and> ci_pending_recv c2 = ci_pending_recv c"
    if "handle_connection_error o1 c = (e, c2) \<or> internal_error co c = (e, c2)" for o1 co e c2
    using that same_streams_load [of c c2] internal_error_streams handle_connection_error_streams by blast
  show ?thesis
  proof (cases p rule: poll_result_cases)
    case (ok u)
    show ?thesis
    proof (cases "into_stream s1")
      case (Ok a)
      obtain r2 c2 where cl: "claim_stream a c = (r2, c2)" by (cases "claim_stream a c")
      then show ?thesis
        using assms p ok Ok l into_stream_load [OF Ok] claim_stream_load [OF cl]
        by (auto simp: resolve_stream_def pending_load_def split: accepted_recv_stream.splits)
    qed (use assms p ok in \<open>auto simp: resolve_stream_def pending_load_def\<close>)
  next
    case (err e)
    then show ?thesis
      using assms p l refuse
      by (cases e) (fastforce simp: resolve_stream_def pending_load_def split: prod.splits)+
  qed (use assms p l in \<open>auto simp: resolve_stream_def pending_load_def\<close>)
qed

lemma pending_load_Cons: "pending_load (s # ss) = opt_load s + pending_load ss"
  by (simp add: pending_load_def)

lemma resolve_streams_load:
  "resolve_streams ss c = (r, ss', c') \<Longrightarrow>
   pending_load ss' + control_load c' \<le> pending_load ss + control_load c"
proof (induction ss c arbitrary: r ss' c' rule: resolve_streams.induct)
  case (2 ss c)
  then show ?case
    by (cases "resolve_streams ss c") (fastforce simp: pending_load_Cons)
next
  case (3 s ss c)
  obtain r1 s1 c1 where s: "resolve_stream s c = (r1, s1, c1)" by (cases "resolve_stream s c") auto
  note l = resolve_stream_load [OF s]
  show ?case
  proof (cases r1)
    case (Ok u)
    obtain r2 ss2 c2 where rest: "resolve_streams ss c1 = (r2, ss2, c2)" by (cases "resolve_streams ss c1") auto
    have "pending_load ss2 + control_load c2 \<le> pending_load ss + control_load c1"
      using "3.IH" s Ok rest by auto
    then show ?thesis
      using "3.prems" s Ok rest l by (auto simp: pending_load_Cons)
  qed (use "3.prems" s l in \<open>auto simp: pending_load_Cons\<close>)
qed simp

lemma pending_load_filter: "pending_load (filter (\<lambda>s. s \<noteq> None) ss) = pending_load ss"
  by (induction ss) (auto simp: pending_load_def split: option.splits)

lemma poll_accept_recv_load:
  assumes "poll_accept_recv c = (r, c')"
  shows "conn_load c' \<le> conn_load c"
proof -
  obtain p c1 where p: "poll_connection_error c = (p, c1)" by (cases "poll_connection_error c")
  have c1: "conn_load c1 = conn_load c" using same_streams_load [OF poll_connection_error_streams [OF p]] by simp
  obtain r2 c2 where col: "collect_streams c1 = (r2, c2)" by (cases "collect_streams c1")
  note l2 = collect_streams_load [OF col]
  obtain r3 ss c3 where res: "resolve_streams (ci_pending_recv c2) c2 = (r3, ss, c3)"
    by (cases "resolve_streams (ci_pending_recv c2) c2") auto
  have l3: "conn_load (c3\<lparr>ci_pending_recv := ss'\<rparr>) \<le> conn_load c2" if "pending_load ss' = pending_load ss" for ss'
    using resolve_streams_load [OF res] that by (simp add: conn_load_def control_load_def)
  have "conn_load c' \<le> conn_load c1"
  proof (cases "\<exists>e. p = Ready (Err e)")
    case True
    then show ?thesis using assms p by (auto simp: poll_accept_recv_def)
  next
    case False
    then have eq: "st_then (collect_streams c1) (\<lambda>_ c2.
            case resolve_streams (ci_pending_recv c2) c2 of
              (Ok _, ss, c3) \<Rightarrow> (Ok (), c3\<lparr>ci_pending_recv := filter (\<lambda>s. s \<noteq> None) ss\<rparr>)
            | (Err e, ss, c3) \<Rightarrow> (Err e, c3\<lparr>ci_pending_recv := ss\<rparr>)
            | (Panic, ss, c3) \<Rightarrow> (Panic, c3\<lparr>ci_pending_recv := ss\<rparr>)) = (r, c')"
      using assms p by (cases p rule: poll_result_cases) (simp_all add: poll_accept_recv_def)
    show ?thesis
    proof (cases r2)
      case (Ok u)
      have "\<exists>ss'. pending_load ss' = pending_load ss \<and> c' = c3\<lparr>ci_pending_recv := ss'\<rparr>"
        using eq col Ok res pending_load_filter by (cases r3) auto
      then show ?thesis using l3 l2 by (metis order_trans)
    qed (use eq col l2 in auto)
  qed
  then show ?thesis using c1 by simp
qed

lemma grease_streams:
  "poll_grease_stream c = (p, c') \<Longrightarrow> same_streams c c'"
  by (auto simp: poll_grease_stream_def grease_send_def grease_ready_def grease_finish_def grease_over_def
      same_streams_def qc_poll_open_send_def
      split: grease_status.splits option.splits prod.splits poll.splits result.splits)


lemma handle_with_load:
  "conn_load (snd (case handle_connection_error o1 c of (e, c1) \<Rightarrow> (r e, c1))) = conn_load c"
  using same_streams_load [OF handle_connection_error_streams] by (auto split: prod.splits)

lemma control_received_load:
  assumes "control_received a c = (r, c')"
  shows "conn_load c' = conn_load c \<and> (\<forall>f. r = Ok f \<longrightarrow> a = Ok (Some f))"
proof -
  have i: "conn_load c2 = conn_load c" if "internal_error co c = (e, c2)" for co e c2
    using same_streams_load [OF internal_error_streams [OF that]] by simp
  have h: "conn_load c2 = conn_load c" if "handle_connection_error o1 c = (e, c2)" for o1 e c2
    using same_streams_load [OF handle_connection_error_streams [OF that]] by simp
  have e: "conn_load c2 = conn_load c" if "control_error fe c = (e, c2)" for fe e c2
    using that i h by (cases "(fe, c)" rule: control_error.cases) auto
  have f: "conn_load c' = conn_load c \<and> (\<forall>g. r = Ok g \<longrightarrow> g = f)" if "control_frame f c = (r, c')" for f
    using that i by (cases f) (auto simp: conn_load_def control_load_def split: if_splits prod.splits)
  show ?thesis
    using assms i e by (cases "(a, c)" rule: control_received.cases) (auto split: prod.splits dest!: f)
qed

lemma poll_control_load:
  assumes "poll_control c = (p, c')"
  shows "conn_load c' \<le> conn_load c \<and> (\<forall>f. p = Ready (Ok f) \<longrightarrow> conn_load c' < conn_load c)"
proof -
  obtain q c1 where q: "poll_connection_error c = (q, c1)" by (cases "poll_connection_error c")
  have c1: "conn_load c1 = conn_load c" using same_streams_load [OF poll_connection_error_streams [OF q]] by simp
  obtain r c2 where a: "poll_accept_recv c1 = (r, c2)" by (cases "poll_accept_recv c1")
  have c2: "conn_load c2 \<le> conn_load c" using poll_accept_recv_load [OF a] c1 by simp
  show ?thesis
  proof (cases "(\<exists>e. q = Ready (Err e)) \<or> r \<noteq> Ok () \<or> ci_control_recv c2 = None")
    case True
    then show ?thesis
      using assms q a c1 c2
      by (cases q rule: poll_result_cases; cases r) (auto simp: poll_control_def unless_error_def)
  next
    case False
    then obtain s where s: "ci_control_recv c2 = Some s" by auto
    obtain x s1 where x: "poll_next s = (x, s1)" by (cases "poll_next s")
    note sl = poll_next_load [OF x]
    define c3 where "c3 = c2\<lparr>ci_control_recv := Some s1\<rparr>"
    have c3: "conn_load c3 + fs_load s = conn_load c2 + fs_load s1"
      by (simp add: c3_def conn_load_def control_load_def s)
    have run: "poll_control c = (case x of
         Pending \<Rightarrow> (Pending, c3)
       | Ready a \<Rightarrow>
           (case control_received a c3 of
              (Ok f, c4) \<Rightarrow>
                if ci_send_grease_stream c4
                then poll_then (poll_grease_stream c4) (\<lambda>_ c5. (Ready (Ok f), c5)) Pair
                else (Ready (Ok f), c4)
            | (Err e, c4) \<Rightarrow> (Ready (Err e), c4)
            | (Panic, c4) \<Rightarrow> (Ready Panic, c4)))"
      using False q a s x
      by (cases q rule: poll_result_cases; cases r; cases x)
        (simp_all add: poll_control_def unless_error_def c3_def)
    show ?thesis
    proof (cases x)
      case Pending
      then show ?thesis using assms run c2 c3 sl by auto
    next
      case (Ready b)
      obtain y c4 where y: "control_received b c3 = (y, c4)" by (cases "control_received b c3")
      note yl = control_received_load [OF y]
      show ?thesis
      proof (cases y)
        case (Ok f)
        then have less: "conn_load c4 < conn_load c" using yl sl Ready c2 c3 by auto
        have "conn_load c' < conn_load c"
        proof (cases "ci_send_grease_stream c4")
          case True
          obtain g c5 where g: "poll_grease_stream c4 = (g, c5)" by (cases "poll_grease_stream c4")
          have "c' = c5"
            using assms run Ready y Ok True g by (cases g rule: poll_result_cases) auto
          then show ?thesis using less same_streams_load [OF grease_streams [OF g]] by simp
        qed (use assms run Ready y Ok less in auto)
        then show ?thesis by simp
      qed (use assms run Ready y yl c2 c3 sl in auto)
    qed
  qed
qed

text \<open>
  C15: the control stream cannot keep a connection busy. Each frame \<open>poll_control\<close> returns
  leaves fewer bytes in the streams of the connection than before, so that it returns at most
  as many frames in a row as there are bytes.
\<close>

theorem control_progress:
  assumes "poll_control c = (Ready (Ok f), c')"
  shows "conn_load c' < conn_load c"
  using poll_control_load [OF assms] by blast


theorem control_progress_witness:
  "conn_load (snd (poll_control (control_conn True False [PollData [7, 1, 4]])))
     < conn_load (control_conn True False [PollData [7, 1, 4]])"
proof -
  have "fst (poll_control (control_conn True False [PollData [7, 1, 4]])) = Ready (Ok (Goaway 4))" by code_simp
  then obtain c' where "poll_control (control_conn True False [PollData [7, 1, 4]]) = (Ready (Ok (Goaway 4)), c')"
    by (cases "poll_control (control_conn True False [PollData [7, 1, 4]])") simp
  from control_progress [OF this] this show ?thesis by simp
qed

end
