(* ===== verification/RequestStream.thy ===== *)
theory RequestStream
  imports Transport Messages
begin

text \<open>
  A request stream, \<open>RequestStream\<close> of \<open>h3/src/connection.rs\<close>: the body and the trailers as they
  are received and sent. The state is the stream and the state it shares with its connection;
  bidirectional streams carry both halves, and after \<open>split\<close> each half ignores the other.
\<close>

section \<open>State\<close>

record request_stream =
  rq_stream :: frame_stream
  rq_send :: out_stream
  rq_stopped :: "h3_code list"
  rq_trailers :: "bytes option"
  rq_max_field_section_size :: u64
  rq_send_grease_frame :: bool

type_synonym rq_state = "request_stream \<times> shared_state"

type_synonym 'a rq_poll = "(stream_error, 'a) result poll \<times> rq_state"

definition request_stream_new :: "frame_stream \<Rightarrow> out_stream \<Rightarrow> u64 \<Rightarrow> bool \<Rightarrow> request_stream" where
  "request_stream_new s st max_size grease =
     \<lparr>rq_stream = s, rq_send = st, rq_stopped = [], rq_trailers = None,
      rq_max_field_section_size = max_size, rq_send_grease_frame = grease\<rparr>"

definition rq_stop_sending :: "h3_code \<Rightarrow> rq_state \<Rightarrow> rq_state" where
  "rq_stop_sending co st = ((fst st)\<lparr>rq_stopped := rq_stopped (fst st) @ [co]\<rparr>, snd st)"

definition rq_stop_stream :: "h3_code \<Rightarrow> rq_state \<Rightarrow> rq_state" where
  "rq_stop_stream co st =
     ((fst st)\<lparr>rq_send := (rq_send (fst st))\<lparr>os_reset := os_reset (rq_send (fst st)) @ [co]\<rparr>\<rparr>, snd st)"

text \<open>Errors of the stream: those that concern the connection go to the shared state.\<close>

definition frame_failed :: "frame_stream_error \<Rightarrow> rq_state \<Rightarrow> stream_error \<times> rq_state" where
  "frame_failed e st = (case handle_frame_stream_error e (snd st) of (se, sh) \<Rightarrow> (se, (fst st, sh)))"

definition quic_failed :: "stream_error_incoming \<Rightarrow> rq_state \<Rightarrow> stream_error \<times> rq_state" where
  "quic_failed e st = (case handle_quic_stream_error e (snd st) of (se, sh) \<Rightarrow> (se, (fst st, sh)))"

definition connection_failed :: "h3_code \<Rightarrow> rq_state \<Rightarrow> 'a rq_poll" where
  "connection_failed co st =
     (case handle_connection_error_on_stream (InternalConnectionError co) (snd st) of
        (se, sh) \<Rightarrow> (Ready (Err se), (fst st, sh)))"

section \<open>Receiving\<close>

definition rq_next :: "rq_state \<Rightarrow> (frame_stream_error, recv_frame option) result poll \<times> rq_state" where
  "rq_next st = (case poll_next (rq_stream (fst st)) of (p, s) \<Rightarrow> (p, ((fst st)\<lparr>rq_stream := s\<rparr>, snd st)))"

definition rq_deliver :: "rq_state \<Rightarrow> bytes option rq_poll" where
  "rq_deliver st =
     poll_then (case poll_data (rq_stream (fst st)) of (p, s) \<Rightarrow> (p, ((fst st)\<lparr>rq_stream := s\<rparr>, snd st)))
       (\<lambda>d st1. (Ready (Ok d), st1)) frame_failed"

definition poll_recv_data :: "rq_state \<Rightarrow> bytes option rq_poll" where
  "poll_recv_data st =
     (if has_data (rq_stream (fst st)) then rq_deliver st
      else
        poll_then (rq_next st) (\<lambda>frame st1.
          case frame of
            None \<Rightarrow> (Ready (Ok None), st1)
          | Some (Headers encoded) \<Rightarrow>
              (Ready (Ok None), ((fst st1)\<lparr>rq_trailers := Some encoded\<rparr>, snd st1))
          | Some (Data _) \<Rightarrow> rq_deliver st1
          | Some _ \<Rightarrow> connection_failed H3_FRAME_UNEXPECTED st1) frame_failed)"

text \<open>\<open>poll_fn(..poll_next..).await\<close>: ask again until there is an answer; pending is never.\<close>

lemma try_recv_pending_shorter:
  "try_recv s = (Pending, s') \<Longrightarrow>
   length (rs_transport (fs_stream s')) \<le> length (rs_transport (fs_stream s))
   \<and> (rs_transport (fs_stream s) \<noteq> [] \<longrightarrow> length (rs_transport (fs_stream s')) < length (rs_transport (fs_stream s)))"
  by (auto simp: try_recv_def poll_read_def Let_def split: if_splits list.splits recv_event.splits result.splits)

lemma poll_next_loop_pending:
  "poll_next_loop s = (Pending, s') \<Longrightarrow>
   length (rs_transport (fs_stream s')) \<le> length (rs_transport (fs_stream s))
   \<and> (rs_transport (fs_stream s) \<noteq> [] \<longrightarrow> length (rs_transport (fs_stream s')) < length (rs_transport (fs_stream s)))"
proof (induction s rule: measure_induct_rule [where f = "\<lambda>s. length (rs_transport (fs_stream s))"])
  case (less s)
  obtain r s1 where d: "decoded s = (r, s1)" by (cases "decoded s")
  have s1: "rs_transport (fs_stream s1) = rs_transport (fs_stream s)"
    using d by (auto simp: decoded_def split: prod.splits)
  have r: "r = Ok None" using less.prems d by (auto simp: poll_next_loop_decoded [of s] split: result.splits option.splits)
  obtain q s2 where t: "try_recv s1 = (q, s2)" by (cases "try_recv s1")
  show ?case
  proof (cases "q = Ready (Ok False)")
    case True
    then have "poll_next_loop s2 = (Pending, s')" using less.prems d r t by (simp add: poll_next_loop_decoded [of s])
    moreover have "length (rs_transport (fs_stream s2)) < length (rs_transport (fs_stream s))"
      using try_recv_false_shorter [of s1 s2] t True s1 by simp
    ultimately show ?thesis using less.IH [of s2] by auto
  next
    case False
    then have "try_recv s1 = (Pending, s')"
      using less.prems d r t
      by (cases q rule: poll_result_cases) (auto simp: poll_next_loop_decoded [of s] split: if_splits bool.splits)
    then show ?thesis using try_recv_pending_shorter s1 by metis
  qed
qed

function await_next :: "frame_stream \<Rightarrow> (frame_stream_error, recv_frame option) result poll \<times> frame_stream" where
  "await_next s =
     (case poll_next s of
        (Pending, s1) \<Rightarrow> if rs_transport (fs_stream s) = [] then (Pending, s1) else await_next s1
      | ready \<Rightarrow> ready)"
  by pat_completeness auto

termination await_next
  by (relation "measure (\<lambda>s. length (rs_transport (fs_stream s)))")
    (auto simp: poll_next_def dest!: poll_next_loop_pending [OF sym] split: if_splits)

declare await_next.simps [simp del]

definition rq_await_next :: "rq_state \<Rightarrow> (frame_stream_error, recv_frame option) result poll \<times> rq_state" where
  "rq_await_next st = (case await_next (rq_stream (fst st)) of (p, s) \<Rightarrow> (p, ((fst st)\<lparr>rq_stream := s\<rparr>, snd st)))"

text \<open>After the trailers only unknown frames may come; what the fields are is looked at last.\<close>

definition decode_trailers :: "('m, 'u) http \<Rightarrow> bytes \<Rightarrow> rq_state \<Rightarrow> 'm option rq_poll" where
  "decode_trailers http trailers st =
     (let max_size = unat (rq_max_field_section_size (fst st)) in
      case decode_stateless trailers max_size of
        Err (DHeaderTooLong cancel_size) \<Rightarrow> (Ready (Err (HeaderTooBig cancel_size max_size)), st)
      | Err _ \<Rightarrow> connection_failed QPACK_DECOMPRESSION_FAILED st
      | Panic \<Rightarrow> (Ready Panic, st)
      | Ok d \<Rightarrow>
          (case header_try_from http (dec_fields d) of
             Ok h \<Rightarrow> (Ready (Ok (Some (into_fields h))), st)
           | Err _ \<Rightarrow> (Ready (Err (StreamErrorCode H3_MESSAGE_ERROR)), rq_stop_sending H3_MESSAGE_ERROR st)
           | Panic \<Rightarrow> (Ready Panic, st)))"

definition check_trailing :: "('m, 'u) http \<Rightarrow> bytes \<Rightarrow> rq_state \<Rightarrow> 'm option rq_poll" where
  "check_trailing http trailers st =
     (if is_eos (rq_stream (fst st)) then decode_trailers http trailers st
      else
        (case rq_next st of
           (Pending, st1) \<Rightarrow> (Pending, ((fst st1)\<lparr>rq_trailers := Some trailers\<rparr>, snd st1))
         | (Ready (Ok None), st1) \<Rightarrow> decode_trailers http trailers st1
         | (Ready (Ok (Some _)), st1) \<Rightarrow> connection_failed H3_FRAME_UNEXPECTED st1
         | (Ready (Err e), st1) \<Rightarrow> (case frame_failed e st1 of (se, st2) \<Rightarrow> (Ready (Err se), st2))
         | (Ready Panic, st1) \<Rightarrow> (Ready Panic, st1)))"

definition poll_recv_trailers :: "('m, 'u) http \<Rightarrow> rq_state \<Rightarrow> 'm option rq_poll" where
  "poll_recv_trailers http st =
     (case rq_trailers (fst st) of
        Some encoded \<Rightarrow> check_trailing http encoded ((fst st)\<lparr>rq_trailers := None\<rparr>, snd st)
      | None \<Rightarrow>
          poll_then (rq_next st) (\<lambda>frame st1.
            case frame of
              None \<Rightarrow> (Ready (Ok None), st1)
            | Some (Headers encoded) \<Rightarrow> check_trailing http encoded st1
            | Some _ \<Rightarrow> connection_failed H3_FRAME_UNEXPECTED st1) frame_failed)"

section \<open>Sending\<close>

text \<open>\<open>stream::write\<close> and what an error of it means; \<open>r\<close> is the random number of a grease frame.\<close>

definition rq_write :: "u64 \<Rightarrow> bytes frame \<Rightarrow> rq_state \<Rightarrow> unit rq_poll" where
  "rq_write r frame st =
     (case write_out r (OutFrame frame) (rq_send (fst st)) of
        (p, out) \<Rightarrow>
          poll_then (p, ((fst st)\<lparr>rq_send := out\<rparr>, snd st)) (\<lambda>_ st1. (Ready (Ok ()), st1)) quic_failed)"

definition rq_send_data :: "u64 \<Rightarrow> bytes \<Rightarrow> rq_state \<Rightarrow> unit rq_poll" where
  "rq_send_data r buf st = rq_write r (Data buf) st"

definition rq_send_trailers :: "u64 \<Rightarrow> ('m, 'u) http \<Rightarrow> 'm \<Rightarrow> rq_state \<Rightarrow> unit rq_poll" where
  "rq_send_trailers r http trailers st =
     (case encode_header http (header_trailer trailers) of
        Err _ \<Rightarrow> connection_failed H3_INTERNAL_ERROR st
      | Panic \<Rightarrow> (Ready Panic, st)
      | Ok (msize, block) \<Rightarrow>
          let max_mem_size = unat (max_field_section_size (peer_settings (snd st))) in
          if msize > max_mem_size then (Ready (Err (HeaderTooBig msize max_mem_size)), st)
          else rq_write r (Headers block) st)"

definition rq_poll_finish :: "rq_state \<Rightarrow> unit rq_poll" where
  "rq_poll_finish st =
     (case out_finish (rq_send (fst st)) of
        (p, out) \<Rightarrow>
          poll_then (p, ((fst st)\<lparr>rq_send := out\<rparr>, snd st)) (\<lambda>_ st1. (Ready (Ok ()), st1)) quic_failed)"

definition rq_finish :: "u64 \<Rightarrow> rq_state \<Rightarrow> unit rq_poll" where
  "rq_finish r st =
     (if rq_send_grease_frame (fst st) then
        (case rq_write r Grease st of
           (Ready (Ok _), st1) \<Rightarrow> rq_poll_finish ((fst st1)\<lparr>rq_send_grease_frame := False\<rparr>, snd st1)
         | other \<Rightarrow> other)
      else rq_poll_finish st)"

text \<open>The halves of a stream: the sending one reads nothing, the receiving one sends nothing.\<close>

definition no_out :: out_stream where
  "no_out = \<lparr>os_refused = None, os_ready = [], os_finish = [], os_sent = [], os_reset = []\<rparr>"

definition rq_split :: "request_stream \<Rightarrow> request_stream \<times> request_stream" where
  "rq_split rq =
     (case frame_stream_split (rq_stream rq) of
        (send, recv) \<Rightarrow>
          (\<lparr>rq_stream = send, rq_send = rq_send rq, rq_stopped = [], rq_trailers = None,
             rq_max_field_section_size = 0, rq_send_grease_frame = rq_send_grease_frame rq\<rparr>,
           \<lparr>rq_stream = recv, rq_send = no_out, rq_stopped = rq_stopped rq, rq_trailers = rq_trailers rq,
             rq_max_field_section_size = rq_max_field_section_size rq,
             rq_send_grease_frame = rq_send_grease_frame rq\<rparr>))"

end
