(* ===== verification/RequestBody.thy ===== *)
theory RequestBody
  imports RequestStream
begin

text \<open>
  What a request stream delivers: the body as a function of the bytes of the stream, however
  they arrive, and that the receiver gets what the sender wrote. The operations only add to
  the state they share with the connection.
\<close>

section \<open>The shared state\<close>

definition rq_ok :: "rq_state \<Rightarrow> (stream_error, 'a) result poll \<times> rq_state \<Rightarrow> bool" where
  "rq_ok st out \<longleftrightarrow> shared_grows (snd st) (snd (snd out))"

lemma rq_ok_same: "snd st' = snd st \<Longrightarrow> rq_ok st (p, st')"
  by (simp add: rq_ok_def)

lemma rq_ok_from: "snd st1 = snd st \<Longrightarrow> rq_ok st1 out \<Longrightarrow> rq_ok st out"
  by (simp add: rq_ok_def)

lemma connection_failed_ok: "rq_ok st (connection_failed co st)"
  using handle_connection_error_on_stream_spec(1)
  by (auto simp: connection_failed_def rq_ok_def split: prod.splits)

lemma frame_failed_ok: "frame_failed e st = (se, st') \<Longrightarrow> rq_ok st (Ready (Err se), st')"
  using handle_frame_stream_error_grows by (auto simp: frame_failed_def rq_ok_def split: prod.splits)

lemma quic_failed_ok: "quic_failed e st = (se, st') \<Longrightarrow> rq_ok st (Ready (Err se), st')"
  using handle_quic_stream_error_grows by (auto simp: quic_failed_def rq_ok_def split: prod.splits)

lemma poll_then_ok:
  assumes "snd st1 = snd st" and "\<And>x. rq_ok st1 (f x st1)"
    and "\<And>e se st2. h e st1 = (se, st2) \<Longrightarrow> rq_ok st1 (Ready (Err se), st2)"
  shows "rq_ok st (poll_then (p, st1) f h)"
  using assms by (auto simp: poll_then_split rq_ok_def)

lemma rq_next_shared: "rq_next st = (p, st') \<Longrightarrow> snd st' = snd st"
  by (auto simp: rq_next_def split: prod.splits)

lemma poll_then_next_ok:
  assumes "\<And>x st1. rq_ok st1 (f x st1)"
  shows "rq_ok st (poll_then (rq_next st) f frame_failed)"
proof -
  obtain p st1 where n: "rq_next st = (p, st1)" by (cases "rq_next st")
  show ?thesis
    unfolding n by (rule poll_then_ok) (auto intro: rq_next_shared [OF n] assms frame_failed_ok)
qed

lemma rq_deliver_ok: "rq_ok st (rq_deliver st)"
  unfolding rq_deliver_def
  by (cases "poll_data (rq_stream (fst st))") (auto intro!: poll_then_ok intro: rq_ok_same frame_failed_ok)

lemma poll_recv_data_ok: "rq_ok st (poll_recv_data st)"
  unfolding poll_recv_data_def
  by (auto intro!: rq_deliver_ok poll_then_next_ok rq_ok_same connection_failed_ok
      split: option.split frame.split)

lemma decode_trailers_ok: "rq_ok st (decode_trailers http trailers st)"
  unfolding decode_trailers_def Let_def
  by (auto intro!: rq_ok_same connection_failed_ok simp: rq_stop_sending_def
      split: result.split decoder_error.split)

lemma check_trailing_ok: "rq_ok st (check_trailing http trailers st)"
proof -
  obtain p st1 where n: "rq_next st = (p, st1)" by (cases "rq_next st")
  note same = rq_next_shared [OF n]
  show ?thesis
  proof (cases "is_eos (rq_stream (fst st))")
    case False
    then show ?thesis
      using n same rq_ok_from [OF same decode_trailers_ok]
        rq_ok_from [OF same connection_failed_ok] rq_ok_from [OF same frame_failed_ok]
      by (cases p rule: poll_result_cases)
        (auto simp: check_trailing_def intro: rq_ok_same split: option.split prod.split)
  qed (simp add: check_trailing_def decode_trailers_ok)
qed

lemma poll_recv_trailers_ok: "rq_ok st (poll_recv_trailers http st)"
  unfolding poll_recv_trailers_def
  by (auto intro!: poll_then_next_ok rq_ok_same connection_failed_ok check_trailing_ok
      rq_ok_from [OF _ check_trailing_ok] split: option.split frame.split)

lemma rq_write_ok: "rq_ok st (rq_write r frame st)"
  unfolding rq_write_def
  by (auto intro!: poll_then_ok intro: rq_ok_same quic_failed_ok split: prod.split)

lemma rq_send_trailers_ok: "rq_ok st (rq_send_trailers r http trailers st)"
  unfolding rq_send_trailers_def Let_def
  by (auto intro!: rq_ok_same connection_failed_ok rq_write_ok split: result.split prod.split)

lemma rq_poll_finish_ok: "rq_ok st (rq_poll_finish st)"
  unfolding rq_poll_finish_def
  by (auto intro!: poll_then_ok intro: rq_ok_same quic_failed_ok split: prod.split)

lemma rq_finish_ok: "rq_ok st (rq_finish r st)"
proof -
  obtain p st1 where w: "rq_write r Grease st = (p, st1)" by (cases "rq_write r Grease st")
  have g: "rq_ok st (p, st1)" using rq_write_ok [of st r Grease] w by simp
  have f: "rq_ok st1 (rq_poll_finish ((fst st1)\<lparr>rq_send_grease_frame := False\<rparr>, snd st1))"
    by (rule rq_ok_from [OF _ rq_poll_finish_ok]) simp
  show ?thesis
    using g f w rq_poll_finish_ok [of st]
    by (cases p rule: poll_result_cases) (auto simp: rq_finish_def rq_ok_def intro: shared_grows_trans)
qed

section \<open>The body\<close>

lemma next_frame_shorter: "next_frame bs = Parsed f rest \<Longrightarrow> length rest < length bs"
proof (induction bs rule: next_frame.induct)
  case (1 bs)
  show ?case
  proof (cases bs rule: frame_decode_cases)
    case (frame g r)
    then show ?thesis
      using 1(2) frame_decode_Ok_suffix [OF frame(1)] by (auto simp: next_frame_step(1) [OF frame(1)])
  next
    case (unknown ty r)
    then have "next_frame r = Parsed f rest" using 1(2) by (simp add: next_frame_step(2) [OF unknown(1)])
    from 1(1) [OF unknown(1) refl refl this] show ?thesis using unknown(3) by simp
  next
    case (bad e pe r)
    then show ?thesis using 1(2) next_frame_step(4) [OF bad(1,2)] by simp
  qed (use 1(2) in \<open>simp add: next_frame_step(3)\<close>)
qed

datatype message_end =
    EndOfMessage
  | TrailersNext bytes bytes
  | OtherFrame recv_frame
  | CutShort
  | BadFrame frame_protocol_error

fun message_end_of :: "parsed \<Rightarrow> message_end" where
  "message_end_of (Parsed (Headers h) rest) = TrailersNext h rest"
| "message_end_of (Parsed f rest) = OtherFrame f"
| "message_end_of (parsed.Partial rest) = (if rest = [] then EndOfMessage else CutShort)"
| "message_end_of (Bad e) = BadFrame e"
| "message_end_of Stuck = CutShort"

text \<open>
  The rest of a message: the payload still missing of the current DATA frame, the payloads of
  the DATA frames behind it, and what comes then.
\<close>

function message :: "nat \<Rightarrow> bytes \<Rightarrow> bytes \<times> message_end" where
  "message n bs =
     (if n = 0 then
        (case next_frame bs of
           Parsed (Data m) rest \<Rightarrow> message m rest
         | p \<Rightarrow> ([], message_end_of p))
      else if length bs < n then (bs, CutShort)
      else (case message 0 (drop n bs) of (b, e) \<Rightarrow> (take n bs @ b, e)))"
  by pat_completeness auto

termination message
  by (relation "measures [\<lambda>(n, bs). length bs, \<lambda>(n, bs). n]") (auto dest: next_frame_shorter)

declare message.simps [simp del]

lemma message_frame: "next_frame bs = next_frame bs' \<Longrightarrow> message 0 bs = message 0 bs'"
  by (simp add: message.simps [of 0])

lemma message_data: "next_frame bs = Parsed (Data m) rest \<Longrightarrow> message 0 bs = message m rest"
  by (simp add: message.simps [of 0])

lemma message_last:
  "next_frame bs = p \<Longrightarrow> (\<And>m rest. p \<noteq> Parsed (Data m) rest) \<Longrightarrow> message 0 bs = ([], message_end_of p)"
  by (auto simp: message.simps [of 0] split: parsed.split frame.split)

lemma message_chunk:
  assumes "d \<noteq> []" and "length d \<le> n"
  shows "message n (d @ bs) = (case message (n - length d) bs of (b, e) \<Rightarrow> (d @ b, e))"
proof (cases "n = length d")
  case True
  then show ?thesis using assms by (simp add: message.simps [of "length d" "d @ bs"])
next
  case False
  then have n: "n \<noteq> 0" "n - length d \<noteq> 0" using assms by auto
  show ?thesis
    unfolding message.simps [of n "d @ bs"] message.simps [of "n - length d" bs] using n assms
    by (auto split: prod.split)
qed

definition message_of :: "rq_state \<Rightarrow> bytes \<times> message_end" where
  "message_of st = message (remaining_data (rq_stream (fst st))) (fs_bytes (rq_stream (fst st)))"

definition rq_inv :: "rq_state \<Rightarrow> bool" where
  "rq_inv st \<longleftrightarrow> frame_stream_inv (rq_stream (fst st))
     \<and> (has_data (rq_stream (fst st)) \<longrightarrow> fs_expected (rq_stream (fst st)) = None)"

lemma poll_next_subset:
  "poll_next s = (p, s') \<Longrightarrow> set (rs_transport (fs_stream s')) \<subseteq> set (rs_transport (fs_stream s))"
proof -
  have "set (rs_transport (fs_stream (snd (poll_next_loop s)))) \<subseteq> set (rs_transport (fs_stream s))"
  proof (induction s rule: measure_induct_rule [where f = "\<lambda>s. length (rs_transport (fs_stream s))"])
    case (less s)
    obtain r s1 where d: "decoded s = (r, s1)" by (cases "decoded s")
    have s1: "rs_transport (fs_stream s1) = rs_transport (fs_stream s)"
      using d by (auto simp: decoded_def split: prod.splits)
    obtain q s2 where t: "try_recv s1 = (q, s2)" by (cases "try_recv s1")
    have sub: "set (rs_transport (fs_stream s2)) \<subseteq> set (rs_transport (fs_stream s))"
      using try_recv_subset [OF t] s1 by simp
    have ih: "set (rs_transport (fs_stream (snd (poll_next_loop s2)))) \<subseteq> set (rs_transport (fs_stream s))"
      if "q = Ready (Ok False)"
      using less.IH [of s2] try_recv_false_shorter [of s1 s2] t that sub s1 by auto
    have fin: "set (rs_transport (fs_stream (case f of Data n \<Rightarrow> s1\<lparr>remaining_data := n\<rparr>
        | WebTransportStream i \<Rightarrow> s1\<lparr>remaining_data := usize_max\<rparr> | _ \<Rightarrow> s1))) \<subseteq> set (rs_transport (fs_stream s))" for f
      using s1 by (cases f) auto
    show ?case
      unfolding poll_next_loop_decoded [of s] using d t sub ih s1 fin
      by (cases r) (auto split: option.splits poll.splits result.splits bool.splits)
  qed
  then show "poll_next s = (p, s') \<Longrightarrow> ?thesis"
    by (auto simp: poll_next_def split: if_splits)
qed

text \<open>
  What a poll for the body may answer. A body that ends is one that is over, or a DATA frame
  without payload was read, or the stream ended with data missing (theory FrameStream).
\<close>

definition transport_fails :: "rq_state \<Rightarrow> bool" where
  "transport_fails st \<longleftrightarrow> (\<exists>e. PollError e \<in> set (rs_transport (fs_stream (rq_stream (fst st)))))"

definition body_ends :: "rq_state \<Rightarrow> rq_state \<Rightarrow> bool" where
  "body_ends st st' \<longleftrightarrow>
     message_of st = ([], EndOfMessage)
     \<or> (\<exists>h. message_of st = ([], TrailersNext h (fs_bytes (rq_stream (fst st'))))
          \<and> rq_trailers (fst st') = Some h \<and> rq_inv st' \<and> \<not> has_data (rq_stream (fst st')))
     \<or> message_of st = ([], CutShort)
     \<or> (\<not> has_data (rq_stream (fst st)) \<and> \<not> has_data (rq_stream (fst st')) \<and> rq_inv st'
          \<and> next_frame (fs_bytes (rq_stream (fst st))) = Parsed (Data 0) (fs_bytes (rq_stream (fst st'))))"

definition recv_data_post :: "rq_state \<Rightarrow> bytes option rq_poll \<Rightarrow> bool" where
  "recv_data_post st out \<longleftrightarrow>
     (case out of
        (Ready (Ok (Some d)), st') \<Rightarrow>
          rq_inv st' \<and> d \<noteq> [] \<and> message_of st = (d @ fst (message_of st'), snd (message_of st'))
      | (Ready (Ok None), st') \<Rightarrow> body_ends st st'
      | (Ready (Err e), st') \<Rightarrow>
          transport_fails st \<or> snd (message_of st) = CutShort
          \<or> (\<exists>f. message_of st = ([], OtherFrame f)) \<or> (\<exists>e. message_of st = ([], BadFrame e))
      | (Ready Panic, st') \<Rightarrow> False
      | (Pending, st') \<Rightarrow> rq_inv st' \<and> message_of st' = message_of st)"

lemma rq_deliver_post:
  assumes "frame_stream_inv (rq_stream (fst st))" and "fs_expected (rq_stream (fst st)) = None"
    and "has_data (rq_stream (fst st))"
  shows "recv_data_post st (rq_deliver st)"
proof -
  obtain rq sh where st: "st = (rq, sh)" by (cases st)
  obtain p s' where p: "poll_data (rq_stream rq) = (p, s')" by (cases "poll_data (rq_stream rq)")
  have post: "poll_data_post (rq_stream rq) (p, s')"
    using poll_data_spec [of "rq_stream rq"] assms p by (simp add: st)
  have n: "remaining_data (rq_stream rq) \<noteq> 0" using assms(3) by (simp add: st has_data_def)
  show ?thesis
  proof (cases p rule: poll_result_cases)
    case (ok x)
    show ?thesis
    proof (cases x)
      case (Some d)
      then show ?thesis
        using post p n ok message_chunk [of d "remaining_data (rq_stream rq)"]
        by (auto simp: st rq_deliver_def recv_data_post_def poll_data_post_def message_of_def rq_inv_def
            split: prod.splits)
    qed (use post p n ok in \<open>auto simp: st rq_deliver_def recv_data_post_def poll_data_post_def body_ends_def
        message_of_def message.simps\<close>)
  next
    case (err e)
    have cut: "snd (message_of st) = CutShort" if "length (fs_bytes (rq_stream rq)) < remaining_data (rq_stream rq)"
      using that by (simp add: st message_of_def message.simps)
    show ?thesis
      using post p err cut
      by (cases e) (auto simp: st rq_deliver_def recv_data_post_def poll_data_post_def transport_fails_def
          split: prod.splits)
  qed (use post p in \<open>auto simp: st rq_deliver_def recv_data_post_def poll_data_post_def message_of_def rq_inv_def\<close>)
qed


text \<open>
  A poll with no frame in progress reads the next frame header first; \<open>after_header s' st\<close> is
  the stream once it has, and the next lemmas take the frames one by one.
\<close>

definition after_header :: "frame_stream \<Rightarrow> rq_state \<Rightarrow> rq_state" where
  "after_header s' st = ((fst st)\<lparr>rq_stream := s'\<rparr>, snd st)"

lemma after_header_simps [simp]:
  "rq_stream (fst (after_header s' st)) = s'" "snd (after_header s' st) = snd st"
  by (simp_all add: after_header_def)

lemma poll_recv_data_header:
  assumes "\<not> has_data (rq_stream (fst st))" and "poll_next (rq_stream (fst st)) = (p, s')"
  shows "poll_recv_data st = poll_then (p, after_header s' st) (\<lambda>frame st1.
      case frame of
        None \<Rightarrow> (Ready (Ok None), st1)
      | Some (Headers encoded) \<Rightarrow> (Ready (Ok None), ((fst st1)\<lparr>rq_trailers := Some encoded\<rparr>, snd st1))
      | Some (Data _) \<Rightarrow> rq_deliver st1
      | Some _ \<Rightarrow> connection_failed H3_FRAME_UNEXPECTED st1) frame_failed"
  using assms by (cases st) (simp add: poll_recv_data_def rq_next_def after_header_def)

lemma message_of_fresh:
  "\<not> has_data (rq_stream (fst st)) \<Longrightarrow> message_of st = message 0 (fs_bytes (rq_stream (fst st)))"
  by (simp add: message_of_def has_data_def)

lemma recv_data_post_frame:
  assumes "\<not> has_data (rq_stream (fst st))" and "poll_next (rq_stream (fst st)) = (Ready (Ok (Some (Data m))), s')"
    and "poll_next_post (rq_stream (fst st)) (Ready (Ok (Some (Data m))), s')"
  shows "recv_data_post st (poll_recv_data st)"
proof -
  let ?st = "after_header s' st"
  note nf = assms(3) [unfolded poll_next_post_def, simplified]
  have go: "poll_recv_data st = rq_deliver ?st"
    using poll_recv_data_header [OF assms(1,2)] by simp
  have msg: "message_of st = message_of ?st"
    using nf message_of_fresh [OF assms(1)] message_data by (simp add: message_of_def)
  show ?thesis
  proof (cases "m = 0")
    case True
    then show ?thesis
      using go nf assms(1)
      by (auto simp: recv_data_post_def rq_deliver_def poll_data_def body_ends_def has_data_def rq_inv_def after_header_def)
  next
    case False
    then have d: "recv_data_post ?st (rq_deliver ?st)"
      using nf by (intro rq_deliver_post) (simp_all add: has_data_def)
    have sub: "transport_fails ?st \<Longrightarrow> transport_fails st"
      using poll_next_subset [OF assms(2)] by (auto simp: transport_fails_def)
    show ?thesis
      using d sub go msg False nf
      by (auto simp: recv_data_post_def body_ends_def has_data_def
          split: prod.splits poll.splits result.splits option.splits)
  qed
qed

lemma recv_data_post_other:
  assumes "\<not> has_data (rq_stream (fst st))" and "poll_next (rq_stream (fst st)) = (Ready (Ok (Some f)), s')"
    and "poll_next_post (rq_stream (fst st)) (Ready (Ok (Some f)), s')" and "\<And>m. f \<noteq> Data m"
  shows "recv_data_post st (poll_recv_data st)"
proof -
  note nf = assms(3) [unfolded poll_next_post_def, simplified]
  have msg: "message_of st = ([], message_end_of (Parsed f (fs_bytes s')))"
    using nf assms(4) by (simp add: message_of_fresh [OF assms(1)] message_last)
  show ?thesis
  proof (cases "\<exists>h. f = Headers h")
    case True
    then show ?thesis
      using poll_recv_data_header [OF assms(1,2)] nf msg
      by (auto simp: recv_data_post_def body_ends_def rq_inv_def has_data_def)
  next
    case False
    then have "poll_recv_data st = connection_failed H3_FRAME_UNEXPECTED (after_header s' st)"
      using poll_recv_data_header [OF assms(1,2)] assms(4) by (cases f) auto
    moreover have "message_of st = ([], OtherFrame f)"
      using msg False assms(4) by (cases f) auto
    ultimately show ?thesis
      by (auto simp: connection_failed_def recv_data_post_def split: prod.splits)
  qed
qed

lemma recv_data_post_failed:
  assumes "\<not> has_data (rq_stream (fst st))" and "poll_next (rq_stream (fst st)) = (Ready (Err e), s')"
    and "poll_next_post (rq_stream (fst st)) (Ready (Err e), s')"
  shows "recv_data_post st (poll_recv_data st)"
proof -
  have "transport_fails st \<or> snd (message_of st) = CutShort \<or> (\<exists>e. message_of st = ([], BadFrame e))"
    using assms(3) by (cases e)
      (auto simp: poll_next_post_def transport_fails_def message_of_fresh [OF assms(1)] message_last)
  then show ?thesis
    using poll_recv_data_header [OF assms(1,2)] by (auto simp: recv_data_post_def split: prod.splits)
qed

text \<open>
  C4: the body is delivered exactly. Whatever the chunks the transport cuts the stream into,
  a poll returns the next bytes of the body and leaves the rest of the message as it was; a
  pending poll loses nothing; trailers are kept for later; an error is reported only if the
  transport failed, the message is cut short, or a frame comes that may not; no poll panics.
\<close>

theorem recv_data_refines:
  assumes "rq_inv st"
  shows "recv_data_post st (poll_recv_data st)"
proof (cases "has_data (rq_stream (fst st))")
  case True
  then show ?thesis
    using assms rq_deliver_post [of st] by (simp add: poll_recv_data_def rq_inv_def)
next
  case fresh: False
  obtain p s' where p: "poll_next (rq_stream (fst st)) = (p, s')" by (cases "poll_next (rq_stream (fst st))")
  have post: "poll_next_post (rq_stream (fst st)) (p, s')"
    using poll_next_loop_spec [of "rq_stream (fst st)"] assms fresh p
    by (simp add: rq_inv_def poll_next_def has_data_def)
  note go = poll_recv_data_header [OF fresh p] and mo = message_of_fresh [OF fresh]
  show ?thesis
  proof (cases p rule: poll_result_cases)
    case pending
    then show ?thesis
      using post go mo by (auto simp: recv_data_post_def poll_next_post_def rq_inv_def message_of_def
          has_data_def intro: message_frame)
  next
    case (ok x)
    show ?thesis
    proof (cases x)
      case None
      then show ?thesis
        using ok post go mo by (auto simp: recv_data_post_def poll_next_post_def body_ends_def message_last)
    next
      case (Some f)
      then show ?thesis
        using recv_data_post_frame [OF fresh] recv_data_post_other [OF fresh] p post ok by (cases f) blast+
    qed
  qed (use post p recv_data_post_failed [OF fresh] in \<open>auto simp: poll_next_post_def\<close>)
qed


text \<open>The stream of the witnesses: \<open>evs\<close> is what the transport delivers.\<close>

definition request_of :: "recv_event list \<Rightarrow> rq_state" where
  "request_of evs =
     (request_stream_new (frame_stream_new (recv_stream_new evs))
        (no_out\<lparr>os_ready := replicate 8 SendOk\<rparr>) varint_max False, shared_state_default)"

lemma request_of_inv: "PollData [] \<notin> set evs \<Longrightarrow> rq_inv (request_of evs)"
  by (simp add: rq_inv_def request_of_def request_stream_new_def frame_stream_inv_new)
    (simp add: frame_stream_new_def)

theorem recv_data_refines_witness:
  "recv_data_post (request_of [PollData [0, 3, 7], PollPending, PollData [8, 9, 0], PollEnd])
     (poll_recv_data (request_of [PollData [0, 3, 7], PollPending, PollData [8, 9, 0], PollEnd]))"
  by (rule recv_data_refines [OF request_of_inv]) simp

section \<open>An empty DATA frame\<close>

text \<open>
  C27: a DATA frame without payload, which RFC 9114 allows, ends the body: the poll reports
  its end, and when DATA frames follow, reading the trailers, as a caller does at the end of
  the body, is a connection error H3_FRAME_UNEXPECTED.
\<close>

theorem empty_data_frame_ends_body:
  assumes "\<not> has_data (rq_stream rq)" and "poll_next (rq_stream rq) = (Ready (Ok (Some (Data 0))), s1)"
    and "remaining_data s1 = 0" and "rq_trailers rq = None"
    and "poll_next s1 = (Ready (Ok (Some (Data n))), s2)" and "ss_error sh = None"
  shows "poll_recv_data (rq, sh) = (Ready (Ok None), (rq\<lparr>rq_stream := s1\<rparr>, sh)) \<and>
    fst (poll_recv_trailers http (rq\<lparr>rq_stream := s1\<rparr>, sh))
      = Ready (Err (StreamConnectionError (ConnLocal (LocalApplication H3_FRAME_UNEXPECTED))))"
  using assms
  by (simp add: poll_recv_data_def rq_next_def rq_deliver_def poll_data_def poll_recv_trailers_def
      connection_failed_def handle_connection_error_on_stream_def set_conn_error_and_wake_def set_conn_error_def)

theorem empty_data_frame_ends_body_witness:
  "fst (poll_recv_data (request_of [PollData [0, 0, 0, 1, 65], PollEnd])) = Ready (Ok None)"
proof -
  let ?rq = "fst (request_of [PollData [0, 0, 0, 1, 65], PollEnd])"
  have "fst (poll_next (rq_stream ?rq)) = Ready (Ok (Some (Data 0)))"
    "remaining_data (snd (poll_next (rq_stream ?rq))) = 0"
    "fst (poll_next (snd (poll_next (rq_stream ?rq)))) = Ready (Ok (Some (Data 1)))"
    by code_simp+
  moreover have "\<not> has_data (rq_stream ?rq)" "rq_trailers ?rq = None"
    "ss_error (snd (request_of [PollData [0, 0, 0, 1, 65], PollEnd])) = None"
    by (simp_all add: request_of_def request_stream_new_def frame_stream_new_def has_data_def shared_state_default_def)
  ultimately show ?thesis
    using empty_data_frame_ends_body [of ?rq _ 1 _ "snd (request_of [PollData [0, 0, 0, 1, 65], PollEnd])" simple_http]
    by (metis prod.collapse fst_conv)
qed

section \<open>From the sender to the receiver\<close>

fun rq_send_all :: "u64 \<Rightarrow> bytes list \<Rightarrow> rq_state \<Rightarrow> unit rq_poll" where
  "rq_send_all r [] st = (Ready (Ok ()), st)"
| "rq_send_all r (b # bs) st =
     (case rq_send_data r b st of
        (Ready (Ok _), st1) \<Rightarrow> rq_send_all r bs st1
      | other \<Rightarrow> other)"

abbreviation rq_sent :: "rq_state \<Rightarrow> write_buf list" where
  "rq_sent st \<equiv> os_sent (rq_send (fst st))"

abbreviation wire :: "write_buf list \<Rightarrow> bytes" where
  "wire wbs \<equiv> concat (map wb_contents wbs)"

lemma rq_write_Ok:
  assumes "rq_write r f st = (Ready (Ok u), st')"
  shows "\<exists>wb. write_buf_of_frame r f = Ok wb \<and> rq_sent st' = rq_sent st @ [wb]"
proof -
  obtain p out where w: "write_out r (OutFrame f) (rq_send (fst st)) = (p, out)"
    by (cases "write_out r (OutFrame f) (rq_send (fst st))")
  have "p = Ready (Ok ()) \<and> rq_send (fst st') = out"
    using assms w by (cases p rule: poll_result_cases) (auto simp: rq_write_def split: prod.splits)
  then show ?thesis using write_out_Ok [of r "OutFrame f"] w by auto
qed

lemma frame_on_wire:
  assumes "write_buf_of_frame r f = Ok wb" and "frame_ok r f"
  shows "(\<And>b. f = Data b \<Longrightarrow> next_frame (wb_contents wb @ rest) = Parsed (Data (length b)) (b @ rest))"
    and "(\<And>h. f = Headers h \<Longrightarrow> next_frame (wb_contents wb @ rest) = Parsed (Headers h) rest)"
  using write_buf_carries_frame_spec [OF assms(2), of rest] assms(1) by (auto intro: next_frame_step(1))

lemma send_all_received:
  "rq_send_all r bufs st = (Ready (Ok ()), st') \<Longrightarrow> \<forall>b \<in> set bufs. length_ok (length b) \<Longrightarrow>
   \<exists>wbs. rq_sent st' = rq_sent st @ wbs \<and>
     (\<forall>rest. message 0 (wire wbs @ rest) = (case message 0 rest of (b, e) \<Rightarrow> (concat bufs @ b, e)))"
proof (induction r bufs st rule: rq_send_all.induct)
  case (2 r b bs st)
  obtain p st1 where w: "rq_send_data r b st = (p, st1)" by (cases "rq_send_data r b st")
  have p: "p = Ready (Ok ())" and more: "rq_send_all r bs st1 = (Ready (Ok ()), st')"
    using "2.prems"(1) w by (cases p rule: poll_result_cases; auto)+
  obtain wb where wb: "write_buf_of_frame r (Data b) = Ok wb" "rq_sent st1 = rq_sent st @ [wb]"
    using rq_write_Ok [of r "Data b" st "()" st1] w p unfolding rq_send_data_def by blast
  obtain wbs where wbs: "rq_sent st' = rq_sent st1 @ wbs"
    "\<And>rest. message 0 (wire wbs @ rest) = (case message 0 rest of (c, e) \<Rightarrow> (concat bs @ c, e))"
    using "2.IH" [OF w [symmetric]] p more "2.prems"(2) by auto
  have "message 0 (wb_contents wb @ rest) = (case message 0 rest of (c, e) \<Rightarrow> (b @ c, e))" for rest
  proof -
    have "next_frame (wb_contents wb @ rest) = Parsed (Data (length b)) (b @ rest)"
      using frame_on_wire(1) [OF wb(1) _ refl] "2.prems"(2) by (simp add: frame_ok_def)
    then show ?thesis
      using message_data message_chunk [of b "length b" rest] by (cases "b = []") (auto split: prod.splits)
  qed
  then have "message 0 (wire (wb # wbs) @ rest) = (case message 0 rest of (c, e) \<Rightarrow> (concat (b # bs) @ c, e))" for rest
    by (auto simp: wbs(2) split: prod.splits)
  then show ?case using wb(2) wbs(1) by (intro exI [of _ "wb # wbs"]) simp
qed auto


lemma send_trailers_received:
  assumes "rq_send_trailers r http trailers st = (Ready (Ok ()), st')"
    and "encode_header http (header_trailer trailers) = Ok (msize, block)" and "length_ok (length block)"
  shows "\<exists>wb. rq_sent st' = rq_sent st @ [wb] \<and> message 0 (wb_contents wb) = ([], TrailersNext block [])"
proof -
  have "rq_write r (Headers block) st = (Ready (Ok ()), st')"
    using assms(1,2) by (auto simp: rq_send_trailers_def Let_def split: if_splits)
  then obtain wb where wb: "write_buf_of_frame r (Headers block) = Ok wb" "rq_sent st' = rq_sent st @ [wb]"
    using rq_write_Ok [of r "Headers block" st "()" st'] by blast
  have "next_frame (wb_contents wb @ []) = Parsed (Headers block) []"
    using assms(3) by (intro frame_on_wire(2) [OF wb(1) _ refl]) (simp add: frame_ok_def)
  then show ?thesis using wb(2) message_last [of "wb_contents wb"] by simp
qed

text \<open>
  C10: a body and trailers that were sent are received. When \<open>send_data\<close> for each chunk and
  then \<open>send_trailers\<close> succeed, the bytes that left the sender are a message whose body is the
  chunks in order and that ends with the trailers, and their header section decodes, within
  the receiver's limit, to the header map that was sent.
\<close>

theorem body_and_trailers_exchange:
  assumes "rq_send_all r bufs st = (Ready (Ok ()), st1)" and "\<forall>b \<in> set bufs. length_ok (length b)"
    and "rq_send_trailers r http trailers st1 = (Ready (Ok ()), st2)"
    and "header_valid http (header_trailer trailers)" and "header_small http (header_trailer trailers)"
    and "rebuilt http (header_trailer trailers) m"
    and "fields_mem_size (header_fields http (header_trailer trailers)) \<le> max_size"
    and "fields_mem_size (header_fields http (header_trailer trailers)) < 2 ^ 58"
  shows "\<exists>wbs block d h. rq_sent st2 = rq_sent st @ wbs \<and>
    message 0 (wire wbs) = (concat bufs, TrailersNext block []) \<and>
    decode_stateless block max_size = Ok d \<and> header_try_from http (dec_fields d) = Ok h \<and> into_fields h = m"
proof -
  obtain wbs where wbs: "rq_sent st1 = rq_sent st @ wbs"
    "\<And>rest. message 0 (wire wbs @ rest) = (case message 0 rest of (b, e) \<Rightarrow> (concat bufs @ b, e))"
    using send_all_received [OF assms(1,2)] by blast
  obtain msize block d where d: "encode_header http (header_trailer trailers) = Ok (msize, block)"
    "decode_stateless block max_size = Ok d"
    "header_try_from http (dec_fields d) = Ok \<lparr>h_pseudo = (h_pseudo (header_trailer trailers))
       \<lparr>ps_len := pseudo_count (h_pseudo (header_trailer trailers))\<rparr>, h_fields = m\<rparr>"
    using header_section_roundtrip [OF assms(4-7)] by blast
  obtain wb where wb: "rq_sent st2 = rq_sent st1 @ [wb]" "message 0 (wb_contents wb) = ([], TrailersNext block [])"
    using send_trailers_received [OF assms(3) d(1) encode_header_length [OF d(1) assms(8)]] by blast
  have "message 0 (wire (wbs @ [wb])) = (concat bufs, TrailersNext block [])"
    using wbs(2) [of "wb_contents wb"] wb(2) by simp
  then show ?thesis
    using wbs(1) wb(1) d by (intro exI [of _ "wbs @ [wb]"] exI [of _ block] exI [of _ d] exI) (auto simp: into_fields_def)
qed




theorem body_and_trailers_exchange_witness:
  "\<exists>wbs block. message 0 (wire wbs) = ([1, 2, 3], TrailersNext block []) \<and> length wbs = 3"
proof -
  let ?st = "request_of []" and ?h = "header_trailer []"
  have f: "header_fields simple_http ?h = []"
    by (simp add: header_fields_def iter_collect_header pseudo_list_def opt_list_def header_trailer_def
        pseudo_default_def map_entries_def simple_http_def)
  have e: "encode_header simple_http ?h = Ok (0, [0, 0])"
    unfolding encode_header_def f by code_simp
  have "fst (rq_send_all 0 [[1, 2], [3]] ?st) = Ready (Ok ())" by code_simp
  then obtain st1 where st1: "rq_send_all 0 [[1, 2], [3]] ?st = (Ready (Ok ()), st1)" by (metis prod.collapse)
  have "fst (rq_write 0 (Headers [0, 0]) (snd (rq_send_all 0 [[1, 2], [3]] ?st))) = Ready (Ok ())
    \<and> ss_settings (snd (snd (rq_send_all 0 [[1, 2], [3]] ?st))) = None
    \<and> length (rq_sent (snd (rq_write 0 (Headers [0, 0]) (snd (rq_send_all 0 [[1, 2], [3]] ?st))))) = 3" by code_simp
  then have "fst (rq_write 0 (Headers [0, 0]) st1) = Ready (Ok ()) \<and> ss_settings (snd st1) = None
    \<and> length (rq_sent (snd (rq_write 0 (Headers [0, 0]) st1))) = 3"
    unfolding st1 by simp
  then obtain st2 where st2: "rq_send_trailers 0 simple_http [] st1 = (Ready (Ok ()), st2)" "length (rq_sent st2) = 3"
    by (cases "rq_write 0 (Headers [0, 0]) st1")
      (auto simp: rq_send_trailers_def e st1 peer_settings_def config_settings_default_def)
  have "rq_sent ?st = []" by (simp add: request_of_def request_stream_new_def no_out_def)
  moreover have "header_valid simple_http ?h"
    by (simp add: header_valid_def pseudo_valid_def header_trailer_def pseudo_default_def map_entries_def simple_http_def)
  moreover have "header_small simple_http ?h" "fields_mem_size (header_fields simple_http ?h) \<le> 100"
    by (simp_all add: header_small_def f)
  moreover have "rebuilt simple_http ?h []"
    unfolding rebuilt_def f by (simp add: header_trailer_def map_entries_def simple_http_def)
  ultimately show ?thesis
    using body_and_trailers_exchange [OF st1 _ st2(1), of "[]" 100] st2(2) by (auto simp: e length_ok_def)
qed

end
