(* ===== verification/Client.thy ===== *)
theory Client
  imports ControlProgress RequestBody
begin

text \<open>
  The client: \<open>Connection\<close> and \<open>SendRequest\<close> of \<open>h3/src/client/connection.rs\<close>, the builder of
  \<open>h3/src/client/builder.rs\<close>, and receiving a response, \<open>h3/src/client/stream.rs\<close>.
\<close>

section \<open>State\<close>

record client_conn =
  cl_inner :: conn_inner
  cl_sent_closing :: "u64 option"
  cl_recv_closing :: "u64 option"

text \<open>What the transport answers when a request stream is opened.\<close>

datatype open_bidi_event = OpenBidiPending | OpenBidi bidi_stream | OpenBidiError stream_error_incoming

record request_sender =
  sr_open :: "open_bidi_event list"
  sr_max_field_section_size :: u64
  sr_send_grease_frame :: bool

definition client_build :: "quic_conn \<Rightarrow> open_bidi_event list \<Rightarrow> config \<Rightarrow> u64 \<times> u64 \<Rightarrow>
    (connection_error, unit) result poll \<times> (client_conn \<times> request_sender \<times> nat) option" where
  "client_build q opener cfg rnd =
     (case conn_inner_new q shared_state_default cfg rnd of
        (Ready (Ok _), Inr c) \<Rightarrow>
          (Ready (Ok ()),
           Some (\<lparr>cl_inner = c, cl_sent_closing = None, cl_recv_closing = None\<rparr>,
             \<lparr>sr_open = opener,
              sr_max_field_section_size = max_field_section_size (config_settings cfg),
              sr_send_grease_frame = send_grease cfg\<rparr>, 1))
      | (r, _) \<Rightarrow> (r, None))"

section \<open>Sending a request\<close>

fun await_open_bidi :: "open_bidi_event list \<Rightarrow> (stream_error_incoming, bidi_stream) result poll \<times> open_bidi_event list" where
  "await_open_bidi [] = (Pending, [])"
| "await_open_bidi (OpenBidiPending # es) = await_open_bidi es"
| "await_open_bidi (OpenBidi b # es) = (Ready (Ok b), es)"
| "await_open_bidi (OpenBidiError e # es) = (Ready (Err e), es)"

type_synonym sr_state = "request_sender \<times> shared_state"

definition sr_failed :: "h3_code \<Rightarrow> sr_state \<Rightarrow> (stream_error, 'a) result poll \<times> sr_state" where
  "sr_failed co st =
     (case handle_connection_error_on_stream (InternalConnectionError co) (snd st) of
        (se, sh) \<Rightarrow> (Ready (Err se), (fst st, sh)))"

definition sr_quic_failed :: "stream_error_incoming \<Rightarrow> sr_state \<Rightarrow> stream_error \<times> sr_state" where
  "sr_quic_failed e st = (case handle_quic_stream_error e (snd st) of (se, sh) \<Rightarrow> (se, (fst st, sh)))"

definition send_request :: "('m, 'u) http \<Rightarrow> bytes \<Rightarrow> 'u \<Rightarrow> 'm \<Rightarrow> protocol option \<Rightarrow> sr_state \<Rightarrow>
    (stream_error, request_stream) result poll \<times> sr_state" where
  "send_request http meth uri headers extension st =
     (case check_peer_connection_closing (snd st) of
        Some e \<Rightarrow> (Ready (Err e), st)
      | None \<Rightarrow>
     (case header_request http meth uri headers extension of
        Err _ \<Rightarrow> sr_failed H3_INTERNAL_ERROR st
      | Panic \<Rightarrow> (Ready Panic, st)
      | Ok h \<Rightarrow>
          poll_then (case await_open_bidi (sr_open (fst st)) of (p, es) \<Rightarrow> (p, ((fst st)\<lparr>sr_open := es\<rparr>, snd st)))
            (\<lambda>b st1.
              case encode_header http h of
                Err _ \<Rightarrow> sr_failed H3_INTERNAL_ERROR st1
              | Panic \<Rightarrow> (Ready Panic, st1)
              | Ok (msize, block) \<Rightarrow>
                  let peer_max = unat (max_field_section_size (peer_settings (snd st1))) in
                  if msize > peer_max then (Ready (Err (HeaderTooBig msize peer_max)), st1)
                  else
                    (case write_out 0 (OutFrame (Headers block)) (bs_send b) of
                       (p, out) \<Rightarrow>
                         poll_then (p, st1) (\<lambda>_ st2.
                           (Ready (Ok (request_stream_new (frame_stream_new (recv_stream_new (bs_recv b))) out
                                 (sr_max_field_section_size (fst st2)) (sr_send_grease_frame (fst st2)))),
                            ((fst st2)\<lparr>sr_send_grease_frame := False\<rparr>, snd st2))) sr_quic_failed))
            sr_quic_failed))"

text \<open>The handles of a connection are counted; dropping the last one closes it.\<close>

definition send_request_clone :: "nat \<Rightarrow> nat" where
  "send_request_clone sender_count = sender_count + 1"

definition send_request_drop :: "nat \<times> shared_state \<Rightarrow> nat \<times> shared_state" where
  "send_request_drop st =
     (fst st - 1,
      if fst st = 1
      then snd (handle_connection_error_on_stream (InternalConnectionError H3_NO_ERROR) (snd st))
      else snd st)"

section \<open>Driving the connection\<close>

definition client_shutdown :: "client_conn \<Rightarrow> (connection_error, unit) result poll \<times> client_conn" where
  "client_shutdown c =
     (case conn_shutdown (cl_sent_closing c) 0 (cl_inner c) of
        (r, sent, i) \<Rightarrow> (r, c\<lparr>cl_sent_closing := sent, cl_inner := i\<rparr>))"

definition client_close :: "h3_code \<Rightarrow> client_conn \<Rightarrow> connection_error may_panic poll \<times> client_conn" where
  "client_close co c =
     (case internal_error co (cl_inner c) of (e, i) \<Rightarrow> (Ready (Ok e), c\<lparr>cl_inner := i\<rparr>))"

function poll_close_loop :: "client_conn \<Rightarrow> connection_error may_panic poll \<times> client_conn" where
  "poll_close_loop c =
     (case poll_control (cl_inner c) of
        (Pending, i) \<Rightarrow> (Pending, c\<lparr>cl_inner := i\<rparr>)
      | (Ready (Err e), i) \<Rightarrow> (Ready (Ok e), c\<lparr>cl_inner := i\<rparr>)
      | (Ready Panic, i) \<Rightarrow> (Ready Panic, c\<lparr>cl_inner := i\<rparr>)
      | (Ready (Ok f), i) \<Rightarrow>
          (case f of
             Settings _ \<Rightarrow> poll_close_loop (c\<lparr>cl_inner := i\<rparr>)
           | Goaway gid \<Rightarrow>
               if \<not> is_request (StreamId gid) then client_close H3_ID_ERROR (c\<lparr>cl_inner := i\<rparr>)
               else
                 (case process_goaway (cl_recv_closing c) gid i of
                    (Err e, recv, i1) \<Rightarrow> (Ready (Ok e), c\<lparr>cl_inner := i1, cl_recv_closing := recv\<rparr>)
                  | (Panic, recv, i1) \<Rightarrow> (Ready Panic, c\<lparr>cl_inner := i1, cl_recv_closing := recv\<rparr>)
                  | (Ok _, recv, i1) \<Rightarrow> poll_close_loop (c\<lparr>cl_inner := i1, cl_recv_closing := recv\<rparr>))
           | _ \<Rightarrow> client_close H3_FRAME_UNEXPECTED (c\<lparr>cl_inner := i\<rparr>)))"
  by pat_completeness auto

lemma process_goaway_load:
  "process_goaway recv gid i = (r, recv', i1) \<Longrightarrow> conn_load i1 = conn_load i"
  using same_streams_load [OF internal_error_streams]
  by (auto simp: process_goaway_def conn_load_def control_load_def split: if_splits prod.splits option.splits)

termination poll_close_loop
  by (relation "measure (\<lambda>c. conn_load (cl_inner c))")
    (auto dest!: poll_control_load [OF sym] process_goaway_load [OF sym])

declare poll_close_loop.simps [simp del]

definition poll_close :: "client_conn \<Rightarrow> connection_error may_panic poll \<times> client_conn" where
  "poll_close c =
     (case poll_close_loop c of
        (Pending, c1) \<Rightarrow>
          (case poll_accept_bi (cl_inner c1) of
             (Pending, i) \<Rightarrow> (Pending, c1\<lparr>cl_inner := i\<rparr>)
           | (Ready _, i) \<Rightarrow> client_close H3_STREAM_CREATION_ERROR (c1\<lparr>cl_inner := i\<rparr>))
      | ready \<Rightarrow> ready)"

section \<open>Receiving a response\<close>

definition malformed_response :: "rq_state \<Rightarrow> (bytes \<times> 'm) rq_poll" where
  "malformed_response st =
     (Ready (Err (StreamErrorCode H3_MESSAGE_ERROR)), rq_stop_sending H3_REQUEST_CANCELLED st)"

definition recv_response :: "('m, 'u) http \<Rightarrow> rq_state \<Rightarrow> (bytes \<times> 'm) rq_poll" where
  "recv_response http st =
     poll_then (rq_await_next st) (\<lambda>frame st1.
       case frame of
         None \<Rightarrow> connection_failed H3_FRAME_UNEXPECTED st1
       | Some (Headers encoded) \<Rightarrow>
           let max_size = unat (rq_max_field_section_size (fst st1)) in
           (case decode_stateless encoded max_size of
              Err (DHeaderTooLong cancel_size) \<Rightarrow>
                (Ready (Err (HeaderTooBig cancel_size max_size)), rq_stop_sending H3_REQUEST_CANCELLED st1)
            | Err _ \<Rightarrow> connection_failed QPACK_DECOMPRESSION_FAILED st1
            | Panic \<Rightarrow> (Ready Panic, st1)
            | Ok d \<Rightarrow>
                (case header_try_from http (dec_fields d) of
                   Panic \<Rightarrow> (Ready Panic, st1)
                 | Err _ \<Rightarrow> malformed_response st1
                 | Ok h \<Rightarrow>
                     (case into_response_parts h of
                        Ok parts \<Rightarrow> (Ready (Ok parts), st1)
                      | _ \<Rightarrow> malformed_response st1)))
       | Some _ \<Rightarrow> connection_failed H3_FRAME_UNEXPECTED st1) frame_failed"

text \<open>Trailers that are too big are not waited for any longer.\<close>

definition client_poll_recv_trailers :: "('m, 'u) http \<Rightarrow> rq_state \<Rightarrow> 'm option rq_poll" where
  "client_poll_recv_trailers http st =
     (case poll_recv_trailers http st of
        (Ready (Err (HeaderTooBig n m)), st1) \<Rightarrow>
          (Ready (Err (HeaderTooBig n m)), rq_stop_sending H3_REQUEST_CANCELLED st1)
      | other \<Rightarrow> other)"

end
