(* ===== verification/Server.thy ===== *)
theory Server
  imports ControlProgress RequestBody
begin

text \<open>
  The server: accepting request streams, GOAWAY and the requests in progress
  (\<open>h3/src/server/connection.rs\<close>), reading a request (\<open>h3/src/server/request.rs\<close>) and sending a
  response (\<open>h3/src/server/stream.rs\<close>).
\<close>

section \<open>State\<close>

text \<open>
  \<open>request_end\<close> is the queue of the channel on which the requests say that they are over. The
  connection holds a sender of its own, so that the channel is never closed.
\<close>

record server_conn =
  sv_inner :: conn_inner
  sv_max_field_section_size :: u64
  ongoing_streams :: "u64 set"
  request_end :: "u64 list"
  sv_sent_closing :: "u64 option"
  sv_recv_closing :: "u64 option"
  last_accepted_stream :: "u64 option"

definition server_build :: "quic_conn \<Rightarrow> config \<Rightarrow> u64 \<times> u64 \<Rightarrow>
    (connection_error, unit) result poll \<times> server_conn option" where
  "server_build q cfg rnd =
     (case conn_inner_new q shared_state_default cfg rnd of
        (Ready (Ok _), Inr c) \<Rightarrow>
          (Ready (Ok ()),
           Some \<lparr>sv_inner = c, sv_max_field_section_size = max_field_section_size (config_settings cfg),
                 ongoing_streams = {}, request_end = [], sv_sent_closing = None,
                 sv_recv_closing = None, last_accepted_stream = None\<rparr>)
      | (r, _) \<Rightarrow> (r, None))"

section \<open>The control stream\<close>

definition server_failed :: "h3_code \<Rightarrow> server_conn \<Rightarrow> (connection_error, 'a) result poll \<times> server_conn" where
  "server_failed co c =
     (case internal_error co (sv_inner c) of (e, i) \<Rightarrow> (Ready (Err e), c\<lparr>sv_inner := i\<rparr>))"

definition poll_next_control :: "server_conn \<Rightarrow> (connection_error, recv_frame) result poll \<times> server_conn" where
  "poll_next_control c =
     (case poll_control (sv_inner c) of
        (Pending, i) \<Rightarrow> (Pending, c\<lparr>sv_inner := i\<rparr>)
      | (Ready (Err e), i) \<Rightarrow> (Ready (Err e), c\<lparr>sv_inner := i\<rparr>)
      | (Ready Panic, i) \<Rightarrow> (Ready Panic, c\<lparr>sv_inner := i\<rparr>)
      | (Ready (Ok f), i) \<Rightarrow>
          (case f of
             Settings _ \<Rightarrow> (Ready (Ok f), c\<lparr>sv_inner := i\<rparr>)
           | Goaway gid \<Rightarrow>
               (case process_goaway (sv_recv_closing c) gid i of
                  (Ok _, recv, i1) \<Rightarrow> (Ready (Ok f), c\<lparr>sv_inner := i1, sv_recv_closing := recv\<rparr>)
                | (Err e, recv, i1) \<Rightarrow> (Ready (Err e), c\<lparr>sv_inner := i1, sv_recv_closing := recv\<rparr>)
                | (Panic, recv, i1) \<Rightarrow> (Ready Panic, c\<lparr>sv_inner := i1, sv_recv_closing := recv\<rparr>))
           | MaxPushId _ \<Rightarrow> (Ready (Ok f), c\<lparr>sv_inner := i\<rparr>)
           | CancelPush _ \<Rightarrow> (Ready (Ok f), c\<lparr>sv_inner := i\<rparr>)
           | _ \<Rightarrow> server_failed H3_FRAME_UNEXPECTED (c\<lparr>sv_inner := i\<rparr>)))"

lemma process_goaway_streams:
  "process_goaway recv gid i = (r, recv', i1) \<Longrightarrow> same_streams i i1"
  using internal_error_streams
  by (auto simp: process_goaway_def same_streams_def split: if_splits prod.splits option.splits)

lemma poll_next_control_load:
  assumes "poll_next_control c = (p, c')"
  shows "conn_load (sv_inner c') \<le> conn_load (sv_inner c)
    \<and> (\<forall>f. p = Ready (Ok f) \<longrightarrow> conn_load (sv_inner c') < conn_load (sv_inner c))"
proof -
  obtain q i where q: "poll_control (sv_inner c) = (q, i)" by (cases "poll_control (sv_inner c)")
  note l = poll_control_load [OF q]
  have failed: "conn_load (sv_inner c2) = conn_load i \<and> (\<forall>f. p2 \<noteq> Ready (Ok f))"
    if "server_failed co (c\<lparr>sv_inner := i\<rparr>) = (p2, c2)" for co c2 and p2 :: "(connection_error, recv_frame) result poll"
    using that same_streams_load [OF internal_error_streams] by (auto simp: server_failed_def split: prod.splits)
  show ?thesis
  proof (cases q rule: poll_result_cases)
    case (ok f)
    show ?thesis
      using assms q ok l failed same_streams_load [OF process_goaway_streams]
      by (cases f) (fastforce simp: poll_next_control_def split: prod.splits result.splits)+
  qed (use assms q l in \<open>auto simp: poll_next_control_def\<close>)
qed

function server_poll_control :: "server_conn \<Rightarrow> (connection_error, unit) result poll \<times> server_conn" where
  "server_poll_control c =
     (case poll_next_control c of
        (Pending, c1) \<Rightarrow> (Pending, c1)
      | (Ready (Ok _), c1) \<Rightarrow> server_poll_control c1
      | (Ready (Err e), c1) \<Rightarrow> (Ready (Err e), c1)
      | (Ready Panic, c1) \<Rightarrow> (Ready Panic, c1))"
  by pat_completeness auto

termination server_poll_control
  by (relation "measure (\<lambda>c. conn_load (sv_inner c))") (auto dest!: poll_next_control_load [OF sym])

declare server_poll_control.simps [simp del]

section \<open>Accepting requests\<close>

definition server_shutdown :: "nat \<Rightarrow> server_conn \<Rightarrow> (connection_error, unit) result poll \<times> server_conn" where
  "server_shutdown max_requests c =
     (let max_id = (case last_accepted_stream c of
          Some i \<Rightarrow> stream_id_into_inner (stream_id_add (StreamId i) (word_of_nat max_requests))
        | None \<Rightarrow> stream_id_into_inner FIRST_REQUEST) in
      case conn_shutdown (sv_sent_closing c) max_id (sv_inner c) of
        (r, sent, i) \<Rightarrow> (r, c\<lparr>sv_sent_closing := sent, sv_inner := i\<rparr>))"

text \<open>Take what the channel has; are there requests in progress?\<close>

definition poll_requests_completion :: "server_conn \<Rightarrow> unit poll \<times> server_conn" where
  "poll_requests_completion c =
     (let c1 = c\<lparr>ongoing_streams := ongoing_streams c - set (request_end c), request_end := []\<rparr> in
      (if ongoing_streams c1 = {} then Ready () else Pending, c1))"

text \<open>A stream that is refused is stopped and reset.\<close>

definition refuse_stream :: "bidi_stream \<Rightarrow> bidi_stream" where
  "refuse_stream b =
     b\<lparr>bs_stopped := bs_stopped b @ [H3_REQUEST_REJECTED],
       bs_send := (bs_send b)\<lparr>os_reset := os_reset (bs_send b) @ [H3_REQUEST_REJECTED]\<rparr>\<rparr>"

text \<open>The loop; the refused streams are the last component of the result.\<close>

lemma poll_accept_bi_shorter:
  assumes "poll_accept_bi c = (Ready (Ok b), c')"
  shows "length (qc_bidi (ci_conn c')) < length (qc_bidi (ci_conn c))"
proof -
  obtain p c1 where p: "poll_connection_error c = (p, c1)" by (cases "poll_connection_error c")
  have c1: "qc_bidi (ci_conn c1) = qc_bidi (ci_conn c)"
    using poll_connection_error_streams [OF p] by (simp add: same_streams_def)
  obtain a q where a: "qc_poll_accept_bidi (ci_conn c1) = (a, q)" by (cases "qc_poll_accept_bidi (ci_conn c1)")
  show ?thesis
    using assms p a c1 qc_poll_accept_bidi_shorter [of "ci_conn c1" _ q]
    by (cases p rule: poll_result_cases; cases a rule: poll_result_cases)
      (auto simp: poll_accept_bi_def unless_error_def split: prod.splits)
qed

function accept_loop :: "server_conn \<Rightarrow>
    (connection_error, bidi_stream option) result poll \<times> server_conn \<times> bidi_stream list" where
  "accept_loop c =
     (case poll_accept_bi (sv_inner c) of
        (Ready (Err e), i) \<Rightarrow> (Ready (Err e), c\<lparr>sv_inner := i\<rparr>, [])
      | (Ready Panic, i) \<Rightarrow> (Ready Panic, c\<lparr>sv_inner := i\<rparr>, [])
      | (Pending, i) \<Rightarrow>
          let c1 = c\<lparr>sv_inner := i\<rparr> in
          if sv_recv_closing c1 \<noteq> None
          then (case poll_requests_completion c1 of
                  (Ready _, c2) \<Rightarrow> (Ready (Ok None), c2, [])
                | (Pending, c2) \<Rightarrow> (Pending, c2, []))
          else (Pending, c1, [])
      | (Ready (Ok b), i) \<Rightarrow>
          let c1 = c\<lparr>sv_inner := i\<rparr> in
          if (case sv_sent_closing c1 of Some max_id \<Rightarrow> bs_id b > max_id | None \<Rightarrow> False)
          then
            (case poll_requests_completion c1 of
               (Ready _, c2) \<Rightarrow> (Ready (Ok None), c2, [refuse_stream b])
             | (Pending, c2) \<Rightarrow>
                 (case accept_loop c2 of (r, c3, refused) \<Rightarrow> (r, c3, refuse_stream b # refused)))
          else
            (Ready (Ok (Some b)),
             c1\<lparr>last_accepted_stream := Some (bs_id b),
                ongoing_streams := insert (bs_id b) (ongoing_streams c1)\<rparr>, []))"
  by pat_completeness auto

lemma poll_requests_completion_inner: "poll_requests_completion c = (p, c') \<Longrightarrow> sv_inner c' = sv_inner c"
  by (auto simp: poll_requests_completion_def Let_def)

termination accept_loop
  by (relation "measure (\<lambda>c. length (qc_bidi (ci_conn (sv_inner c))))")
    (auto dest!: poll_accept_bi_shorter [OF sym] poll_requests_completion_inner [OF sym])

declare accept_loop.simps [simp del]

definition poll_accept_request_stream :: "server_conn \<Rightarrow>
    (connection_error, bidi_stream option) result poll \<times> server_conn \<times> bidi_stream list" where
  "poll_accept_request_stream c =
     (case server_poll_control c of
        (Ready (Err e), c1) \<Rightarrow> (Ready (Err e), c1, [])
      | (Ready Panic, c1) \<Rightarrow> (Ready Panic, c1, [])
      | (_, c1) \<Rightarrow> accept_loop (snd (poll_requests_completion c1)))"


section \<open>Requests\<close>

record request_resolver =
  rr_stream :: frame_stream
  rr_out :: out_stream
  rr_id :: u64
  rr_send_grease_frame :: bool
  rr_max_field_section_size :: u64

text \<open>The first request of a connection sends the grease frame.\<close>

definition create_resolver :: "bidi_stream \<Rightarrow> server_conn \<Rightarrow> request_resolver \<times> server_conn" where
  "create_resolver b c =
     (\<lparr>rr_stream = frame_stream_new (recv_stream_new (bs_recv b)), rr_out = bs_send b, rr_id = bs_id b,
       rr_send_grease_frame = ci_send_grease_frame (sv_inner c),
       rr_max_field_section_size = sv_max_field_section_size c\<rparr>,
      c\<lparr>sv_inner := (sv_inner c)\<lparr>ci_send_grease_frame := False\<rparr>\<rparr>)"

definition server_accept :: "server_conn \<Rightarrow>
    (connection_error, request_resolver option) result poll \<times> server_conn \<times> bidi_stream list" where
  "server_accept c =
     (case poll_accept_request_stream c of
        (Ready (Ok (Some b)), c1, refused) \<Rightarrow>
          (case create_resolver b c1 of (rr, c2) \<Rightarrow> (Ready (Ok (Some rr)), c2, refused))
      | (Ready (Ok None), c1, refused) \<Rightarrow>
          (case poll_then (server_shutdown 0 c1) (\<lambda>_ c2. (Ready (Ok None), c2)) Pair of
             (r, c2) \<Rightarrow> (r, c2, refused))
      | (Ready (Err e), c1, refused) \<Rightarrow> (Ready (Err e), c1, refused)
      | (Ready Panic, c1, refused) \<Rightarrow> (Ready Panic, c1, refused)
      | (Pending, c1, refused) \<Rightarrow> (Pending, c1, refused))"

text \<open>\<open>RequestEnd\<close>: when a request is dropped, its identifier goes to the channel.\<close>

definition request_end_drop :: "u64 \<Rightarrow> server_conn \<Rightarrow> server_conn" where
  "request_end_drop i c = c\<lparr>request_end := request_end c @ [i]\<rparr>"

definition server_send_response :: "u64 \<Rightarrow> ('m, 'u) http \<Rightarrow> bytes \<Rightarrow> 'm \<Rightarrow> rq_state \<Rightarrow> unit rq_poll" where
  "server_send_response r http status headers st =
     (case encode_header http (header_response status headers) of
        Err _ \<Rightarrow> connection_failed H3_INTERNAL_ERROR st
      | Panic \<Rightarrow> (Ready Panic, st)
      | Ok (msize, block) \<Rightarrow>
          let max_mem_size = unat (max_field_section_size (peer_settings (snd st))) in
          if msize > max_mem_size then (Ready (Err (HeaderTooBig msize max_mem_size)), st)
          else rq_write r (Headers block) st)"

definition resolver_stream :: "request_resolver \<Rightarrow> request_stream" where
  "resolver_stream rr =
     request_stream_new (rr_stream rr) (rr_out rr) (rr_max_field_section_size rr) (rr_send_grease_frame rr)"

text \<open>
  The decoded section, or the size with which it was too big, for which an answer must still
  be sent. The resolver is its stream from the start: nothing else of it changes on the way.
\<close>

definition accept_with_frame :: "(frame_stream_error, recv_frame option) result \<Rightarrow> rq_state \<Rightarrow>
    (nat, decoded) result rq_poll" where
  "accept_with_frame frame st =
     (case frame of
        Ok (Some (Headers encoded)) \<Rightarrow>
          (case decode_stateless encoded (unat (rq_max_field_section_size (fst st))) of
             Err (DHeaderTooLong cancel_size) \<Rightarrow> (Ready (Ok (Err cancel_size)), st)
           | Err _ \<Rightarrow> connection_failed QPACK_DECOMPRESSION_FAILED st
           | Panic \<Rightarrow> (Ready Panic, st)
           | Ok d \<Rightarrow> (Ready (Ok (Ok d)), st))
      | Ok None \<Rightarrow>
          (Ready (Err (StreamErrorCode H3_REQUEST_INCOMPLETE)), rq_stop_stream H3_REQUEST_INCOMPLETE st)
      | Ok (Some _) \<Rightarrow> connection_failed H3_FRAME_UNEXPECTED st
      | Err e \<Rightarrow> (case frame_failed e st of (se, st1) \<Rightarrow> (Ready (Err se), st1))
      | Panic \<Rightarrow> (Ready Panic, st))"

definition STATUS_TOO_LARGE :: bytes where
  "STATUS_TOO_LARGE = ascii ''431''"

text \<open>\<open>blank\<close> is the empty header map of the answer to a request that is too big.\<close>

definition resolved_request_resolve :: "u64 \<Rightarrow> ('m, 'u) http \<Rightarrow> 'm \<Rightarrow> (nat, decoded) result \<Rightarrow> rq_state \<Rightarrow>
    (bytes \<times> 'u \<times> protocol option \<times> 'm) rq_poll" where
  "resolved_request_resolve r http blank d st =
     (case d of
        Panic \<Rightarrow> (Ready Panic, st)
      | Err cancel_size \<Rightarrow>
          poll_then (server_send_response r http STATUS_TOO_LARGE blank st)
            (\<lambda>_ st1. (Ready (Err (HeaderTooBig cancel_size (unat (rq_max_field_section_size (fst st1))))), st1)) Pair
      | Ok dec \<Rightarrow>
          (case and_then (header_try_from http (dec_fields dec)) (into_request_parts http) of
             Ok parts \<Rightarrow> (Ready (Ok parts), st)
           | Err _ \<Rightarrow>
               (Ready (Err (StreamErrorCode H3_MESSAGE_ERROR)),
                rq_stop_sending H3_MESSAGE_ERROR (rq_stop_stream H3_MESSAGE_ERROR st))
           | Panic \<Rightarrow> (Ready Panic, st)))"

definition resolve_request :: "u64 \<Rightarrow> ('m, 'u) http \<Rightarrow> 'm \<Rightarrow> rq_state \<Rightarrow>
    (bytes \<times> 'u \<times> protocol option \<times> 'm) rq_poll" where
  "resolve_request r http blank st =
     (case rq_await_next st of
        (Pending, st1) \<Rightarrow> (Pending, st1)
      | (Ready frame, st1) \<Rightarrow>
          poll_then (accept_with_frame frame st1) (\<lambda>d st2. resolved_request_resolve r http blank d st2) Pair)"

section \<open>Dropping the connection\<close>

definition server_drop :: "server_conn \<Rightarrow> server_conn" where
  "server_drop c = c\<lparr>sv_inner := close_connection H3_NO_ERROR (sv_inner c)\<rparr>"

end
