(* ===== verification/Exchange.thy ===== *)
theory Exchange
  imports Client Server
begin

text \<open>
  Client and server together: a request and a response on their way from one end to the other,
  through the header mapping, QPACK, frames, chunks and back; and the graceful end of a
  connection.
\<close>

section \<open>Waiting for a frame\<close>

lemma await_next_frame:
  assumes "frame_stream_inv s" and "remaining_data s = 0" and "next_frame (fs_bytes s) = Parsed f rest"
  shows "\<exists>s'. await_next s = (Ready (Ok (Some f)), s') \<and> fs_bytes s' = rest \<and> frame_stream_inv s'"
  using assms
proof (induction s rule: await_next.induct)
  case (1 s)
  obtain p s1 where p: "poll_next s = (p, s1)" by (cases "poll_next s")
  have post: "poll_next_post s (p, s1)"
    using poll_next_loop_spec [OF "1.prems"(1,2)] p "1.prems"(2) by (simp add: poll_next_def)
  show ?case
  proof (cases p rule: poll_result_cases)
    case pending
    then have ne: "rs_transport (fs_stream s) \<noteq> []" and s1: "frame_stream_inv s1" "remaining_data s1 = 0"
      "next_frame (fs_bytes s1) = Parsed f rest"
      using post "1.prems"(3) by (auto simp: poll_next_post_def)
    have "await_next s = await_next s1" using p pending ne by (simp add: await_next.simps [of s])
    then show ?thesis using "1.IH" [OF p [symmetric] pending ne s1] by simp
  next
    case (ok x)
    then show ?thesis
      using post p "1.prems"(3) by (cases x) (auto simp: poll_next_post_def await_next.simps [of s])
  next
    case (err e)
    then show ?thesis
      using post "1.prems"(3) by (cases e) (auto simp: poll_next_post_def)
  qed (use post in \<open>simp add: poll_next_post_def\<close>)
qed

lemma rq_await_next_frame:
  assumes "rq_inv st" and "\<not> has_data (rq_stream (fst st))"
    and "next_frame (fs_bytes (rq_stream (fst st))) = Parsed f rest"
  shows "\<exists>s'. rq_await_next st = (Ready (Ok (Some f)), ((fst st)\<lparr>rq_stream := s'\<rparr>, snd st)) \<and> fs_bytes s' = rest"
  using await_next_frame [of "rq_stream (fst st)" f rest] assms
  by (auto simp: rq_await_next_def rq_inv_def has_data_def)

section \<open>A request\<close>

lemma write_headers_Ok:
  assumes "write_out r (OutFrame (Headers block)) out = (Ready (Ok u), out')" and "length_ok (length block)"
  shows "\<exists>wb. os_sent out' = os_sent out @ [wb] \<and> (\<forall>rest. next_frame (wb_contents wb @ rest) = Parsed (Headers block) rest)"
proof -
  obtain wb where wb: "write_buf_of_frame r (Headers block) = Ok wb" "os_sent out' = os_sent out @ [wb]"
    using write_out_Ok [OF assms(1)] by auto
  have "next_frame (wb_contents wb @ rest) = Parsed (Headers block) rest" for rest
    using assms(2) by (intro frame_on_wire(2) [OF wb(1) _ refl]) (simp add: frame_ok_def)
  then show ?thesis using wb(2) by blast
qed

lemma send_request_Ok:
  assumes "send_request http meth uri fs ext st = (Ready (Ok rq), st')"
  obtains h and b :: bidi_stream and msize block where "header_request http meth uri fs ext = Ok h"
    and "encode_header http h = Ok (msize, block)"
    and "write_out 0 (OutFrame (Headers block)) (bs_send b) = (Ready (Ok ()), rq_send rq)"
    and "msize \<le> unat (max_field_section_size (peer_settings (snd st)))" and "\<not> is_closing (snd st)"
proof -
  have open_ok: "\<not> is_closing (snd st)"
    using assms by (auto simp: send_request_def check_peer_connection_closing_def)
  obtain h where h: "header_request http meth uri fs ext = Ok h"
    using assms open_ok by (cases "header_request http meth uri fs ext")
      (auto simp: send_request_def check_peer_connection_closing_def sr_failed_def split: prod.splits)
  obtain p es where a: "await_open_bidi (sr_open (fst st)) = (p, es)" by (cases "await_open_bidi (sr_open (fst st))")
  obtain b where b: "p = Ready (Ok b)"
    using assms open_ok h a by (cases p rule: poll_result_cases)
      (auto simp: send_request_def check_peer_connection_closing_def split: prod.splits)
  obtain e where e: "encode_header http h = Ok e"
    using assms open_ok h a b by (cases "encode_header http h")
      (auto simp: send_request_def check_peer_connection_closing_def sr_failed_def split: prod.splits)
  obtain msize block where mb: "e = (msize, block)" by (cases e)
  obtain q out where w: "write_out 0 (OutFrame (Headers block)) (bs_send b) = (q, out)"
    by (cases "write_out 0 (OutFrame (Headers block)) (bs_send b)")
  have "msize \<le> unat (max_field_section_size (peer_settings (snd st))) \<and> q = Ready (Ok ()) \<and> rq_send rq = out"
    using assms open_ok h a b e mb w by (cases q rule: poll_result_cases)
      (auto simp: send_request_def check_peer_connection_closing_def Let_def request_stream_new_def
        split: prod.splits if_splits)
  then show ?thesis
    using that [OF h, of msize block b] e mb w open_ok by simp
qed

text \<open>
  C1: a request, end to end. When the client's \<open>send_request\<close> succeeds, one frame has left it
  that the peer's settings allow; and a server that gets its bytes, in whatever chunks and
  followed by whatever else, resolves the request to the method, the protocol of an extended
  CONNECT and the header map of the client, and to the URI that scheme, authority and path
  make up, or, when \<open>http\<close> builds no URI of them, refuses it with H3_MESSAGE_ERROR.
\<close>

theorem request_end_to_end:
  assumes "send_request http meth uri fs ext st = (Ready (Ok rq), st')"
    and "header_request http meth uri fs ext = Ok h"
    and "header_valid http h" and "header_small http h" and "rebuilt http h m"
    and "map_get http m (ascii ''host'') = map_get http fs (ascii ''host'')"
    and "fields_mem_size (header_fields http h) < 2 ^ 58"
    and "rq_inv srv" and "\<not> has_data (rq_stream (fst srv))"
    and "fields_mem_size (header_fields http h) \<le> unat (rq_max_field_section_size (fst srv))"
  shows "\<exists>before wb a. os_sent (rq_send rq) = before @ [wb] \<and>
    fields_mem_size (header_fields http h) \<le> unat (max_field_section_size (peer_settings (snd st))) \<and>
    (uri_authority http uri = Some a \<or> uri_authority http uri = None \<and> map_get http fs (ascii ''host'') = Some a) \<and>
    (\<forall>rest. fs_bytes (rq_stream (fst srv)) = wb_contents wb @ rest \<longrightarrow>
       fst (resolve_request r http blank srv) =
         (case uri_build http (ps_scheme (h_pseudo h)) (Some a) (ps_path (h_pseudo h)) of
            None \<Rightarrow> Ready (Err (StreamErrorCode H3_MESSAGE_ERROR))
          | Some u \<Rightarrow> Ready (Ok (meth, u, ps_protocol (h_pseudo h), m))))"
proof -
  obtain h' and b :: bidi_stream and msize block where s: "header_request http meth uri fs ext = Ok h'"
    "encode_header http h' = Ok (msize, block)"
    "write_out 0 (OutFrame (Headers block)) (bs_send b) = (Ready (Ok ()), rq_send rq)"
    "msize \<le> unat (max_field_section_size (peer_settings (snd st)))"
    by (rule send_request_Ok [OF assms(1)])
  have h': "h' = h" using s(1) assms(2) by simp
  obtain wb where wb: "os_sent (rq_send rq) = os_sent (bs_send b) @ [wb]"
    "\<And>rest. next_frame (wb_contents wb @ rest) = Parsed (Headers block) rest"
    using write_headers_Ok [OF s(3)] encode_header_length [of http h msize block] assms(7) s(2) h' by blast
  obtain d where d: "encode_header http h = Ok (fields_mem_size (header_fields http h), block)"
    "decode_stateless block (unat (rq_max_field_section_size (fst srv))) = Ok d"
    "header_try_from http (dec_fields d) =
      Ok \<lparr>h_pseudo = (h_pseudo h)\<lparr>ps_len := pseudo_count (h_pseudo h)\<rparr>, h_fields = m\<rparr>"
    using header_section_roundtrip [OF assms(3-5,10)] s(2) h' by auto
  obtain a where a: "uri_authority http uri = Some a \<or> uri_authority http uri = None \<and> map_get http fs (ascii ''host'') = Some a"
    "into_request_parts http \<lparr>h_pseudo = (h_pseudo h)\<lparr>ps_len := pseudo_count (h_pseudo h)\<rparr>, h_fields = m\<rparr> =
      (case uri_build http (ps_scheme (h_pseudo h)) (Some a) (ps_path (h_pseudo h)) of
         None \<Rightarrow> Err InvalidRequest
       | Some u \<Rightarrow> Ok (meth, u, ps_protocol (h_pseudo h), m))"
    using request_parts_of_request [OF assms(2,6)] by blast
  have "fst (resolve_request r http blank srv) =
       (case uri_build http (ps_scheme (h_pseudo h)) (Some a) (ps_path (h_pseudo h)) of
          None \<Rightarrow> Ready (Err (StreamErrorCode H3_MESSAGE_ERROR))
        | Some u \<Rightarrow> Ready (Ok (meth, u, ps_protocol (h_pseudo h), m)))"
    if "fs_bytes (rq_stream (fst srv)) = wb_contents wb @ rest" for rest
  proof -
    have nf: "next_frame (fs_bytes (rq_stream (fst srv))) = Parsed (Headers block) rest"
      using wb(2) [of rest] that by simp
    obtain s' where s': "rq_await_next srv = (Ready (Ok (Some (Headers block))), ((fst srv)\<lparr>rq_stream := s'\<rparr>, snd srv))"
      using rq_await_next_frame [OF assms(8,9) nf] by blast
    show ?thesis
      using d(2,3) a(2)
      by (simp add: resolve_request_def s' accept_with_frame_def resolved_request_resolve_def split: option.split)
  qed
  moreover have "fields_mem_size (header_fields http h) \<le> unat (max_field_section_size (peer_settings (snd st)))"
    using s(2,4) d(1) h' by simp
  ultimately show ?thesis using wb(1) a(1) by blast
qed


text \<open>The client of the witness: the transport opens a stream and takes what is written.\<close>

definition open_stream :: bidi_stream where
  "open_stream = \<lparr>bs_id = 0, bs_recv = [], bs_send = no_out\<lparr>os_ready := [SendOk, SendOk]\<rparr>, bs_stopped = []\<rparr>"

definition ready_client :: sr_state where
  "ready_client =
     (\<lparr>sr_open = [OpenBidiPending, OpenBidi open_stream], sr_max_field_section_size = varint_max,
       sr_send_grease_frame = False\<rparr>, shared_state_default)"

lemma default_limit: "204 \<le> unat (max_field_section_size (peer_settings shared_state_default))"
  by (simp add: peer_settings_def shared_state_default_def config_settings_default_def varint_max_def)

lemma ready_write:
  assumes "length_ok (length block)"
  shows "\<exists>wb out. write_out r (OutFrame (Headers block)) (no_out\<lparr>os_ready := SendOk # SendOk # as\<rparr>) = (Ready (Ok ()), out)
    \<and> os_sent out = [wb]"
proof -
  have "frame_ok r (Headers block)" using assms by (simp add: frame_ok_def)
  then obtain wb where "write_buf_of_frame r (Headers block) = Ok wb"
    using write_buf_carries_frame_spec [of r "Headers block" "[]"] by auto
  then show ?thesis by (simp add: write_out_def out_ready_def out_send_data_def no_out_def)
qed

lemma request_of_bytes: "fs_bytes (rq_stream (fst (request_of [PollData d]))) = d"
  by (simp add: request_of_def request_stream_new_def frame_stream_new_def recv_stream_new_def stream_bytes_def)

lemma request_of_idle: "\<not> has_data (rq_stream (fst (request_of evs)))"
  by (simp add: request_of_def request_stream_new_def frame_stream_new_def has_data_def)

theorem request_end_to_end_witness:
  "\<exists>rq st' wb. send_request simple_http (ascii ''GET'') example_uri [(ascii ''x'', ascii ''y'')] None ready_client
      = (Ready (Ok rq), st') \<and> os_sent (rq_send rq) = [wb] \<and>
    fst (resolve_request 0 simple_http [] (request_of [PollData (wb_contents wb)]))
      = Ready (Ok (ascii ''GET'', example_uri, None, [(ascii ''x'', ascii ''y'')]))"
proof -
  let ?fs = "[(ascii ''x'', ascii ''y'')]"
  obtain h where h: "header_request simple_http (ascii ''GET'') example_uri ?fs None = Ok h"
    "header_valid simple_http h" "header_small simple_http h" "rebuilt simple_http h ?fs"
    "fields_mem_size (header_fields simple_http h) = 204" "h_pseudo h = pseudo_request simple_http (ascii ''GET'') example_uri None"
    using example_header by blast
  obtain block where e: "encode_header simple_http h = Ok (204, block)"
    using header_section_roundtrip [OF h(2-4), of 204] h(5) by auto
  have ok: "length_ok (length block)" using encode_header_length [OF e] h(5) by simp
  obtain wb out where w: "write_out 0 (OutFrame (Headers block)) (bs_send open_stream) = (Ready (Ok ()), out)" "os_sent out = [wb]"
    using ready_write [OF ok, of 0 "[]"] by (auto simp: open_stream_def)
  define rq where "rq = request_stream_new (frame_stream_new (recv_stream_new [])) out varint_max False"
  obtain st' where send: "send_request simple_http (ascii ''GET'') example_uri ?fs None ready_client = (Ready (Ok rq), st')"
    using h(1) e w default_limit
    by (auto simp: send_request_def ready_client_def check_peer_connection_closing_def is_closing_def rq_def
        Let_def not_less) (auto simp: shared_state_default_def open_stream_def)
  have sent: "os_sent (rq_send rq) = [wb]" using w(2) by (simp add: rq_def request_stream_new_def)
  have nonempty: "wb_contents wb \<noteq> []"
    using write_headers_Ok [OF w(1) ok] w(2) next_frame_shorter [of "[]"] by (auto simp: open_stream_def no_out_def)
  let ?srv = "request_of [PollData (wb_contents wb)]"
  have inv: "rq_inv ?srv" using nonempty by (intro request_of_inv) auto
  have max: "fields_mem_size (header_fields simple_http h) \<le> unat (rq_max_field_section_size (fst ?srv))"
    by (simp add: h(5) request_of_def request_stream_new_def varint_max_def)
  have host: "map_get simple_http ?fs (ascii ''host'') = map_get simple_http ?fs (ascii ''host'')" ..
  have small: "fields_mem_size (header_fields simple_http h) < 2 ^ 58" by (simp add: h(5))
  have auth: "uri_authority simple_http example_uri = Some (ascii ''a.b'')"
    by (simp add: simple_http_def example_uri_def)
  have ps: "ps_scheme (h_pseudo h) = Some HTTPS" "ps_path (h_pseudo h) = Some (ascii ''/c'')" "ps_protocol (h_pseudo h) = None"
    unfolding h(6) by (simp_all add: pseudo_request_def simple_http_def example_uri_def CONNECT_def ascii_def)
  have build: "uri_build simple_http (Some HTTPS) (Some (ascii ''a.b'')) (Some (ascii ''/c'')) = Some example_uri"
    by (simp add: simple_http_def example_uri_def ascii_def)
  have "fst (resolve_request 0 simple_http [] ?srv) = Ready (Ok (ascii ''GET'', example_uri, None, ?fs))"
    using request_end_to_end [OF send h(1-4) host small inv request_of_idle max, of 0 "[]"] sent
    by (auto simp: request_of_bytes auth ps build)
  then show ?thesis using send sent by blast
qed

section \<open>A response\<close>

text \<open>
  C2: a response, end to end. When the server's \<open>send_response\<close> succeeds, one frame has left
  it that the peer's settings allow, and a client that gets its bytes, in whatever chunks and
  followed by whatever else, receives the status and the header map of the server.
\<close>

theorem response_end_to_end:
  assumes "server_send_response r http status fs st = (Ready (Ok u), st')"
    and "header_valid http (header_response status fs)" and "header_small http (header_response status fs)"
    and "rebuilt http (header_response status fs) m"
    and "fields_mem_size (header_fields http (header_response status fs)) < 2 ^ 58"
    and "rq_inv cl" and "\<not> has_data (rq_stream (fst cl))"
    and "fields_mem_size (header_fields http (header_response status fs)) \<le> unat (rq_max_field_section_size (fst cl))"
  shows "\<exists>wb. rq_sent st' = rq_sent st @ [wb] \<and>
    fields_mem_size (header_fields http (header_response status fs))
      \<le> unat (max_field_section_size (peer_settings (snd st))) \<and>
    (\<forall>rest. fs_bytes (rq_stream (fst cl)) = wb_contents wb @ rest \<longrightarrow>
       fst (recv_response http cl) = Ready (Ok (status, m)))"
proof -
  let ?h = "header_response status fs"
  obtain block d where d: "encode_header http ?h = Ok (fields_mem_size (header_fields http ?h), block)"
    "decode_stateless block (unat (rq_max_field_section_size (fst cl))) = Ok d"
    "header_try_from http (dec_fields d) =
      Ok \<lparr>h_pseudo = (h_pseudo ?h)\<lparr>ps_len := pseudo_count (h_pseudo ?h)\<rparr>, h_fields = m\<rparr>"
    using header_section_roundtrip [OF assms(2-4,8)] by blast
  have w: "rq_write r (Headers block) st = (Ready (Ok u), st')"
    and limit: "fields_mem_size (header_fields http ?h) \<le> unat (max_field_section_size (peer_settings (snd st)))"
    using assms(1) d(1) by (auto simp: server_send_response_def Let_def split: if_splits)
  obtain wb where wb: "write_buf_of_frame r (Headers block) = Ok wb" "rq_sent st' = rq_sent st @ [wb]"
    using rq_write_Ok [OF w] by blast
  have next': "next_frame (wb_contents wb @ rest) = Parsed (Headers block) rest" for rest
    using encode_header_length [OF d(1) assms(5)] by (intro frame_on_wire(2) [OF wb(1) _ refl]) (simp add: frame_ok_def)
  have "fst (recv_response http cl) = Ready (Ok (status, m))"
    if "fs_bytes (rq_stream (fst cl)) = wb_contents wb @ rest" for rest
  proof -
    have nf: "next_frame (fs_bytes (rq_stream (fst cl))) = Parsed (Headers block) rest"
      using next' [of rest] that by simp
    obtain s' where s': "rq_await_next cl = (Ready (Ok (Some (Headers block))), ((fst cl)\<lparr>rq_stream := s'\<rparr>, snd cl))"
      using rq_await_next_frame [OF assms(6,7) nf] by blast
    show ?thesis
      using d(2,3) by (simp add: recv_response_def s' into_response_parts_def header_response_def pseudo_response_def Let_def)
  qed
  then show ?thesis using wb(2) limit by blast
qed


theorem response_end_to_end_witness:
  "\<exists>st' wb. server_send_response 0 simple_http (ascii ''200'') [] (request_of []) = (Ready (Ok ()), st')
    \<and> rq_sent st' = [wb]
    \<and> fst (recv_response simple_http (request_of [PollData (wb_contents wb)])) = Ready (Ok (ascii ''200'', []))"
proof -
  let ?h = "header_response (ascii ''200'') []"
  have f: "header_fields simple_http ?h = [\<lparr>hf_name = ascii '':status'', hf_value = ascii ''200''\<rparr>]"
    by (simp add: header_fields_def iter_collect_header pseudo_list_def opt_list_def header_response_def
        pseudo_response_def map_entries_def simple_http_def header_field_of_pair_def)
  have mem: "fields_mem_size (header_fields simple_http ?h) = 42"
    unfolding f by (simp add: fields_mem_size_def mem_size_def ESTIMATED_OVERHEAD_BYTES_def ascii_def)
  have valid: "header_valid simple_http ?h"
    by (simp add: header_valid_def pseudo_valid_def header_response_def pseudo_response_def map_entries_def simple_http_def)
  have small: "header_small simple_http ?h"
    unfolding header_small_def mem unfolding f by (simp add: field_ok_def string_ok_def ascii_def usize_max_def)
  have re: "rebuilt simple_http ?h []"
    unfolding rebuilt_def f by (simp add: header_response_def map_entries_def simple_http_def)
  obtain block where e: "encode_header simple_http ?h = Ok (42, block)"
    using header_section_roundtrip [OF valid small re, of 42] mem by auto
  have ok: "length_ok (length block)" using encode_header_length [OF e] mem by simp
  obtain wb out where w: "write_out 0 (OutFrame (Headers block)) (no_out\<lparr>os_ready := replicate 8 SendOk\<rparr>) = (Ready (Ok ()), out)"
    "os_sent out = [wb]"
    using ready_write [OF ok, of 0 "replicate 6 SendOk"] by (auto simp: eval_nat_numeral)
  obtain st' where send: "server_send_response 0 simple_http (ascii ''200'') [] (request_of []) = (Ready (Ok ()), st')"
    "rq_sent st' = [wb]"
    using e w default_limit by (simp add: server_send_response_def rq_write_def request_of_def request_stream_new_def)
  have none: "rq_sent (request_of []) = []" by (simp add: request_of_def request_stream_new_def no_out_def)
  have nonempty: "wb_contents wb \<noteq> []"
    using write_headers_Ok [OF w(1) ok] w(2) next_frame_shorter [of "[]"] by (auto simp: no_out_def)
  let ?cl = "request_of [PollData (wb_contents wb)]"
  have inv: "rq_inv ?cl" using nonempty by (intro request_of_inv) auto
  have max: "fields_mem_size (header_fields simple_http ?h) \<le> unat (rq_max_field_section_size (fst ?cl))"
    by (simp add: mem request_of_def request_stream_new_def varint_max_def)
  have lim: "fields_mem_size (header_fields simple_http ?h) < 2 ^ 58" by (simp add: mem)
  have "fst (recv_response simple_http ?cl) = Ready (Ok (ascii ''200'', []))"
    using response_end_to_end [OF send(1) valid small re lim inv request_of_idle max] send(2) none
    by (auto simp: request_of_bytes)
  then show ?thesis using send by blast
qed

end
