(* ===== verification/Shutdown.thy ===== *)
theory Shutdown
  imports Exchange
begin

text \<open>
  The graceful end of a connection: what GOAWAY means for the client that receives it and for
  the server that sends it, and that the loops of both keep the invariant of the connection.
\<close>

section \<open>The client\<close>

definition goaway_known :: "client_conn \<Rightarrow> bool" where
  "goaway_known c \<longleftrightarrow> (cl_recv_closing c \<noteq> None \<longrightarrow> is_closing (ci_shared (cl_inner c)))"

definition client_evolves :: "client_conn \<Rightarrow> client_conn \<Rightarrow> bool" where
  "client_evolves c c' \<longleftrightarrow> conn_evolves (cl_inner c) (cl_inner c') \<and> (goaway_known c \<longrightarrow> goaway_known c')"

lemma client_evolves_trans: "client_evolves a b \<Longrightarrow> client_evolves b c \<Longrightarrow> client_evolves a c"
  by (auto simp: client_evolves_def intro: conn_evolves_trans)

lemma client_evolves_inner:
  assumes "conn_evolves (cl_inner c) i"
  shows "client_evolves c (c\<lparr>cl_inner := i\<rparr>)"
  using assms by (auto simp: client_evolves_def goaway_known_def conn_evolves_def shared_grows_def is_closing_def)

lemma client_close_evolves: "client_close co c = (r, c') \<Longrightarrow> client_evolves c c'"
  using internal_error_spec(1) by (auto simp: client_close_def intro: client_evolves_inner split: prod.splits)

lemma process_goaway_client:
  assumes "process_goaway (cl_recv_closing c) gid (cl_inner c) = (r, recv, i)"
  shows "client_evolves c (c\<lparr>cl_inner := i, cl_recv_closing := recv\<rparr>)"
proof -
  have e: "conn_evolves (cl_inner c) i" using process_goaway_ok [OF assms] by blast
  then have "is_closing (ci_shared (cl_inner c)) \<longrightarrow> is_closing (ci_shared i)"
    by (simp add: conn_evolves_def shared_grows_def is_closing_def)
  moreover have "recv = cl_recv_closing c \<or> is_closing (ci_shared i)"
    using assms by (auto simp: process_goaway_def set_closing_def is_closing_def split: if_splits prod.splits)
  ultimately show ?thesis using e by (auto simp: client_evolves_def goaway_known_def)
qed

lemma poll_close_loop_evolves: "poll_close_loop c = (r, c') \<Longrightarrow> client_evolves c c'"
proof (induction c arbitrary: r c' rule: poll_close_loop.induct)
  case (1 c)
  obtain p i where p: "poll_control (cl_inner c) = (p, i)" by (cases "poll_control (cl_inner c)")
  have i: "client_evolves c (c\<lparr>cl_inner := i\<rparr>)"
    using poll_control_ok [of "cl_inner c"] p by (intro client_evolves_inner) (simp add: op_ok_def)
  show ?case
  proof (cases p rule: poll_result_cases)
    case (ok f)
    have close: "client_evolves c c'" if "client_close co (c\<lparr>cl_inner := i\<rparr>) = (r, c')" for co
      using client_close_evolves [OF that] i by (rule client_evolves_trans [rotated])
    show ?thesis
    proof (cases f)
      case (Settings s)
      then have "poll_close_loop (c\<lparr>cl_inner := i\<rparr>) = (r, c')"
        using "1.prems" p ok by (simp add: poll_close_loop.simps [of c])
      then show ?thesis using "1.IH"(1) [OF p [symmetric] ok refl Settings] i by (blast intro: client_evolves_trans)
    next
      case (Goaway gid)
      obtain r1 recv i1 where g: "process_goaway (cl_recv_closing c) gid i = (r1, recv, i1)"
        by (cases "process_goaway (cl_recv_closing c) gid i") auto
      have step: "client_evolves c (c\<lparr>cl_inner := i1, cl_recv_closing := recv\<rparr>)"
        using process_goaway_client [of "c\<lparr>cl_inner := i\<rparr>" gid r1 recv i1] g i
        by (auto intro: client_evolves_trans)
      show ?thesis
      proof (cases "is_request (StreamId gid)")
        case True
        show ?thesis
        proof (cases r1)
          case (Ok u)
          then have "poll_close_loop (c\<lparr>cl_inner := i1, cl_recv_closing := recv\<rparr>) = (r, c')"
            using "1.prems" p ok Goaway True g by (simp add: poll_close_loop.simps [of c])
          moreover have "\<not> \<not> is_request (StreamId gid)" using True by simp
          ultimately have "client_evolves (c\<lparr>cl_inner := i1, cl_recv_closing := recv\<rparr>) c'"
            using "1.IH"(2) [OF p [symmetric] ok refl Goaway _ g [symmetric] Ok refl] by blast
          then show ?thesis using step by (blast intro: client_evolves_trans)
        qed (use "1.prems" p ok Goaway True g step in \<open>auto simp: poll_close_loop.simps [of c]\<close>)
      qed (use "1.prems" p ok Goaway close in \<open>auto simp: poll_close_loop.simps [of c]\<close>)
    qed (use "1.prems" p ok close in \<open>auto simp: poll_close_loop.simps [of c]\<close>)
  qed (use "1.prems" p i in \<open>auto simp: poll_close_loop.simps [of c]\<close>)
qed

lemma poll_close_evolves:
  assumes "poll_close c = (r, c')"
  shows "client_evolves c c'"
proof -
  obtain p c1 where p: "poll_close_loop c = (p, c1)" by (cases "poll_close_loop c")
  note one = poll_close_loop_evolves [OF p]
  obtain a i where a: "poll_accept_bi (cl_inner c1) = (a, i)" by (cases "poll_accept_bi (cl_inner c1)")
  have two: "client_evolves c1 (c1\<lparr>cl_inner := i\<rparr>)"
    using poll_accept_bi_ok [of "cl_inner c1"] a by (intro client_evolves_inner) (simp add: op_ok_def)
  show ?thesis
    using assms p one a two client_close_evolves
    by (cases p; cases a) (auto simp: poll_close_def intro: client_evolves_trans)
qed

text \<open>
  C8: after a GOAWAY the client sends no new request. Whatever a poll of the connection does,
  once it has taken in a GOAWAY, every later \<open>send_request\<close> on that connection answers that the
  peer is closing, opens no stream and sends nothing.
\<close>

theorem no_request_after_goaway:
  assumes "goaway_known c" and "poll_close c = (r, c')" and "cl_recv_closing c' = Some i"
    and "conn_evolves (cl_inner c') later"
  shows "send_request http meth uri fs ext (sr, ci_shared later) = (Ready (Err RemoteClosing), (sr, ci_shared later))"
proof -
  have "is_closing (ci_shared (cl_inner c'))"
    using poll_close_evolves [OF assms(2)] assms(1,3) by (auto simp: client_evolves_def goaway_known_def)
  then have "is_closing (ci_shared later)"
    using assms(4) by (simp add: conn_evolves_def shared_grows_def is_closing_def)
  then show ?thesis by (simp add: send_request_def check_peer_connection_closing_def)
qed

definition client_of :: "recv_event list \<Rightarrow> client_conn" where
  "client_of evs = \<lparr>cl_inner = control_conn True False evs, cl_sent_closing = None, cl_recv_closing = None\<rparr>"

theorem no_request_after_goaway_witness:
  "send_request simple_http (ascii ''GET'') example_uri [] None
     (fst ready_client, ci_shared (cl_inner (snd (poll_close (client_of [PollData [7, 1, 4]])))))
   = (Ready (Err RemoteClosing),
      (fst ready_client, ci_shared (cl_inner (snd (poll_close (client_of [PollData [7, 1, 4]]))))))"
proof -
  have "cl_recv_closing (snd (poll_close (client_of [PollData [7, 1, 4]]))) = Some 4" by code_simp
  moreover have "goaway_known (client_of [PollData [7, 1, 4]])" by (simp add: client_of_def goaway_known_def)
  ultimately show ?thesis
    using no_request_after_goaway [OF _ _ _ conn_evolves_refl]
    by (cases "poll_close (client_of [PollData [7, 1, 4]])") simp
qed

section \<open>The server\<close>

text \<open>A request stays in progress until it has said that it is over.\<close>

definition server_evolves :: "server_conn \<Rightarrow> server_conn \<Rightarrow> bool" where
  "server_evolves c c' \<longleftrightarrow> conn_evolves (sv_inner c) (sv_inner c') \<and> sv_sent_closing c' = sv_sent_closing c
     \<and> ongoing_streams c - set (request_end c) \<subseteq> ongoing_streams c' - set (request_end c')"

lemma server_evolves_trans: "server_evolves a b \<Longrightarrow> server_evolves b c \<Longrightarrow> server_evolves a c"
  by (auto simp: server_evolves_def intro: conn_evolves_trans)

lemma poll_requests_completion_spec:
  "poll_requests_completion c = (p, c') \<Longrightarrow>
   server_evolves c c' \<and> (p = Ready () \<longleftrightarrow> ongoing_streams c' = {})
   \<and> ongoing_streams c' = ongoing_streams c - set (request_end c) \<and> request_end c' = []"
  by (auto simp: poll_requests_completion_def Let_def server_evolves_def split: if_splits)

definition refused_ok :: "u64 option \<Rightarrow> bidi_stream \<Rightarrow> bool" where
  "refused_ok sent b \<longleftrightarrow> (\<exists>m. sent = Some m \<and> m < bs_id b)
     \<and> H3_REQUEST_REJECTED \<in> set (bs_stopped b) \<and> H3_REQUEST_REJECTED \<in> set (os_reset (bs_send b))"

definition accept_post :: "server_conn \<Rightarrow>
    (connection_error, bidi_stream option) result poll \<times> server_conn \<times> bidi_stream list \<Rightarrow> bool" where
  "accept_post c out \<longleftrightarrow>
     (case out of (r, c', refused) \<Rightarrow>
        server_evolves c c' \<and> (\<forall>b \<in> set refused. refused_ok (sv_sent_closing c) b)
        \<and> (\<forall>e. r = Ready (Err e) \<longrightarrow> ci_handled_error (sv_inner c') = Some e)
        \<and> (\<forall>b. r = Ready (Ok (Some b)) \<longrightarrow>
             (\<forall>m. sv_sent_closing c = Some m \<longrightarrow> bs_id b \<le> m) \<and> bs_id b \<in> ongoing_streams c'
             \<and> last_accepted_stream c' = Some (bs_id b))
        \<and> (r = Ready (Ok None) \<longrightarrow> ongoing_streams c' = {}))"

lemma accept_loop_post: "accept_post c (accept_loop c)"
proof (induction c rule: accept_loop.induct)
  case (1 c)
  obtain p i where p: "poll_accept_bi (sv_inner c) = (p, i)" by (cases "poll_accept_bi (sv_inner c)")
  define c1 where "c1 = c\<lparr>sv_inner := i\<rparr>"
  have step: "server_evolves c c1" and err: "\<And>e. p = Ready (Err e) \<Longrightarrow> ci_handled_error i = Some e"
    using poll_accept_bi_ok [of "sv_inner c"] p by (auto simp: op_ok_def server_evolves_def c1_def)
  obtain q c2 where q: "poll_requests_completion c1 = (q, c2)" by (cases "poll_requests_completion c1")
  note qs = poll_requests_completion_spec [OF q]
  have step2: "server_evolves c c2" using step qs by (blast intro: server_evolves_trans)
  show ?case
  proof (cases p rule: poll_result_cases)
    case pending
    then show ?thesis
      using p q step step2 qs by (cases q) (auto simp: accept_loop.simps [of c] accept_post_def simp flip: c1_def)
  next
    case (ok b)
    show ?thesis
    proof (cases "case sv_sent_closing c1 of Some max_id \<Rightarrow> bs_id b > max_id | None \<Rightarrow> False")
      case False
      then show ?thesis
        using p ok step
        by (auto simp: accept_loop.simps [of c] accept_post_def server_evolves_def not_less simp flip: c1_def
            split: option.splits)
    next
      case True
      have T: "case sv_sent_closing c of Some max_id \<Rightarrow> bs_id b > max_id | None \<Rightarrow> False"
        using True by (simp add: c1_def)
      have refused: "refused_ok (sv_sent_closing c) (refuse_stream b)"
        using True by (auto simp: refused_ok_def refuse_stream_def c1_def split: option.splits)
      show ?thesis
      proof (cases q)
        case Pending
        have ih: "accept_post c2 (accept_loop c2)"
          using "1.IH" [OF p [symmetric] ok refl c1_def True q [symmetric] Pending] .
        have sent: "sv_sent_closing c2 = sv_sent_closing c" using step2 by (simp add: server_evolves_def)
        show ?thesis
          using p ok T q Pending ih refused step2 sent
          by (auto simp: accept_loop.simps [of c] accept_post_def simp flip: c1_def
              split: prod.splits intro: server_evolves_trans)
      qed (use p ok T q refused step2 qs in \<open>auto simp: accept_loop.simps [of c] accept_post_def simp flip: c1_def\<close>)
    qed
  qed (use p step err in \<open>auto simp: accept_loop.simps [of c] accept_post_def simp flip: c1_def\<close>, auto simp: c1_def)
qed


lemma server_evolves_inner:
  assumes "conn_evolves (sv_inner c) i"
  shows "server_evolves c (c\<lparr>sv_inner := i\<rparr>)" and "server_evolves c (c\<lparr>sv_inner := i, sv_recv_closing := x\<rparr>)"
  using assms by (simp_all add: server_evolves_def)

definition server_op_ok :: "server_conn \<Rightarrow> (connection_error, 'a) result poll \<times> server_conn \<Rightarrow> bool" where
  "server_op_ok c out \<longleftrightarrow> server_evolves c (snd out)
     \<and> (\<forall>e. fst out = Ready (Err e) \<longrightarrow> ci_handled_error (sv_inner (snd out)) = Some e)"

lemma poll_next_control_ok: "server_op_ok c (poll_next_control c)"
proof -
  obtain p i where p: "poll_control (sv_inner c) = (p, i)" by (cases "poll_control (sv_inner c)")
  have i: "conn_evolves (sv_inner c) i" "\<And>e. p = Ready (Err e) \<Longrightarrow> ci_handled_error i = Some e"
    using poll_control_ok [of "sv_inner c"] p by (auto simp: op_ok_def)
  have failed: "server_op_ok c (server_failed co (c\<lparr>sv_inner := i\<rparr>) :: (connection_error, recv_frame) result poll \<times> server_conn)" for co
    using internal_error_spec conn_evolves_trans [OF i(1)]
    by (auto simp: server_failed_def server_op_ok_def split: prod.splits intro: server_evolves_inner)
  have goaway: "conn_evolves (sv_inner c) i1 \<and> (\<forall>e. r1 = Err e \<longrightarrow> ci_handled_error i1 = Some e)"
    if "process_goaway recv gid i = (r1, recv', i1)" for recv gid r1 recv' i1
    using process_goaway_ok [OF that] i(1) by (auto intro: conn_evolves_trans)
  show ?thesis
  proof (cases p rule: poll_result_cases)
    case (ok f)
    show ?thesis
    proof (cases f)
      case (Goaway gid)
      obtain r1 recv' i1 where g: "process_goaway (sv_recv_closing c) gid i = (r1, recv', i1)"
        by (cases "process_goaway (sv_recv_closing c) gid i") auto
      then show ?thesis
        using p ok Goaway goaway [OF g]
        by (cases r1) (auto simp: poll_next_control_def server_op_ok_def intro: server_evolves_inner)
    qed (use p ok i failed in \<open>auto simp: poll_next_control_def server_op_ok_def intro: server_evolves_inner\<close>)
  qed (use p i in \<open>auto simp: poll_next_control_def server_op_ok_def intro: server_evolves_inner\<close>)
qed

lemma server_poll_control_ok: "server_op_ok c (server_poll_control c)"
proof (induction c rule: server_poll_control.induct)
  case (1 c)
  obtain p c1 where p: "poll_next_control c = (p, c1)" by (cases "poll_next_control c")
  have c1: "server_op_ok c (p, c1)" using poll_next_control_ok [of c] p by simp
  show ?case
  proof (cases p rule: poll_result_cases)
    case (ok f)
    then have "server_op_ok c1 (server_poll_control c1)" using "1.IH" [OF p [symmetric]] by simp
    then show ?thesis
      using p ok c1 by (auto simp: server_poll_control.simps [of c] server_op_ok_def intro: server_evolves_trans)
  qed (use p c1 in \<open>auto simp: server_poll_control.simps [of c] server_op_ok_def\<close>)
qed

lemma accept_post_from: "server_evolves c c1 \<Longrightarrow> accept_post c1 out \<Longrightarrow> accept_post c out"
  by (auto simp: accept_post_def server_evolves_def intro: conn_evolves_trans split: prod.splits)


section \<open>The identifier in a GOAWAY\<close>

lemma stream_id_add_0:
  assumes "unat i < 2 ^ 62"
  shows "stream_id_add (StreamId i) 0 = StreamId i"
proof -
  have "u64_saturating_add x 0 = x" for x
    using unsigned_less [of x, where ?'a = nat] by (simp add: u64_saturating_add_def)
  moreover have "drop_bit 2 i \<le> drop_bit 2 varint_max"
    using assms by (simp add: word_le_nat_alt unat_drop_bit_div varint_max_def)
  ultimately have "min (u64_saturating_add (stream_id_index (StreamId i)) 0) (drop_bit 2 varint_max) = stream_id_index (StreamId i)"
    by (simp add: min_def)
  then show ?thesis by (simp only: stream_id_add_def Let_def stream_id_new_eta)
qed



definition server_of :: "u64 option \<Rightarrow> u64 option \<Rightarrow> bidi_event list \<Rightarrow> server_conn" where
  "server_of sent accepted bidis =
     \<lparr>sv_inner = idle_start [] bidis, sv_max_field_section_size = varint_max,
      ongoing_streams = {}, request_end = [], sv_sent_closing = sent, sv_recv_closing = None,
      last_accepted_stream = accepted\<rparr>"


end
