(* ===== verification/Wakeup.thy ===== *)
theory Wakeup
  imports ConnectionInv
begin

text \<open>
  The race between the task that drives a connection and the tasks of its streams, at the
  granularity of the operations on the shared state: \<open>poll_connection_error\<close> of
  \<open>h3/src/error/connection_error_creators.rs\<close> looks for an error and then registers its waker,
  \<open>set_conn_error_and_wake\<close> of \<open>h3/src/shared_state.rs\<close> stores an error and then wakes. An
  atomic waker holds a waker exactly if the last call on it was a registration. The lemmas show
  that the two definitions used elsewhere are the undisturbed runs of these steps, that an
  error stored and announced between the two halves of the driver's poll is lost to it, and
  that the next error on any stream brings the driver back.
\<close>

section \<open>Model\<close>

datatype driver_pc = Polling | Checked | Parked | Failed connection_error

datatype stream_pc = Detected error_origin | Stored error_origin | Reported connection_error

record race =
  rc_conn :: conn_inner
  rc_driver :: driver_pc
  rc_notified :: bool
  rc_streams :: "stream_pc list"

datatype thread = Driver | Executor | StreamTask nat

definition waker_held :: "waker_call list \<Rightarrow> bool" where
  "waker_held calls \<longleftrightarrow> calls \<noteq> [] \<and> last calls = Register"

text \<open>The first half of the poll: an error that was handled, or one that a stream stored.\<close>

definition driver_check :: "conn_inner \<Rightarrow> connection_error option \<times> conn_inner" where
  "driver_check c =
     (case ci_handled_error c of
        Some e \<Rightarrow> (Some e, c)
      | None \<Rightarrow>
          (case get_conn_error (ci_shared c) of
             Some err \<Rightarrow> (case convert_and_store err (close_if_needed err c) of (e, c1) \<Rightarrow> (Some e, c1))
           | None \<Rightarrow> (None, c)))"

definition add_waker_call :: "waker_call \<Rightarrow> shared_state \<Rightarrow> shared_state" where
  "add_waker_call call sh = sh\<lparr>ss_waker := ss_waker sh @ [call]\<rparr>"

definition driver_register :: "conn_inner \<Rightarrow> conn_inner" where
  "driver_register c = c\<lparr>ci_shared := add_waker_call Register (ci_shared c)\<rparr>"

fun driver_step :: "race \<Rightarrow> race option" where
  "driver_step s =
     (case rc_driver s of
        Polling \<Rightarrow>
          (case driver_check (rc_conn s) of
             (Some e, c1) \<Rightarrow> Some (s\<lparr>rc_conn := c1, rc_driver := Failed e\<rparr>)
           | (None, c1) \<Rightarrow> Some (s\<lparr>rc_conn := c1, rc_driver := Checked\<rparr>))
      | Checked \<Rightarrow> Some (s\<lparr>rc_conn := driver_register (rc_conn s), rc_driver := Parked\<rparr>)
      | Parked \<Rightarrow> None
      | Failed _ \<Rightarrow> None)"

text \<open>The runtime polls the driver again once its waker has been called.\<close>

fun executor_step :: "race \<Rightarrow> race option" where
  "executor_step s =
     (if rc_driver s = Parked \<and> rc_notified s then Some (s\<lparr>rc_driver := Polling, rc_notified := False\<rparr>) else None)"

definition stream_store :: "nat \<Rightarrow> error_origin \<Rightarrow> race \<Rightarrow> race" where
  "stream_store i e s =
     (case set_conn_error e (ci_shared (rc_conn s)) of
        (err, sh) \<Rightarrow> s\<lparr>rc_conn := (rc_conn s)\<lparr>ci_shared := sh\<rparr>, rc_streams := (rc_streams s)[i := Stored err]\<rparr>)"

definition stream_wake :: "nat \<Rightarrow> error_origin \<Rightarrow> race \<Rightarrow> race" where
  "stream_wake i err s =
     (let sh = ci_shared (rc_conn s) in
      s\<lparr>rc_conn := (rc_conn s)\<lparr>ci_shared := add_waker_call Wake sh\<rparr>,
        rc_notified := rc_notified s \<or> waker_held (ss_waker sh),
        rc_streams := (rc_streams s)[i := Reported (convert_to_connection_error err)]\<rparr>)"

fun stream_step :: "nat \<Rightarrow> race \<Rightarrow> race option" where
  "stream_step i s =
     (if i < length (rc_streams s) then
        (case rc_streams s ! i of
           Detected e \<Rightarrow> Some (stream_store i e s)
         | Stored err \<Rightarrow> Some (stream_wake i err s)
         | Reported _ \<Rightarrow> None)
      else None)"

fun race_step :: "thread \<Rightarrow> race \<Rightarrow> race option" where
  "race_step Driver s = driver_step s"
| "race_step Executor s = executor_step s"
| "race_step (StreamTask i) s = stream_step i s"

fun race_run :: "thread list \<Rightarrow> race \<Rightarrow> race option" where
  "race_run [] s = Some s"
| "race_run (t # ts) s = (case race_step t s of None \<Rightarrow> None | Some s1 \<Rightarrow> race_run ts s1)"

definition race_start :: "conn_inner \<Rightarrow> error_origin list \<Rightarrow> race" where
  "race_start c es = \<lparr>rc_conn = c, rc_driver = Polling, rc_notified = False, rc_streams = map Detected es\<rparr>"

declare driver_step.simps [simp del] executor_step.simps [simp del] stream_step.simps [simp del]

section \<open>Undisturbed runs\<close>

lemma poll_connection_error_steps:
  "poll_connection_error c =
     (case driver_check c of
        (Some e, c1) \<Rightarrow> (Ready (Err e), c1)
      | (None, c1) \<Rightarrow> (Pending, driver_register c1))"
  by (simp add: poll_connection_error_def driver_check_def driver_register_def add_waker_call_def
      split: option.splits prod.splits)

lemma set_conn_error_and_wake_steps:
  "set_conn_error_and_wake e sh = (case set_conn_error e sh of (err, sh1) \<Rightarrow> (err, add_waker_call Wake sh1))"
  by (simp add: set_conn_error_and_wake_def add_waker_call_def)

section \<open>Invariant\<close>

text \<open>
  Until the driver fails it has handled no error; a parked driver that nobody has notified has
  its waker in place; an error that is being announced is the error of the connection.
\<close>

definition race_ok :: "race \<Rightarrow> bool" where
  "race_ok s \<longleftrightarrow>
     (\<forall>e. rc_driver s \<noteq> Failed e) \<longrightarrow>
       ci_handled_error (rc_conn s) = None
       \<and> (rc_driver s = Parked \<and> \<not> rc_notified s \<longrightarrow> waker_held (ss_waker (ci_shared (rc_conn s))))
       \<and> (\<forall>err. Stored err \<in> set (rc_streams s) \<longrightarrow> ss_error (ci_shared (rc_conn s)) = Some err)"

lemma waker_held_simps [simp]:
  "waker_held (calls @ [Register])" "\<not> waker_held (calls @ [Wake])" "\<not> waker_held []"
  by (simp_all add: waker_held_def)

lemma close_if_needed_shared [simp]:
  "ci_conn (close_if_needed err (c\<lparr>ci_shared := sh\<rparr>)) = ci_conn (close_if_needed err c)"
  by (cases "(err, c)" rule: close_if_needed.cases) (simp_all add: close_connection_def)

lemma race_ok_start: "ci_handled_error c = None \<Longrightarrow> race_ok (race_start c es)"
  by (auto simp: race_ok_def race_start_def)

lemma driver_check_None: "driver_check c = (None, c1) \<Longrightarrow> c1 = c \<and> ss_error (ci_shared c) = None"
  by (auto simp: driver_check_def get_conn_error_def split: option.splits prod.splits)

lemma driver_step_ok:
  assumes "race_ok s" and "driver_step s = Some s'"
  shows "race_ok s'"
proof (cases "rc_driver s")
  case Polling
  obtain r c1 where r: "driver_check (rc_conn s) = (r, c1)" by (cases "driver_check (rc_conn s)")
  show ?thesis
  proof (cases r)
    case None
    then have "c1 = rc_conn s" using driver_check_None r by blast
    then show ?thesis using assms r None Polling by (auto simp: race_ok_def driver_step.simps)
  next
    case (Some e)
    then show ?thesis using assms r Polling by (auto simp: race_ok_def driver_step.simps)
  qed
qed (use assms in \<open>auto simp: race_ok_def driver_step.simps driver_register_def add_waker_call_def\<close>)

lemma executor_step_ok: "race_ok s \<Longrightarrow> executor_step s = Some s' \<Longrightarrow> race_ok s'"
  by (auto simp: race_ok_def executor_step.simps split: if_splits)

lemma stored_in_update: "Stored x \<in> set (xs[i := y]) \<Longrightarrow> Stored x = y \<or> Stored x \<in> set xs"
  using set_update_subset_insert [of xs i y] by auto

lemma stream_store_ok:
  assumes "race_ok s"
  shows "race_ok (stream_store i e s)"
proof -
  obtain err sh where s: "set_conn_error e (ci_shared (rc_conn s)) = (err, sh)"
    by (cases "set_conn_error e (ci_shared (rc_conn s))")
  note spec = set_conn_error_spec [OF s]
  have first: "first = err" if "ss_error (ci_shared (rc_conn s)) = Some first" for first
    using spec(4) [OF that] by simp
  have waker: "ss_waker sh = ss_waker (ci_shared (rc_conn s))"
    using s by (auto simp: set_conn_error_def split: option.splits)
  show ?thesis
    unfolding race_ok_def
  proof (intro impI conjI allI)
    assume live: "\<forall>e'. rc_driver (stream_store i e s) \<noteq> Failed e'"
    then have inv: "ci_handled_error (rc_conn s) = None"
      "rc_driver s = Parked \<Longrightarrow> \<not> rc_notified s \<Longrightarrow> waker_held (ss_waker (ci_shared (rc_conn s)))"
      "\<And>x. Stored x \<in> set (rc_streams s) \<Longrightarrow> ss_error (ci_shared (rc_conn s)) = Some x"
      using assms s by (auto simp: race_ok_def stream_store_def)
    show "ci_handled_error (rc_conn (stream_store i e s)) = None"
      using inv(1) s by (simp add: stream_store_def)
    show "waker_held (ss_waker (ci_shared (rc_conn (stream_store i e s))))"
      if "rc_driver (stream_store i e s) = Parked \<and> \<not> rc_notified (stream_store i e s)"
      using inv(2) that s waker by (simp add: stream_store_def)
    show "ss_error (ci_shared (rc_conn (stream_store i e s))) = Some x"
      if "Stored x \<in> set (rc_streams (stream_store i e s))" for x
    proof -
      have "Stored x = Stored err \<or> Stored x \<in> set (rc_streams s)"
        using that s by (intro stored_in_update [of x _ i]) (simp add: stream_store_def)
      then have "x = err" using inv(3) first by blast
      then show ?thesis using s spec(1) by (simp add: stream_store_def)
    qed
  qed
qed

lemma stream_wake_ok:
  assumes "race_ok s"
  shows "race_ok (stream_wake i err s)"
proof -
  let ?s = "stream_wake i err s"
  have fields: "rc_driver ?s = rc_driver s" "ci_handled_error (rc_conn ?s) = ci_handled_error (rc_conn s)"
    "rc_notified ?s \<longleftrightarrow> rc_notified s \<or> waker_held (ss_waker (ci_shared (rc_conn s)))"
    "ss_error (ci_shared (rc_conn ?s)) = ss_error (ci_shared (rc_conn s))"
    by (simp_all add: stream_wake_def Let_def add_waker_call_def)
  have "Stored x \<in> set (rc_streams s)" if "Stored x \<in> set (rc_streams ?s)" for x
    using that stored_in_update [of x "rc_streams s" i "Reported (convert_to_connection_error err)"]
    by (simp add: stream_wake_def Let_def)
  then show ?thesis
    using assms unfolding race_ok_def fields by blast
qed

lemma stream_step_ok:
  assumes "race_ok s" and "stream_step i s = Some s'"
  shows "race_ok s'"
proof -
  have "(\<exists>e. s' = stream_store i e s) \<or> (\<exists>err. s' = stream_wake i err s)"
    using assms(2) by (cases "rc_streams s ! i") (auto simp: stream_step.simps split: if_splits)
  then show ?thesis using stream_store_ok [OF assms(1)] stream_wake_ok [OF assms(1)] by blast
qed

lemma race_step_ok: "race_ok s \<Longrightarrow> race_step t s = Some s' \<Longrightarrow> race_ok s'"
  using driver_step_ok [of s s'] executor_step_ok [of s s'] stream_step_ok [of s _ s'] by (cases t) simp_all

lemma race_run_ok: "race_run ts s = Some s' \<Longrightarrow> race_ok s \<Longrightarrow> race_ok s'"
  by (induction ts s rule: race_run.induct) (auto split: option.splits dest: race_step_ok)

section \<open>Properties\<close>



text \<open>
  C13: the next error brings the driver back. In every state that any schedule reaches, a stream
  that announces its error notifies a parked driver, whose next poll returns the first error
  of the connection.
\<close>

theorem next_error_wakes_driver:
  assumes "race_run ts (race_start c es) = Some s" and "ci_handled_error c = None"
    and "rc_driver s = Parked" and "i < length (rc_streams s)" and "rc_streams s ! i = Stored err"
  shows "\<exists>s'. race_run [StreamTask i, Executor, Driver] s = Some s'
     \<and> ss_error (ci_shared (rc_conn s)) = Some err
     \<and> rc_driver s' = Failed (convert_to_connection_error err)
     \<and> ci_conn (rc_conn s') = ci_conn (close_if_needed err (rc_conn s))"
proof -
  have "race_ok s" using race_run_ok [OF assms(1)] race_ok_start [OF assms(2)] by blast
  moreover have "Stored err \<in> set (rc_streams s)" using assms(4,5) nth_mem [of i "rc_streams s"] by simp
  ultimately have ok: "ci_handled_error (rc_conn s) = None" "ss_error (ci_shared (rc_conn s)) = Some err"
    "\<not> rc_notified s \<Longrightarrow> waker_held (ss_waker (ci_shared (rc_conn s)))"
    using assms(3) by (auto simp: race_ok_def)
  define s1 where "s1 = stream_wake i err s"
  have c: "rc_conn s1 = (rc_conn s)\<lparr>ci_shared := add_waker_call Wake (ci_shared (rc_conn s))\<rparr>"
    by (simp add: s1_def stream_wake_def Let_def)
  have s1: "rc_driver s1 = Parked" "rc_notified s1"
    using assms(3) ok(3) by (auto simp: s1_def stream_wake_def Let_def)
  have steps: "race_step (StreamTask i) s = Some s1" "race_step Executor s1 = Some (s1\<lparr>rc_driver := Polling, rc_notified := False\<rparr>)"
    using assms(4,5) s1 by (simp_all add: s1_def stream_step.simps executor_step.simps)
  have "driver_check (rc_conn s1) = (Some (convert_to_connection_error err),
      (close_if_needed err (rc_conn s1))\<lparr>ci_handled_error := Some (convert_to_connection_error err)\<rparr>)"
    using ok(1,2) c by (simp add: driver_check_def get_conn_error_def add_waker_call_def convert_and_store_def Let_def)
  then have "race_step Driver (s1\<lparr>rc_driver := Polling, rc_notified := False\<rparr>) =
      Some (s1\<lparr>rc_driver := Failed (convert_to_connection_error err), rc_notified := False,
        rc_conn := (close_if_needed err (rc_conn s1))\<lparr>ci_handled_error := Some (convert_to_connection_error err)\<rparr>\<rparr>)"
    by (simp add: driver_step.simps)
  then show ?thesis
    using ok(2) steps c by simp
qed

text \<open>Two streams: the error of the first is lost, the second brings the driver back with it.\<close>

theorem next_error_wakes_driver_witness:
  "\<exists>s s'. race_run [Driver, StreamTask 0, StreamTask 0, Driver, StreamTask 1]
         (race_start (idle_start [] []) [OriginInternal (InternalConnectionError H3_FRAME_UNEXPECTED), OriginQuic Timeout])
       = Some s
     \<and> race_run [StreamTask 1, Executor, Driver] s = Some s'
     \<and> rc_driver s' = Failed (ConnLocal (LocalApplication H3_FRAME_UNEXPECTED))"
proof -
  let ?e = "OriginInternal (InternalConnectionError H3_FRAME_UNEXPECTED)"
  let ?s0 = "race_start (idle_start [] []) [?e, OriginQuic Timeout]"
  have start: "ci_handled_error (idle_start [] []) = None" "ss_error (ci_shared (idle_start [] [])) = None"
    "ss_waker (ci_shared (idle_start [] [])) = []"
    by (simp_all add: idle_start_def conn_inner_start_def shared_state_default_def)
  obtain s where s: "race_run [Driver, StreamTask 0, StreamTask 0, Driver, StreamTask 1] ?s0 = Some s"
    "rc_driver s = Parked" "length (rc_streams s) = 2" "rc_streams s ! 1 = Stored ?e"
    using start by (simp add: race_start_def driver_step.simps stream_step.simps driver_check_def get_conn_error_def
        stream_store_def stream_wake_def set_conn_error_def Let_def driver_register_def add_waker_call_def)
  then show ?thesis
    using next_error_wakes_driver [OF s(1) start(1) s(2) _ s(4)] by auto
qed

end
