(* ===== verification/Datagram.thy ===== *)
theory Datagram
  imports Errors
begin

text \<open>
  HTTP datagrams: \<open>h3-datagram/src/datagram.rs\<close> and \<open>datagram_handler.rs\<close>. A payload is a
  byte string. The QUIC side of the traits in \<open>quic_traits.rs\<close> is a list of answers: what
  \<open>send_datagram\<close> replies for each datagram and what \<open>poll_incoming_datagram\<close> yields. The
  lemmas show the round trip through the wire, exactly which datagrams are accepted, that the
  encoded datagram is a byte source, and how errors reach the connection.
\<close>

section \<open>Model: the datagram\<close>

record datagram =
  dg_stream_id :: stream_id
  dg_payload :: bytes

definition datagram_new :: "stream_id \<Rightarrow> bytes \<Rightarrow> datagram may_panic" where
  "datagram_new i data =
     assert_then (stream_id_into_inner i mod 4 = 0) (Ok \<lparr>dg_stream_id = i, dg_payload = data\<rparr>)"

text \<open>The product is checked for overflow.\<close>

definition datagram_decode :: "bytes \<Rightarrow> (internal_connection_error, datagram) result" where
  "datagram_decode buf =
     and_then (map_err (\<lambda>_. InternalConnectionError H3_DATAGRAM_ERROR) (varint_decode buf)) (\<lambda>(q, rest).
       assert_then (unat q * 4 < 2 ^ 64)
         (and_then (map_err (\<lambda>_. InternalConnectionError H3_DATAGRAM_ERROR) (stream_id_try_from (q * 4)))
           (\<lambda>i. Ok \<lparr>dg_stream_id = i, dg_payload = rest\<rparr>)))"

record encoded_datagram =
  ed_stream_id :: bytes
  ed_len :: nat
  ed_pos :: nat
  ed_payload :: bytes

text \<open>\<open>impl Div<u64> for VarInt\<close>.\<close>

definition varint_div :: "u64 \<Rightarrow> u64 \<Rightarrow> u64" where
  "varint_div x rhs = x div rhs"

definition datagram_encode :: "datagram \<Rightarrow> encoded_datagram may_panic" where
  "datagram_encode d =
     (let x = varint_div (stream_id_into_inner (dg_stream_id d)) 4 in
      and_then (varint_encode x) (\<lambda>bs.
        assert_then (length bs \<le> varint_max_size)
          (and_then (varint_size x) (\<lambda>n.
             Ok \<lparr>ed_stream_id = bs @ replicate (varint_max_size - length bs) 0, ed_len = n, ed_pos = 0,
                 ed_payload = dg_payload d\<rparr>))))"

definition ed_remaining :: "encoded_datagram \<Rightarrow> nat" where
  "ed_remaining e = ed_len e - ed_pos e + length (ed_payload e)"

definition ed_chunk :: "encoded_datagram \<Rightarrow> bytes" where
  "ed_chunk e =
     (if ed_len e - ed_pos e > 0 then drop (ed_pos e) (take (ed_len e) (ed_stream_id e)) else ed_payload e)"

definition ed_advance :: "encoded_datagram \<Rightarrow> nat \<Rightarrow> encoded_datagram may_panic" where
  "ed_advance e cnt =
     (let h = ed_len e - ed_pos e;
          advanced = if h > 0 then min cnt h else 0;
          e1 = e\<lparr>ed_pos := ed_pos e + advanced\<rparr>;
          cnt1 = cnt - advanced in
      assert_then (cnt1 \<le> length (ed_payload e)) (Ok (e1\<lparr>ed_payload := drop cnt1 (ed_payload e1)\<rparr>)))"

section \<open>Model: sending and receiving\<close>

datatype send_datagram_error_incoming =
    DatagramNotAvailable
  | DatagramTooLarge
  | DatagramConnectionError connection_error_incoming

datatype send_datagram_error =
    SendNotAvailable
  | SendTooLarge
  | SendConnectionError connection_error

text \<open>The handler has the answers it will give and the datagrams it took.\<close>

record datagram_sender =
  ds_answers :: "send_datagram_error_incoming option list"
  ds_taken :: "encoded_datagram list"
  ds_stream_id :: stream_id

fun handle_send_datagram_error ::
  "send_datagram_error_incoming \<Rightarrow> shared_state \<Rightarrow> send_datagram_error \<times> shared_state" where
  "handle_send_datagram_error DatagramNotAvailable sh = (SendNotAvailable, sh)"
| "handle_send_datagram_error DatagramTooLarge sh = (SendTooLarge, sh)"
| "handle_send_datagram_error (DatagramConnectionError e) sh =
     (case set_conn_error_and_wake (OriginQuic e) sh of
        (_, sh1) \<Rightarrow> (SendConnectionError (ConnRemote e), sh1))"

text \<open>An exhausted list of answers stands for a handler that takes everything.\<close>

definition send_datagram :: "bytes \<Rightarrow> datagram_sender \<times> shared_state \<Rightarrow>
    (send_datagram_error, unit) result \<times> datagram_sender \<times> shared_state" where
  "send_datagram data st =
     (case st of (ds, sh) \<Rightarrow>
        (case datagram_new (ds_stream_id ds) data of
           Ok d \<Rightarrow>
             (case datagram_encode d of
                Ok e \<Rightarrow>
                  (case ds_answers ds of
                     Some err # as \<Rightarrow>
                       (case handle_send_datagram_error err sh of
                          (err1, sh1) \<Rightarrow> (Err err1, ds\<lparr>ds_answers := as\<rparr>, sh1))
                   | as \<Rightarrow> (Ok (), ds\<lparr>ds_answers := tl as, ds_taken := ds_taken ds @ [e]\<rparr>, sh))
              | _ \<Rightarrow> (Panic, st))
         | _ \<Rightarrow> (Panic, st)))"

datatype datagram_event = DatagramPending | DatagramData bytes | DatagramLost connection_error_incoming

text \<open>Awaiting the next datagram; \<open>Pending\<close> is never.\<close>

fun read_datagram :: "datagram_event list \<times> shared_state \<Rightarrow>
    (stream_error, datagram) result poll \<times> datagram_event list \<times> shared_state" where
  "read_datagram ([], sh) = (Pending, [], sh)"
| "read_datagram (DatagramPending # es, sh) = read_datagram (es, sh)"
| "read_datagram (DatagramData buf # es, sh) =
     (case datagram_decode buf of
        Ok d \<Rightarrow> (Ready (Ok d), es, sh)
      | Err e \<Rightarrow> (case handle_connection_error_on_stream e sh of (se, sh1) \<Rightarrow> (Ready (Err se), es, sh1))
      | Panic \<Rightarrow> (Ready Panic, es, sh))"
| "read_datagram (DatagramLost e # es, sh) =
     (case handle_quic_stream_error (ConnectionErrorIncoming e) sh of (se, sh1) \<Rightarrow> (Ready (Err se), es, sh1))"

section \<open>The encoded datagram is a byte source\<close>

definition ed_inv :: "encoded_datagram \<Rightarrow> bool" where
  "ed_inv e \<longleftrightarrow> ed_pos e \<le> ed_len e \<and> ed_len e \<le> length (ed_stream_id e)"

definition ed_contents :: "encoded_datagram \<Rightarrow> bytes" where
  "ed_contents e = drop (ed_pos e) (take (ed_len e) (ed_stream_id e)) @ ed_payload e"

lemma ed_advance_spec:
  assumes "ed_inv e" and "n \<le> length (ed_contents e)"
  shows "\<exists>e'. ed_advance e n = Ok e' \<and> ed_inv e' \<and> ed_contents e' = drop n (ed_contents e)"
proof -
  define h where "h = ed_len e - ed_pos e"
  define e' where "e' = e\<lparr>ed_pos := ed_pos e + min n h, ed_payload := drop (n - min n h) (ed_payload e)\<rparr>"
  have len: "length (drop (ed_pos e) (take (ed_len e) (ed_stream_id e))) = h"
    using assms(1) by (simp add: ed_inv_def h_def)
  have fits: "n - min n h \<le> length (ed_payload e)"
    using assms(2) len unfolding ed_contents_def length_append by simp
  have "ed_advance e n = Ok e'"
    using fits by (cases "h = 0") (simp_all add: ed_advance_def Let_def h_def e'_def assert_then_def)
  moreover have "ed_inv e'"
    using assms(1) by (auto simp: ed_inv_def e'_def h_def)
  moreover have "ed_contents e' = drop n (ed_contents e)"
    unfolding ed_contents_def drop_append len
    by (cases "n \<le> h") (use len in \<open>simp_all add: e'_def min_def add.commute\<close>)
  ultimately show ?thesis by blast
qed

interpretation encoded: byte_source ed_contents ed_inv ed_remaining "\<lambda>e. Ok (ed_chunk e)" ed_advance
  by unfold_locales
    (use ed_advance_spec in \<open>auto simp: ed_remaining_def ed_contents_def ed_inv_def ed_chunk_def\<close>)

section \<open>Which datagrams are accepted\<close>

lemma quarter_id_times_4:
  fixes q :: u64
  assumes "varint_ok q"
  shows "unat q * 4 < 2 ^ 64" and "unat (q * 4) = unat q * 4"
proof -
  show le: "unat q * 4 < 2 ^ 64" using assms by (simp add: varint_ok_iff)
  then have "unat q * unat (4 :: u64) < 2 ^ LENGTH(64)" by simp
  then show "unat (q * 4) = unat q * 4"
    using unat_mult_lem [of q 4] by simp
qed

lemma stream_id_try_from_quarter:
  assumes "varint_ok q"
  shows "stream_id_try_from (q * 4) =
    (if unat q < 2 ^ 60 then Ok (StreamId (q * 4)) else Err (InvalidStreamId (q * 4)))"
  using quarter_id_times_4 (2) [OF assms] varint_max_iff [of "q * 4"]
  by (auto simp: stream_id_try_from_def varint_ok_iff simp flip: linorder_not_le)

lemma datagram_decode_cases:
  "datagram_decode buf =
     (case varint_decode buf of
        Ok (q, rest) \<Rightarrow>
          if unat q < 2 ^ 60 then Ok \<lparr>dg_stream_id = StreamId (q * 4), dg_payload = rest\<rparr>
          else Err (InternalConnectionError H3_DATAGRAM_ERROR)
      | _ \<Rightarrow> Err (InternalConnectionError H3_DATAGRAM_ERROR))"
proof (cases "varint_decode buf")
  case (Ok x)
  then obtain q rest where x: "varint_decode buf = Ok (q, rest)" by (cases x) auto
  then have ok: "varint_ok q" by (auto elim: varint_decode_OkD)
  show ?thesis
    using x ok quarter_id_times_4 (1) [OF ok]
    by (simp add: datagram_decode_def assert_then_def stream_id_try_from_quarter)
qed (use varint_decode_no_Panic in \<open>auto simp: datagram_decode_def\<close>)

lemma quarter_of_request:
  fixes v :: u64
  assumes "is_request (StreamId v)" and "v < 2 ^ 62"
  shows "v mod 4 = 0" and "unat (v div 4) < 2 ^ 60" and "v div 4 * 4 = v"
proof -
  have "unat v mod 4 = 0"
    using assms(1) by (simp add: stream_id_class)
  then show m: "v mod 4 = 0"
    by (simp add: word_eq_iff_unat unat_mod_distrib)
  show "unat (v div 4) < 2 ^ 60"
    using assms(2) by (simp add: unat_div_distrib word_less_nat_alt)
  show "v div 4 * 4 = v"
    using div_mult_mod_eq [of v 4] m by simp
qed

lemma datagram_encode_contents:
  assumes "varint_ok (stream_id_into_inner (dg_stream_id d) div 4)"
  shows "\<exists>e. datagram_encode d = Ok e \<and> ed_inv e
     \<and> ed_contents e = varint_bytes (stream_id_into_inner (dg_stream_id d) div 4) @ dg_payload d"
proof -
  obtain n where "varint_encode (stream_id_into_inner (dg_stream_id d) div 4)
        = Ok (varint_bytes (stream_id_into_inner (dg_stream_id d) div 4))"
    and n: "varint_size (stream_id_into_inner (dg_stream_id d) div 4) = Ok n"
    "length (varint_bytes (stream_id_into_inner (dg_stream_id d) div 4)) = n"
    using varint_encode_Ok [OF assms] by (auto simp: varint_bytes_def)
  moreover have "n \<le> varint_max_size"
    using n(1) by (auto simp: varint_size_def varint_max_size_def split: if_splits)
  ultimately show ?thesis
    by (simp add: datagram_encode_def varint_div_def Let_def assert_then_def ed_inv_def ed_contents_def)
qed

text \<open>What a reader returns for a datagram it rejects.\<close>

definition rejected :: "datagram_event list \<Rightarrow> shared_state \<Rightarrow>
    (stream_error, datagram) result poll \<times> datagram_event list \<times> shared_state" where
  "rejected es sh =
     (case set_conn_error (OriginInternal (InternalConnectionError H3_DATAGRAM_ERROR)) sh of
        (err, sh1) \<Rightarrow>
          (Ready (Err (StreamConnectionError (convert_to_connection_error err))), es,
           sh1\<lparr>ss_waker := ss_waker sh1 @ [Wake]\<rparr>))"

section \<open>Properties\<close>

text \<open>
  C36: a datagram reaches the peer. On a request stream every payload is encoded into the
  quarter stream identifier and the payload, the handler takes it, and the reader at the
  other end that is given the bytes of the encoded datagram returns the same stream and
  payload, with neither side touching the state of its connection.
\<close>

theorem datagram_exchange:
  assumes "is_request (StreamId v)" and "v < 2 ^ 62"
  shows "\<exists>e. send_datagram p (\<lparr>ds_answers = [], ds_taken = [], ds_stream_id = StreamId v\<rparr>, sh) =
           (Ok (), \<lparr>ds_answers = [], ds_taken = [e], ds_stream_id = StreamId v\<rparr>, sh)
       \<and> ed_remaining e = length (ed_contents e)
       \<and> ed_contents e = varint_bytes (v div 4) @ p
       \<and> read_datagram ([DatagramData (ed_contents e)], sh') =
           (Ready (Ok \<lparr>dg_stream_id = StreamId v, dg_payload = p\<rparr>), [], sh')"
proof -
  note q = quarter_of_request [OF assms]
  have ok: "varint_ok (v div 4)" using q(2) by (simp add: varint_ok_iff)
  define d where "d = \<lparr>dg_stream_id = StreamId v, dg_payload = p\<rparr>"
  have new: "datagram_new (StreamId v) p = Ok d"
    using q(1) by (simp add: datagram_new_def assert_then_def d_def)
  obtain e where e: "datagram_encode d = Ok e" "ed_inv e" "ed_contents e = varint_bytes (v div 4) @ p"
    using datagram_encode_contents [of d] ok by (auto simp: d_def)
  have "datagram_decode (ed_contents e) = Ok d"
    using q(2,3) by (simp add: datagram_decode_cases e(3) varint.dec_enc [OF ok] d_def)
  then show ?thesis
    using new e(1,3) encoded.remaining_eq [OF e(2)]
    by (simp add: send_datagram_def flip: d_def)
qed

theorem datagram_exchange_witness:
  "\<exists>e. send_datagram [7, 8] (\<lparr>ds_answers = [], ds_taken = [], ds_stream_id = StreamId 4\<rparr>, shared_state_default) =
           (Ok (), \<lparr>ds_answers = [], ds_taken = [e], ds_stream_id = StreamId 4\<rparr>, shared_state_default)
       \<and> ed_remaining e = length (ed_contents e)
       \<and> ed_contents e = varint_bytes (4 div 4) @ [7, 8]
       \<and> read_datagram ([DatagramData (ed_contents e)], shared_state_default) =
           (Ready (Ok \<lparr>dg_stream_id = StreamId 4, dg_payload = [7, 8]\<rparr>), [], shared_state_default)"
  by (rule datagram_exchange) (simp_all add: is_request_def word_less_nat_alt)

text \<open>
  C37: which datagrams a reader accepts. A datagram is accepted exactly when it starts with a
  variable-length integer below \<open>2 ^ 60\<close>, and then it belongs to a request stream within the
  range of stream identifiers. Every other datagram is the connection error
  \<open>H3_DATAGRAM_ERROR\<close>, which is stored for the driver unless there is an error already, and
  the driver is woken; reading never panics.
\<close>

theorem datagram_read_exact:
  "case varint_decode buf of
     Ok (q, rest) \<Rightarrow>
       if unat q < 2 ^ 60
       then read_datagram (DatagramData buf # es, sh) =
              (Ready (Ok \<lparr>dg_stream_id = StreamId (q * 4), dg_payload = rest\<rparr>), es, sh)
          \<and> is_request (StreamId (q * 4)) \<and> unat (q * 4) < 2 ^ 62
       else read_datagram (DatagramData buf # es, sh) = rejected es sh
   | _ \<Rightarrow> read_datagram (DatagramData buf # es, sh) = rejected es sh"
proof -
  have rej: "read_datagram (DatagramData buf # es, sh) = rejected es sh"
    if "datagram_decode buf = Err (InternalConnectionError H3_DATAGRAM_ERROR)"
    using that by (simp add: rejected_def handle_connection_error_on_stream_def set_conn_error_and_wake_def split: prod.splits)
  have ids: "is_request (StreamId (q * 4)) \<and> unat (q * 4) < 2 ^ 62" if "unat q < 2 ^ 60" for q :: u64
  proof -
    have "unat (q * 4) = unat q * 4"
      using that by (intro quarter_id_times_4(2)) (simp add: varint_ok_iff)
    with that show ?thesis by (simp add: stream_id_class)
  qed
  show ?thesis
    using rej ids by (auto simp: datagram_decode_cases split: result.splits)
qed

text \<open>
  A connection that is lost while sending is reported as \<open>Remote\<close>, even where the same
  error is a timeout or an internal error everywhere else, and even if another error came first.
\<close>

lemma send_datagram_error_is_remote:
  assumes "is_request (StreamId v)" and "v < 2 ^ 62"
  shows "\<exists>ds' sh'. send_datagram p (\<lparr>ds_answers = [Some (DatagramConnectionError Timeout)], ds_taken = [],
             ds_stream_id = StreamId v\<rparr>, sh) = (Err (SendConnectionError (ConnRemote Timeout)), ds', sh')
       \<and> (\<exists>err. ss_error sh' = Some err)"
proof -
  note q = quarter_of_request [OF assms]
  have ok: "varint_ok (v div 4)" using q(2) by (simp add: varint_ok_iff)
  obtain e where e: "datagram_encode \<lparr>dg_stream_id = StreamId v, dg_payload = p\<rparr> = Ok e"
    using datagram_encode_contents [of "\<lparr>dg_stream_id = StreamId v, dg_payload = p\<rparr>"] ok by auto
  obtain err sh' where s: "set_conn_error_and_wake (OriginQuic Timeout) sh = (err, sh')"
    by (cases "set_conn_error_and_wake (OriginQuic Timeout) sh")
  show ?thesis
    using q(1) e s set_conn_error_and_wake_spec(1) [OF s]
    by (simp add: send_datagram_def datagram_new_def assert_then_def)
qed

end
