(* ===== verification/Spec2Isabelle.thy ===== *)
theory Spec2Isabelle
  imports FrameStream FrameTypes WriteBuf AcceptStream QpackRoundtrip Errors Messages Transport Connection ConnectionInv ControlStream
    ControlProgress RequestStream RequestBody Client Server Exchange Shutdown Wakeup Datagram
begin

text \<open>
  A model of \<open>h3\<close>, an HTTP/3 implementation in Rust, and the theorems that make it correct.

  \<^bold>\<open>The program.\<close> \<open>h3\<close> turns the byte streams of a QUIC transport into HTTP messages. Its parts
  follow the layers of RFC 9114 and RFC 9204: variable-length integers (\<open>proto/varint.rs\<close>) and
  identifiers (\<open>proto/stream.rs\<close>, \<open>proto/push.rs\<close>); frames and settings (\<open>proto/frame.rs\<close>); the
  receiving side of a stream, which buffers chunks (\<open>buf.rs\<close>), cuts them into frames and hands out
  the payload of DATA frames (\<open>frame.rs\<close>, \<open>stream.rs\<close>); the sending side, a buffer with a header in
  front of a payload (\<open>stream.rs\<close>); QPACK (\<open>qpack/\<close>), which compresses header fields against a
  static and a dynamic table; the mapping between fields and the types of the \<open>http\<close> crate
  (\<open>proto/headers.rs\<close>). On top of them stands a connection (\<open>connection.rs\<close>), driven by one task:
  it sends the settings, sorts the incoming unidirectional streams, reads the control stream
  and the bidirectional streams and negotiates the shutdown. The client and the server
  (\<open>client/\<close>, \<open>server/\<close>) wrap it; request streams live in tasks of their own and share with the
  driver only the settings, the first error, a closing flag and a waker (\<open>shared_state.rs\<close>,
  \<open>error/\<close>). \<open>h3-datagram\<close> adds HTTP datagrams beside the streams.

  \<^bold>\<open>Correspondence.\<close> Paths are under \<open>h3/src/\<close>.
  \<^item> \<open>Prelude\<close>: results (\<open>Ok\<close>, \<open>Err\<close> and the panic \<open>Panic\<close>), the \<open>?\<close> operator as \<open>and_then\<close> and
    \<open>st_then\<close>, checked arithmetic on \<open>usize\<close> and the shared simplification rules.
  \<^item> \<open>Varint\<close>: \<open>proto/varint.rs\<close>, \<open>proto/coding.rs\<close>. \<open>Ids\<close>: \<open>proto/stream.rs\<close>, \<open>proto/push.rs\<close>,
    \<open>webtransport/session_id.rs\<close>. \<open>Frames\<close>: \<open>proto/frame.rs\<close>.
  \<^item> \<open>Buffers\<close>: \<open>buf.rs\<close>. \<open>FrameStream\<close>: \<open>BufRecvStream\<close> of \<open>stream.rs\<close>, \<open>FrameStream\<close> and
    \<open>FrameDecoder\<close> of \<open>frame.rs\<close>, with the types of what it returns in \<open>FrameTypes\<close>.
    \<open>AcceptStream\<close>: \<open>AcceptRecvStream\<close> of \<open>stream.rs\<close>. \<open>WriteBuf\<close>: the write buffer of
    \<open>stream.rs\<close>, the stream headers and the settings of \<open>config.rs\<close>.
  \<^item> \<open>PrefixInt\<close>: \<open>qpack/prefix_int.rs\<close>. \<open>HuffmanTables\<close>, \<open>HuffmanDecode\<close>, \<open>HuffmanEncode\<close>,
    \<open>PrefixString\<close>: \<open>qpack/prefix_string/\<close>.
  \<^item> \<open>StaticTable\<close>: \<open>qpack/static_.rs\<close>, \<open>qpack/field.rs\<close>. \<open>Vas\<close>: \<open>qpack/vas.rs\<close>. \<open>DynamicTable\<close>:
    \<open>qpack/dynamic.rs\<close>, with its invariant in \<open>TableInvariant\<close>, the reference counts in
    \<open>TableTracking\<close> and the encoder's view in \<open>TableEncoder\<close>.
  \<^item> \<open>FieldLines\<close>: \<open>qpack/block.rs\<close>. \<open>Instructions\<close>: \<open>qpack/stream.rs\<close>. \<open>QpackDecoder\<close>,
    \<open>QpackEncoder\<close>: \<open>qpack/decoder.rs\<close>, \<open>qpack/encoder.rs\<close>. \<open>QpackTotal\<close>: the decoder on arbitrary
    input. \<open>QpackSync\<close>, \<open>QpackRoundtrip\<close>: encoder and decoder together.
  \<^item> \<open>Headers\<close>: \<open>proto/headers.rs\<close>, \<open>ext.rs\<close>. \<open>Messages\<close>: a header section through QPACK and back.
  \<^item> \<open>Errors\<close>: \<open>error/\<close> and \<open>shared_state.rs\<close>. \<open>Transport\<close>: the traits of \<open>quic.rs\<close> and \<open>write\<close> of
    \<open>stream.rs\<close>. \<open>Connection\<close>: \<open>ConnectionInner\<close> of \<open>connection.rs\<close> and of
    \<open>error/connection_error_creators.rs\<close>, with its invariant in \<open>ConnectionInv\<close>, the contract of
    the control stream in \<open>ControlStream\<close> and the measure of its loops in \<open>ControlProgress\<close>.
    \<open>Wakeup\<close>: the driver and the streams as interleaved tasks.
  \<^item> \<open>RequestStream\<close>: \<open>RequestStream\<close> of \<open>connection.rs\<close>; \<open>RequestBody\<close>: the message it reads.
    \<open>Client\<close>: \<open>client/\<close>. \<open>Server\<close>: \<open>server/\<close>. \<open>Exchange\<close>, \<open>Shutdown\<close>: both ends together.
  \<^item> \<open>Datagram\<close>: \<open>h3-datagram/src/\<close> (beside \<open>h3\<close>): \<open>datagram.rs\<close>, \<open>datagram_handler.rs\<close>.

  \<^bold>\<open>How the code is read.\<close> A method with \<open>&mut self\<close> is a function from the old state to a result
  and the new state. \<open>usize\<close> and \<open>u64\<close> values whose wrap-around matters are words or carry a check
  that panics, as the debug profile does; \<open>usize\<close> has 64 bits. A transport is the list of answers
  of its poll functions, \<open>Pending\<close> included, so a statement over all answers is one over every
  interleaving; a list that is used up answers \<open>Pending\<close>, and an \<open>await\<close> on it is \<open>Pending\<close>, the
  model of a future that never completes. What has been sent, stopped, reset or closed is
  recorded in the state. The reasons in prose of an error are left out, its code and class are
  kept. The \<open>http\<close> crate is the record \<open>http\<close> of its functions, an argument of every definition
  that uses them; what a theorem needs of it is a hypothesis, and the witnesses use a concrete
  one. Random numbers of grease frames are arguments. Recursion follows the code's loops with
  the length of the input or the bytes left in the streams as the measure, so no fuel is needed.

  \<^bold>\<open>What is shown.\<close> Codecs: what is encoded decodes to itself in front of any other bytes, decoding
  never panics and its outcome does not depend on later bytes. Streams: reading frames from
  any chunking refines parsing the whole byte string, and the frames are well typed. Tables: the
  invariant of the dynamic table (sizes, addresses, lookup maps, reference counts) is kept by
  every operation, also on input of a peer. QPACK: the stateless and the stateful round trip.
  Connection: over all reachable states the transport is closed at most once, with the code of
  the first error, which is final and reaches the driver; the control stream refines the
  rules of RFC 9114; reading it ends; GOAWAY identifiers decrease in both directions. Messages:
  the body is delivered exactly whatever the chunks; a request, a response, a body and
  trailers that were sent successfully are what the other end receives. Shutdown: what a client
  and a server may still do after a GOAWAY. Tasks: when an error of a stream wakes the driver
  and when it does not. Datagrams: the round trip and what is accepted. Where the code deviates
  from the standard or its documentation, a theorem states what it does.

  \<^bold>\<open>Not modelled.\<close> \<open>h3-quinn\<close> and the transport below it: they are the environment, calls into a
  third-party library. \<open>h3-webtransport\<close>: sessions forward to the transport and to the parts
  above, and rest on futures of other crates. The \<open>AsyncRead\<close> and \<open>AsyncWrite\<close> adapters, the
  formatting of errors, tracing, tests and examples. The QPACK encoder and decoder with a
  dynamic table are not yet used by the connection, which encodes statelessly; they are modelled
  on their own.
\<close>

end
